(* ===== verification/Prelude.thy ===== *)
theory Prelude
  imports Main "HOL-Library.Signed_Division"
begin

text \<open>
  What the components share: the outcome of a C++ function (a value, a thrown exception, a failed
  assertion or undefined behaviour), the truncating integer division of C++, decimal text and the
  interface the code relies on for it, and the list and string lemmas used by several components.

  Signed C++ integers are modelled by \<open>int\<close>: overflow of a signed operation is undefined in C++,
  so every defined run computes the mathematical value; where a width matters it is written out or
  is a \<open>word\<close>. Division and remainder are \<open>sdiv\<close> and \<open>smod\<close>, which truncate towards zero.
\<close>

named_theorems outcome_simps \<open>equations and case splits for outcomes\<close>
named_theorems text_simps \<open>facts on decimal text and on splitting strings\<close>

section \<open>Outcomes of a C++ function\<close>

text \<open>The exception types of \<^verbatim>\<open>src/core/exception.hpp\<close> and of the server, and the other exceptions the code throws.\<close>

datatype exn =
    Aborted_error | Null_pointer_error | Dangling_pointer_error | Duplicate_error
  | Not_valid_error | Not_implemented_error | Not_reachable_error
  | Stream_drained_error | Bad_request_error | Bad_response_error | Session_closed_error
  | Session_map_error | Server_directory_error
  | Out_of_range_error | Logic_error | Length_error | Conversion_error | Runtime_error string | Config_error string

text \<open>
  How a call can fail: an exception, an \<^verbatim>\<open>assert\<close> that does not hold (the process aborts in a debug
  build), undefined behaviour (a division by zero, an iterator dereferenced past the end), or
  \<^verbatim>\<open>std::terminate\<close> (an exception that leaves a \<open>noexcept\<close> function).
\<close>

datatype fault = Throw exn | Assert_failed | Undefined_behaviour | Terminated

type_synonym 'a outcome = "fault + 'a"

definition and_then :: "'a outcome \<Rightarrow> ('a \<Rightarrow> 'b outcome) \<Rightarrow> 'b outcome" where
  "and_then r f = (case r of Inl e \<Rightarrow> Inl e | Inr x \<Rightarrow> f x)"

definition assert_that :: "bool \<Rightarrow> 'a outcome \<Rightarrow> 'a outcome" where
  "assert_that p r = (if p then r else Inl Assert_failed)"

lemma and_then_simps [simp, outcome_simps]:
  "and_then (Inl e) f = Inl e"
  "and_then (Inr x) f = f x"
  by (simp_all add: and_then_def)

lemma and_then_eq_Inr [outcome_simps]:
  "and_then r f = Inr y \<longleftrightarrow> (\<exists>x. r = Inr x \<and> f x = Inr y)"
  by (cases r) auto

lemma and_then_assoc: "and_then (and_then r f) g = and_then r (\<lambda>x. and_then (f x) g)"
  by (cases r) auto

lemma assert_that_simps [simp, outcome_simps]:
  "assert_that True r = r"
  "assert_that False r = Inl Assert_failed"
  by (simp_all add: assert_that_def)

lemma assert_that_eq_Inr [outcome_simps]: "assert_that p r = Inr y \<longleftrightarrow> p \<and> r = Inr y"
  by (simp add: assert_that_def)

text \<open>Following a null pointer, or reading an empty optional, is undefined.\<close>

definition deref :: "'a option \<Rightarrow> 'a outcome" where
  "deref p = (case p of None \<Rightarrow> Inl Undefined_behaviour | Some x \<Rightarrow> Inr x)"

lemma deref_simps [simp, outcome_simps]:
  "deref None = Inl Undefined_behaviour"
  "deref (Some x) = Inr x"
  by (simp_all add: deref_def)

lemma deref_Inr [outcome_simps]: "deref p = Inr x \<longleftrightarrow> p = Some x"
  by (cases p) auto

section \<open>Integers\<close>

lemma sdiv_nonneg [simp]: "0 \<le> a \<Longrightarrow> 0 \<le> b \<Longrightarrow> (a::int) sdiv b = a div b"
  by (cases "b = 0"; cases "a = 0") (auto simp: signed_divide_int_def sgn_if)

lemma smod_nonneg [simp]: "0 \<le> a \<Longrightarrow> 0 \<le> b \<Longrightarrow> (a::int) smod b = a mod b"
  by (cases "a = 0") (auto simp: signed_modulo_int_def sgn_if)

text \<open>Division as C++ runs it: dividing by zero is undefined.\<close>

definition cdiv :: "int \<Rightarrow> int \<Rightarrow> int outcome" where
  "cdiv a b = (if b = 0 then Inl Undefined_behaviour else Inr (a sdiv b))"

lemma cdiv_eq_Inr [outcome_simps]: "cdiv a b = Inr q \<longleftrightarrow> b \<noteq> 0 \<and> q = a sdiv b"
  by (auto simp: cdiv_def)

section \<open>Counting in lists\<close>

lemma filter_update_length:
  "i < length xs \<Longrightarrow> \<not> P (xs ! i) \<Longrightarrow> P x \<Longrightarrow> length (filter P (xs[i := x])) = Suc (length (filter P xs))"
  by (induction xs arbitrary: i) (auto simp: nth_Cons split: nat.splits)

lemma filter_update_length_drop:
  "i < length xs \<Longrightarrow> P (xs ! i) \<Longrightarrow> \<not> P x \<Longrightarrow> Suc (length (filter P (xs[i := x]))) = length (filter P xs)"
  by (induction xs arbitrary: i) (auto simp: nth_Cons split: nat.splits)

lemma filter_update_same:
  "i < length xs \<Longrightarrow> P (xs ! i) = P x \<Longrightarrow> length (filter P (xs[i := x])) = length (filter P xs)"
  by (induction xs arbitrary: i) (auto simp: nth_Cons split: nat.splits)

lemma filter_full: "length (filter P xs) = length xs \<Longrightarrow> i < length xs \<Longrightarrow> P (xs ! i)"
  by (metis filter_id_conv length_filter_less nat_neq_iff nth_mem)

section \<open>Decimal text\<close>

definition digits :: string where
  "digits = ''0123456789''"

definition digit :: "nat \<Rightarrow> char" where
  "digit d = digits ! d"

definition digit_value :: "char \<Rightarrow> nat option" where
  "digit_value c = map_of (zip digits [0..<10]) c"

fun show_nat :: "nat \<Rightarrow> string" where
  "show_nat n = (if n < 10 then [digit n] else show_nat (n div 10) @ [digit (n mod 10)])"

declare show_nat.simps [simp del]

fun read_digits :: "nat \<Rightarrow> string \<Rightarrow> nat option" where
  "read_digits acc [] = Some acc"
| "read_digits acc (c # cs) =
     (case digit_value c of None \<Rightarrow> None | Some d \<Rightarrow> read_digits (10 * acc + d) cs)"

definition show_int :: "int \<Rightarrow> string" where
  "show_int k = (if k < 0 then CHR ''-'' # show_nat (nat (- k)) else show_nat (nat k))"

fun read_int :: "string \<Rightarrow> int option" where
  "read_int [] = None"
| "read_int (c # cs) =
     (if c = CHR ''-'' then (if cs = [] then None else map_option (\<lambda>n. - int n) (read_digits 0 cs))
      else map_option int (read_digits 0 (c # cs)))"

lemma less_10_cases: "(d::nat) < 10 \<Longrightarrow> d \<in> {0, 1, 2, 3, 4, 5, 6, 7, 8, 9}"
  by auto

lemma digit_value_digit [text_simps]: "d < 10 \<Longrightarrow> digit_value (digit d) = Some d"
  by (drule less_10_cases) (auto simp: digit_value_def digit_def digits_def upt_rec)

lemma digit_in_digits [text_simps]: "d < 10 \<Longrightarrow> digit d \<in> set digits"
  by (drule less_10_cases) (auto simp: digit_def digits_def)

lemma set_show_nat: "set (show_nat n) \<subseteq> set digits"
proof (induction n rule: show_nat.induct)
  case (1 n)
  then show ?case
    by (auto simp: show_nat.simps [of n] digit_in_digits)
qed

lemma show_nat_not_Nil [simp]: "show_nat n \<noteq> []"
  by (subst show_nat.simps) simp

lemma read_digits_append:
  "read_digits a (xs @ ys) = (case read_digits a xs of None \<Rightarrow> None | Some b \<Rightarrow> read_digits b ys)"
  by (induction a xs rule: read_digits.induct) (auto split: option.splits)

lemma read_digits_show_nat: "read_digits 0 (show_nat n) = Some n"
proof (induction n rule: show_nat.induct)
  case (1 n)
  then show ?case
    by (auto simp: show_nat.simps [of n] read_digits_append digit_value_digit)
qed

lemma minus_not_digit [text_simps]: "CHR ''-'' \<notin> set digits" "CHR '','' \<notin> set digits"
  by (simp_all add: digits_def)

lemma read_int_show_int: "read_int (show_int k) = Some k"
proof (cases "k < 0")
  case True
  then show ?thesis by (simp add: show_int_def read_digits_show_nat)
next
  case False
  obtain c cs where s: "show_nat (nat k) = c # cs"
    by (cases "show_nat (nat k)") auto
  have "c \<noteq> CHR ''-''"
    using set_show_nat [of "nat k"] s minus_not_digit by auto
  with False s show ?thesis
    using read_digits_show_nat [of "nat k"] by (simp add: show_int_def)
qed

text \<open>
  The code writes integers with \<^verbatim>\<open>fmt::format\<close> and \<^verbatim>\<open>folly::toAppend\<close> and reads them with
  \<^verbatim>\<open>folly::to<int>\<close> and with RE2 captures. Those libraries are parameters; what the code relies on
  is that an integer written in decimal reads back, and that a non-negative one is written with
  digits only.
\<close>

locale decimal_text =
  fixes fmt_int :: "int \<Rightarrow> string"
    and to_int :: "string \<Rightarrow> int option"
  assumes to_int_fmt: "to_int (fmt_int k) = Some k"
    and fmt_int_digits: "0 \<le> k \<Longrightarrow> set (fmt_int k) \<subseteq> set digits"
    and fmt_int_not_Nil: "fmt_int k \<noteq> []"
begin

lemma fmt_int_inj: "fmt_int j = fmt_int k \<longleftrightarrow> j = k"
  by (metis option.inject to_int_fmt)

lemma fmt_int_no: "0 \<le> k \<Longrightarrow> c \<notin> set digits \<Longrightarrow> c \<notin> set (fmt_int k)"
  using fmt_int_digits by auto

end

interpretation decimal: decimal_text show_int read_int
proof unfold_locales
  fix k :: int
  show "read_int (show_int k) = Some k" by (rule read_int_show_int)
  show "0 \<le> k \<Longrightarrow> set (show_int k) \<subseteq> set digits"
    using set_show_nat [of "nat k"] by (simp add: show_int_def)
  show "show_int k \<noteq> []" by (simp add: show_int_def)
qed

section \<open>Splitting strings\<close>

text \<open>The fields of a string between a separator, empty ones kept.\<close>

fun split_on :: "char \<Rightarrow> string \<Rightarrow> string list" where
  "split_on d [] = [[]]"
| "split_on d (c # cs) =
     (if c = d then [] # split_on d cs
      else (case split_on d cs of [] \<Rightarrow> [[c]] | f # fs \<Rightarrow> (c # f) # fs))"

text \<open>The parts joined with a separator between them.\<close>

fun join :: "char \<Rightarrow> string list \<Rightarrow> string" where
  "join d [] = []"
| "join d [f] = f"
| "join d (f # fs) = f @ d # join d fs"

lemma split_on_not_Nil [simp]: "split_on d s \<noteq> []"
  by (cases s) (auto split: list.splits)

lemma split_on_field: "d \<notin> set f \<Longrightarrow> split_on d f = [f]"
  by (induction f) auto

lemma split_on_append: "d \<notin> set f \<Longrightarrow> split_on d (f @ d # s) = f # split_on d s"
  by (induction f) auto

lemma split_on_split: "split_on d (s @ d # t) = split_on d s @ split_on d t"
  by (induction s) (auto split: list.splits)

lemma split_on_join:
  assumes "fs \<noteq> []" and "\<forall>f \<in> set fs. d \<notin> set f"
  shows "split_on d (join d fs) = fs"
  using assms
  by (induction d fs rule: join.induct) (auto simp: split_on_field split_on_append)

section \<open>Lists\<close>

lemma takeWhile_dropWhile_unique:
  assumes "xs = ys @ z # zs" and "\<forall>y \<in> set ys. P y" and "\<not> P z"
  shows "takeWhile P xs = ys" and "dropWhile P xs = z # zs"
  using assms by (simp_all add: takeWhile_tail)

lemma take_drop_split:
  "take n (drop p xs) @ drop (min (p + n) (length xs)) xs = drop p xs"
proof (cases "p + n \<le> length xs")
  case True
  then have "drop (min (p + n) (length xs)) xs = drop n (drop p xs)"
    by (simp add: add.commute)
  then show ?thesis by (metis append_take_drop_id)
qed (simp add: min_def)

lemma sum_list_nonneg_take:
  assumes "\<forall>x \<in> set xs. 0 \<le> (x::int)"
  shows "sum_list (take n xs) \<le> sum_list xs"
proof -
  have "sum_list xs = sum_list (take n xs) + sum_list (drop n xs)"
    by (metis append_take_drop_id sum_list_append)
  moreover have "0 \<le> sum_list (drop n xs)"
    using assms by (intro sum_list_nonneg) (auto dest: in_set_dropD)
  ultimately show ?thesis by simp
qed

lemma drop_tail: "drop n xs = y # ys \<Longrightarrow> drop (Suc n) xs = ys"
  by (metis drop_Suc drop_eq_Nil2 list.sel(3) list.discI tl_drop)

lemma take_next: "drop n xs = y # ys \<Longrightarrow> take (Suc n) xs = take n xs @ [y]"
  by (metis drop_eq_Nil2 hd_drop_conv_nth leI list.discI list.sel(1) take_Suc_conv_app_nth)

lemma drop_prefix: "drop n xs = ys @ zs \<Longrightarrow> drop (n + length ys) xs = zs"
  by (metis add.commute append_eq_conv_conj drop_drop)

lemma map_of_map_values: "map_of (map (\<lambda>(k, v). (k, f k v)) xs) c = map_option (f c) (map_of xs c)"
  by (induction xs) auto

end
