(* ===== verification/Core_Files.thy ===== *)
theory Core_Files
  imports Prelude "HOL-Library.Sublist"
begin

text \<open>
  The file helpers of \<^verbatim>\<open>src/core/core.cpp\<close> and \<^verbatim>\<open>core.h\<close> over a model of \<^verbatim>\<open>std::filesystem\<close>. A path
  is the list of its elements as the standard iterates them: a trailing separator gives a last
  element that is empty. A file system is the list of the paths that exist with what they are; a
  directory iterator visits the entries whose parent is the directory, in that list's order.
\<close>

type_synonym path = "string list"

section \<open>Paths\<close>

definition has_filename :: "path \<Rightarrow> bool" where
  "has_filename p \<longleftrightarrow> p \<noteq> [] \<and> last p \<noteq> []"

definition filename :: "path \<Rightarrow> string" where
  "filename p = (if p = [] then [] else last p)"

definition parent_path :: "path \<Rightarrow> path" where
  "parent_path p = butlast p"

text \<open>\<open>directory / relative\<close>: the separator is added when the left side has a file name.\<close>

definition path_append :: "path \<Rightarrow> path \<Rightarrow> path" where
  "path_append p q = (if has_filename p then p else butlast p) @ q"

text \<open>
  The stem of a file name is what stands before its last dot; a name without a dot, one whose
  only dot is its first character, and \<open>.\<close> and \<open>..\<close> have no extension.
\<close>

definition name_extension :: "string \<Rightarrow> string" where
  "name_extension f =
     (let tail = takeWhile (\<lambda>c. c \<noteq> CHR ''.'') (rev f); n = length f - length tail
      in if f = ''..'' \<or> n \<le> 1 then [] else drop (n - 1) f)"

definition name_stem :: "string \<Rightarrow> string" where
  "name_stem f = take (length f - length (name_extension f)) f"

definition dotted :: "string \<Rightarrow> string" where
  "dotted ext = (if ext = [] then [] else if hd ext = CHR ''.'' then ext else CHR ''.'' # ext)"

definition replace_extension :: "path \<Rightarrow> string \<Rightarrow> path" where
  "replace_extension p ext = butlast p @ [name_stem (filename p) @ dotted ext]"

lemma name_stem_extension: "name_stem f @ name_extension f = f"
  by (auto simp: name_stem_def name_extension_def Let_def)

definition tidy_directory_path :: "path \<Rightarrow> path" where
  "tidy_directory_path directory =
     (if has_filename directory then directory else parent_path directory)"

definition file_path_of_directory :: "(path \<Rightarrow> bool) \<Rightarrow> path \<Rightarrow> string \<Rightarrow> path outcome" where
  "file_path_of_directory is_directory directory extension =
     assert_that (is_directory directory)
       (let file_name = filename (tidy_directory_path directory)
        in Inr (replace_extension (path_append directory [file_name]) extension))"

section \<open>The file system\<close>

datatype node = Directory | File int \<comment> \<open>the time of its last write\<close>

type_synonym fs = "(path \<times> node) list"

definition is_directory :: "fs \<Rightarrow> path \<Rightarrow> bool" where
  "is_directory s p \<longleftrightarrow> p = [] \<or> map_of s p = Some Directory"

definition directory_entries :: "fs \<Rightarrow> path \<Rightarrow> (path \<times> node) list" where
  "directory_entries s d = filter (\<lambda>(p, _). p \<noteq> [] \<and> parent_path p = d) s"

definition count_file_entry :: "fs \<Rightarrow> path \<Rightarrow> nat" where
  "count_file_entry s directory = length (directory_entries s directory)"

definition remove_all :: "fs \<Rightarrow> path \<Rightarrow> nat \<times> fs" where
  "remove_all s d = (length (filter (\<lambda>(p, _). prefix d p) s), filter (\<lambda>(p, _). \<not> prefix d p) s)"

text \<open>
  \<open>create_directories\<close> creates every missing ancestor and says whether the directory itself was
  created; an ancestor that is a file is an error.
\<close>

fun create_along :: "fs \<Rightarrow> path \<Rightarrow> string list \<Rightarrow> fs outcome" where
  "create_along s done [] = Inr s"
| "create_along s done (f # fs) =
     (let p = done @ [f]
      in case map_of s p of
           None \<Rightarrow> create_along (s @ [(p, Directory)]) p fs
         | Some Directory \<Rightarrow> create_along s p fs
         | Some (File _) \<Rightarrow> Inl (Throw (Runtime_error ''not a directory'')))"

definition create_directories :: "fs \<Rightarrow> path \<Rightarrow> (bool \<times> fs) outcome" where
  "create_directories s d =
     and_then (create_along s [] d) (\<lambda>s'. Inr (\<not> is_directory s d, s'))"

text \<open>\<open>root_directory\<close> is the root of the path; here the empty path, which always exists.\<close>

definition make_empty_directory :: "fs \<Rightarrow> path \<Rightarrow> ((nat \<times> bool) \<times> fs) outcome" where
  "make_empty_directory s directory =
     assert_that (is_directory s [])
       (let (remove_count, s1) = remove_all s directory
        in and_then (create_directories s1 directory)
             (\<lambda>(create_success, s2). Inr ((remove_count, create_success), s2)))"

definition filter_directory_entry :: "fs \<Rightarrow> path \<Rightarrow> (path \<times> node \<Rightarrow> bool) \<Rightarrow> path list" where
  "filter_directory_entry s directory predicate =
     foldl (\<lambda>container entry. if predicate entry then container @ [fst entry] else container)
       [] (directory_entries s directory)"

text \<open>A directory's own write time is not observed by the code; the listing holds files.\<close>

definition last_write_time :: "node \<Rightarrow> int" where
  "last_write_time n = (case n of Directory \<Rightarrow> 0 | File t \<Rightarrow> t)"

definition last_write_time_less :: "path \<times> node \<Rightarrow> path \<times> node \<Rightarrow> bool" where
  "last_write_time_less left right \<longleftrightarrow> last_write_time (snd left) < last_write_time (snd right)"

text \<open>\<^verbatim>\<open>std::max_element\<close>: the first of the largest; past the end for an empty range.\<close>

fun max_element :: "('a \<Rightarrow> 'a \<Rightarrow> bool) \<Rightarrow> 'a \<Rightarrow> 'a list \<Rightarrow> 'a" where
  "max_element lt best [] = best"
| "max_element lt best (x # xs) = max_element lt (if lt best x then x else best) xs"

definition last_write_path_of_directory :: "fs \<Rightarrow> path \<Rightarrow> path outcome" where
  "last_write_path_of_directory s directory =
     (case directory_entries s directory of
        [] \<Rightarrow> Inl Undefined_behaviour
      | e # es \<Rightarrow> Inr (fst (max_element last_write_time_less e es)))"

section \<open>Lemmas\<close>

lemma filter_directory_entry_eq:
  "filter_directory_entry s d pred = map fst (filter pred (directory_entries s d))"
proof -
  have "foldl (\<lambda>c e. if pred e then c @ [fst e] else c) acc es = acc @ map fst (filter pred es)"
    for acc es
    by (induction es arbitrary: acc) auto
  then show ?thesis by (simp add: filter_directory_entry_def)
qed

lemma filter_directory_entry_subset:
  "p \<in> set (filter_directory_entry s d pred) \<Longrightarrow> p \<noteq> [] \<and> parent_path p = d"
  by (auto simp: filter_directory_entry_eq directory_entries_def)

lemma max_element_in: "max_element less b xs \<in> set (b # xs)"
  by (induction xs arbitrary: b) (auto split: if_splits)

lemma max_element_upper:
  fixes key :: "'a \<Rightarrow> int"
  assumes "x \<in> set (b # xs)"
  shows "key x \<le> key (max_element (\<lambda>l r. key l < key r) b xs)"
  using assms
proof (induction xs arbitrary: b x)
  case (Cons y ys)
  let ?b = "if key b < key y then y else b"
  have "key b \<le> key ?b" and "key y \<le> key ?b" by auto
  moreover have "key z \<le> key (max_element (\<lambda>l r. key l < key r) ?b ys)" if "z \<in> set (?b # ys)" for z
    using Cons.IH [OF that] .
  moreover have "?b \<in> set (?b # ys)" by simp
  ultimately show ?case
    using Cons.prems by (auto intro: order_trans)
qed simp

lemma map_of_kept:
  "\<not> prefix d p \<Longrightarrow> map_of (filter (\<lambda>(q, _). \<not> prefix d q) s) p = map_of s p"
  by (induction s) auto

lemma map_of_removed: "prefix d p \<Longrightarrow> map_of (filter (\<lambda>(q, _). \<not> prefix d q) s) p = None"
  by (auto simp: map_of_eq_None_iff)

lemma create_along_Cons_Inr:
  "create_along s done (f # fs) = Inr s' \<longleftrightarrow>
     (map_of s (done @ [f]) = None \<and>
        create_along (s @ [(done @ [f], Directory)]) (done @ [f]) fs = Inr s') \<or>
     (map_of s (done @ [f]) = Some Directory \<and> create_along s (done @ [f]) fs = Inr s')"
  by (simp add: Let_def split: option.split node.split)

declare create_along.simps(2) [simp del]

lemma create_along_keeps:
  assumes "create_along s done fs = Inr s'" and "map_of s p \<noteq> None"
  shows "map_of s' p = map_of s p"
  using assms
proof (induction fs arbitrary: s "done")
  case (Cons f fs)
  from Cons.prems(1) show ?case
    unfolding create_along_Cons_Inr
  proof (elim disjE conjE)
    assume "create_along (s @ [(done @ [f], Directory)]) (done @ [f]) fs = Inr s'"
    moreover have "map_of (s @ [(done @ [f], Directory)]) p = map_of s p"
      using Cons.prems(2) by (auto simp: map_add_def split: option.split)
    ultimately show ?case using Cons.IH Cons.prems(2) by metis
  next
    assume "create_along s (done @ [f]) fs = Inr s'"
    with Cons show ?case by blast
  qed
qed simp

lemma create_along_new:
  assumes "create_along s done fs = Inr s'" and "map_of s p = None" and "map_of s' p \<noteq> None"
  shows "map_of s' p = Some Directory \<and> prefix p (done @ fs)"
  using assms
proof (induction fs arbitrary: s "done")
  case (Cons f fs)
  let ?p = "done @ [f]"
  from Cons.prems(1) show ?case
    unfolding create_along_Cons_Inr
  proof (elim disjE conjE)
    assume free: "map_of s ?p = None" and run: "create_along (s @ [(?p, Directory)]) ?p fs = Inr s'"
    show ?case
    proof (cases "p = ?p")
      case True
      with create_along_keeps [OF run, of p] free show ?thesis by (simp add: map_add_def)
    next
      case False
      with Cons.IH [OF run] Cons.prems(2,3) show ?thesis by (simp add: map_add_def)
    qed
  next
    assume "create_along s ?p fs = Inr s'"
    from Cons.IH [OF this] Cons.prems(2,3) show ?case by simp
  qed
qed simp

lemma create_along_end:
  assumes "create_along s done fs = Inr s'" and "fs \<noteq> []"
  shows "map_of s' (done @ fs) = Some Directory"
  using assms
proof (induction fs arbitrary: s "done")
  case (Cons f fs)
  let ?p = "done @ [f]"
  obtain s1 where run: "create_along s1 ?p fs = Inr s'" and at: "map_of s1 ?p = Some Directory"
    using Cons.prems(1) by (auto simp: create_along_Cons_Inr map_add_def)
  show ?case
  proof (cases "fs = []")
    case True
    with run at show ?thesis by simp
  next
    case False
    with Cons.IH [OF run] show ?thesis by simp
  qed
qed simp

lemma create_along_prefixes:
  assumes "create_along s done fs = Inr s'" and "prefix p (done @ fs)" and "length done < length p"
  shows "map_of s' p = Some Directory"
  using assms
proof (induction fs arbitrary: s "done")
  case Nil
  then show ?case by (auto dest: prefix_length_le)
next
  case (Cons f fs)
  let ?p = "done @ [f]"
  obtain s1 where run: "create_along s1 ?p fs = Inr s'" and at: "map_of s1 ?p = Some Directory"
    using Cons.prems(1) by (auto simp: create_along_Cons_Inr map_add_def)
  show ?case
  proof (cases "length ?p < length p")
    case True
    with Cons.IH [OF run] Cons.prems(2) show ?thesis by simp
  next
    case False
    with Cons.prems(2,3) have "p = ?p"
      by (auto simp: prefix_def append_eq_append_conv2 append_eq_Cons_conv Cons_eq_append_conv)
    with create_along_keeps [OF run, of ?p] at show ?thesis by simp
  qed
qed

text \<open>When no ancestor is a file the directory can be created; when all exist nothing changes.\<close>

lemma create_along_possible:
  assumes "\<And>p t. prefix p (done @ fs) \<Longrightarrow> map_of s p \<noteq> Some (File t)"
  shows "\<exists>s'. create_along s done fs = Inr s'"
  using assms
proof (induction fs arbitrary: s "done")
  case (Cons f fs)
  let ?p = "done @ [f]"
  have no_file: "map_of s q \<noteq> Some (File t)" if "prefix q (?p @ fs)" for q t
    using Cons.prems [of q t] that by simp
  have there: "prefix ?p (?p @ fs)" by simp
  show ?case
  proof (cases "map_of s ?p")
    case None
    have "\<exists>s'. create_along (s @ [(?p, Directory)]) ?p fs = Inr s'"
      using no_file by (intro Cons.IH) (auto simp: map_add_def split: option.splits)
    with None show ?thesis by (auto simp: create_along_Cons_Inr)
  next
    case (Some n)
    with no_file [OF there] have "map_of s ?p = Some Directory" by (cases n) auto
    moreover have "\<exists>s'. create_along s ?p fs = Inr s'"
      using no_file by (intro Cons.IH) auto
    ultimately show ?thesis by (auto simp: create_along_Cons_Inr)
  qed
qed simp

lemma create_along_present:
  assumes "\<And>p. prefix p (done @ fs) \<Longrightarrow> length done < length p \<Longrightarrow> map_of s p = Some Directory"
  shows "create_along s done fs = Inr s"
  using assms
proof (induction fs arbitrary: "done")
  case (Cons f fs)
  have "map_of s (done @ [f]) = Some Directory"
    by (rule Cons.prems) simp_all
  moreover have "create_along s (done @ [f]) fs = Inr s"
    by (rule Cons.IH, rule Cons.prems) simp_all
  ultimately show ?case by (simp add: create_along_Cons_Inr)
qed simp

text \<open>Every path in the result was there before or is on the way to the directory.\<close>

lemma create_along_entries:
  assumes "create_along s done fs = Inr s'" and "(p, x) \<in> set s'"
  shows "(p, x) \<in> set s \<or> prefix p (done @ fs)"
  using assms
proof (induction fs arbitrary: s "done")
  case (Cons f fs)
  from Cons.prems(1) show ?case
    unfolding create_along_Cons_Inr
  proof (elim disjE conjE)
    assume "create_along (s @ [(done @ [f], Directory)]) (done @ [f]) fs = Inr s'"
    from Cons.IH [OF this] Cons.prems(2) show ?case by auto
  next
    assume "create_along s (done @ [f]) fs = Inr s'"
    from Cons.IH [OF this] Cons.prems(2) show ?case by simp
  qed
qed simp

lemma no_entry_below:
  assumes "create_along (filter (\<lambda>(q, _). \<not> prefix d q) s) [] d = Inr s'"
  shows "directory_entries s' d = []"
proof -
  have False if "(p, x) \<in> set s'" and "p \<noteq> []" and "parent_path p = d" for p x
  proof -
    from that have below: "p = d @ [last p]" by (auto simp: parent_path_def)
    then have "prefix d p" by (metis prefixI)
    with create_along_entries [OF assms that(1)] have "prefix p d" by auto
    with below show False by (metis append.assoc length_append_singleton not_less_eq_eq order_refl prefix_length_le)
  qed
  then show ?thesis by (auto simp: directory_entries_def filter_empty_conv)
qed

text \<open>
  When \<open>make_empty_directory\<close> returns on a non-root path, the directory exists, was
  created by the call (the flag is true), has no entry, the count is the number of paths removed,
  and every path that is not below the directory and existed is as it was.
\<close>

theorem make_empty_directory_correct:
  assumes "make_empty_directory s d = Inr ((n, ok), s')" and "d \<noteq> []"
    and "\<not> prefix d p" and "map_of s p \<noteq> None"
  shows "ok \<and> is_directory s' d \<and> count_file_entry s' d = 0 \<and>
    n = length (filter (\<lambda>(q, _). prefix d q) s) \<and> map_of s' p = map_of s p"
proof -
  let ?s1 = "filter (\<lambda>(q, _). \<not> prefix d q) s"
  from assms(1) have run: "create_along ?s1 [] d = Inr s'" and n: "n = length (filter (\<lambda>(q, _). prefix d q) s)"
    and ok: "ok = (\<not> is_directory ?s1 d)"
    by (auto simp: make_empty_directory_def remove_all_def create_directories_def outcome_simps)
  have gone: "map_of ?s1 q = None" if "prefix d q" for q
    using that by (rule map_of_removed)
  have "directory_entries s' d = []"
    by (rule no_entry_below [OF run])
  with ok n gone [of d] create_along_end [OF run] assms show ?thesis
    using create_along_keeps [OF run, of p] map_of_kept [OF assms(3), of s]
    by (simp add: is_directory_def count_file_entry_def)
qed

definition sample_fs :: fs where
  "sample_fs = [([''r''], Directory), ([''r'', ''d''], Directory), ([''r'', ''d'', ''f''], File 3), ([''r'', ''g''], File 5)]"

theorem make_empty_directory_correct_witness:
  "\<exists>s'. make_empty_directory sample_fs [''r'', ''d''] = Inr ((2, True), s') \<and>
     count_file_entry s' [''r'', ''d''] = 0 \<and> map_of s' [''r'', ''g''] = Some (File 5)"
proof -
  have "make_empty_directory sample_fs [''r'', ''d''] =
      Inr ((2, True), [([''r''], Directory), ([''r'', ''g''], File 5), ([''r'', ''d''], Directory)])"
    by code_simp
  from make_empty_directory_correct [OF this, of "[''r'', ''g'']"] this show ?thesis
    by (auto simp: sample_fs_def)
qed

end
