(* ===== verification/Core_Verify.thy ===== *)
theory Core_Verify
  imports Prelude
begin

text \<open>
  \<^verbatim>\<open>src/core/exception.hpp\<close> and \<^verbatim>\<open>src/core/verify.hpp\<close>: the exception hierarchy as the catch
  clauses see it, the diagnostics attached to a thrown exception, \<open>verify\<close> over its overloads and
  \<open>check_result\<close>.
\<close>

section \<open>The exception hierarchy\<close>

datatype exn_class = Any_class | Exactly exn | Pointer_error_class | Session_error_class

fun caught_by :: "exn_class \<Rightarrow> exn \<Rightarrow> bool" where
  "caught_by Any_class e \<longleftrightarrow> True"
| "caught_by (Exactly d) e \<longleftrightarrow> d = e"
| "caught_by Pointer_error_class e \<longleftrightarrow> e \<in> {Null_pointer_error, Dangling_pointer_error}"
| "caught_by Session_error_class e \<longleftrightarrow>
     e \<in> {Stream_drained_error, Bad_request_error, Bad_response_error, Session_closed_error, Session_map_error}"

datatype errinfo =
    Type_info_name exn | Stacktrace | Api_function string | Message string | Code int

text \<open>A thrown object: the exception and the \<^verbatim>\<open>error_info\<close>s attached to it.\<close>

type_synonym thrown = "exn \<times> errinfo list"

definition throw_directly :: "exn \<Rightarrow> thrown" where
  "throw_directly e = (e, [])"

text \<open>
  The member template throws with the infos when there are any; the following statement throws
  directly and is reached only when there are none.
\<close>

definition throw_with_infos :: "exn \<Rightarrow> errinfo list \<Rightarrow> thrown" where
  "throw_with_infos e infos = (if infos \<noteq> [] then (e, infos) else throw_directly e)"

definition throw_with_stacktrace :: "exn \<Rightarrow> thrown" where
  "throw_with_stacktrace e = (e, [Type_info_name e, Stacktrace])"

definition throw_with_message :: "exn \<Rightarrow> string \<Rightarrow> thrown" where
  "throw_with_message e message =
     (if message = [] then throw_directly e else throw_with_infos e [Message message])"

definition throw_in_function :: "exn \<Rightarrow> string \<Rightarrow> thrown" where
  "throw_in_function e function =
     (if function = [] then throw_directly e
      else throw_with_infos e [Type_info_name e, Api_function function])"

lemma thrown_exception:
  "fst (throw_directly e) = e" "fst (throw_with_infos e is) = e"
  "fst (throw_with_message e m) = e" "fst (throw_in_function e f) = e"
  by (simp_all add: throw_directly_def throw_with_infos_def throw_with_message_def
      throw_in_function_def)

section \<open>verify\<close>

text \<open>What \<open>verify_one\<close> is overloaded on.\<close>

datatype predicate =
    Null_literal
  | Pointer bool \<comment> \<open>whether it is non-null\<close>
  | Signed int
  | Unsigned nat
  | Floating
  | Condition bool

fun verify_one :: "predicate \<Rightarrow> unit outcome" where
  "verify_one Null_literal = Inl (Throw Null_pointer_error)"
| "verify_one (Pointer ptr) = (if \<not> ptr then Inl (Throw Dangling_pointer_error) else Inr ())"
| "verify_one (Signed number) = (if number < 0 then Inl (Throw Out_of_range_error) else Inr ())"
| "verify_one (Unsigned number) = Inr ()"
| "verify_one Floating = Inr ()"
| "verify_one (Condition condition) = (if \<not> condition then Inl (Throw Logic_error) else Inr ())"

text \<open>The comma fold checks the arguments from left to right and stops at the first throw.\<close>

fun verify :: "predicate list \<Rightarrow> unit outcome" where
  "verify [] = Inr ()"
| "verify (p # ps) = and_then (verify_one p) (\<lambda>_. verify ps)"

lemma verify_append: "verify (ps @ qs) = and_then (verify ps) (\<lambda>_. verify qs)"
  by (induction ps) (simp_all add: and_then_assoc)

lemma verify_passes: "verify ps = Inr () \<longleftrightarrow> list_all (\<lambda>p. verify_one p = Inr ()) ps"
  by (induction ps) (auto simp: outcome_simps)

lemma verify_first_failure:
  assumes "list_all (\<lambda>p. verify_one p = Inr ()) ps" and "verify_one p = Inl e"
  shows "verify (ps @ p # qs) = Inl e"
  using assms by (simp add: verify_append verify_passes [symmetric])

section \<open>check_result\<close>

text \<open>
  \<open>operator[]\<close> stores an expectation; \<open>operator<<\<close> compares. With an expectation the code casts
  the \<^emph>\<open>result\<close> (not the stored expectation) to the compared value, so it compares the result with
  itself. Without one, what is asserted depends on the type of the result.
\<close>

datatype 'v result =
    Value 'v | Bool_result bool | Pointer_result bool | Signed_result int

record 'v check_result =
  expect :: "'v result option"

definition check_expect :: "'v check_result \<Rightarrow> 'v result \<Rightarrow> 'v check_result" where
  "check_expect c e = c\<lparr>expect := Some e\<rparr>"

definition check_shift :: "'v check_result \<Rightarrow> 'v result \<Rightarrow> unit outcome" where
  "check_shift c result =
     (if expect c \<noteq> None
      then (let expect_value = result in assert_that (result = expect_value) (Inr ()))
      else (case result of
          Pointer_result p \<Rightarrow> assert_that p (Inr ())
        | Bool_result b \<Rightarrow> assert_that b (Inr ())
        | Signed_result n \<Rightarrow> assert_that (0 \<le> n) (Inr ())
        | Value v \<Rightarrow> Inl (Throw Not_reachable_error)))"

definition check_reset :: "'v check_result \<Rightarrow> bool \<times> 'v check_result" where
  "check_reset c = (if expect c \<noteq> None then (True, c\<lparr>expect := None\<rparr>) else (False, c))"

lemma check_reset_expect: "expect (snd (check_reset c)) = None"
  by (simp add: check_reset_def)

end
