(* ===== verification/Core_Runtime.thy ===== *)
theory Core_Runtime
  imports Core_Verify
begin

text \<open>
  What \<^verbatim>\<open>src/core/core.cpp\<close> makes for the other parts: thread pools and the global executor;
  and the lock conversions and the spin lock of \<^verbatim>\<open>src/core/synchronize.hpp\<close>. The threads of a pool belong
  to the library.
\<close>

section \<open>Executors\<close>

datatype full_behaviour = Throws | Blocks

text \<open>A pool has a queue of a fixed size, with what it does when full, or an unbounded one.\<close>

record pool_executor =
  thread_max :: int
  thread_min :: int
  task_queue :: "(int \<times> full_behaviour) option"
  thread_name :: string

definition make_pool_executor_sized :: "int \<Rightarrow> int \<Rightarrow> bool \<Rightarrow> string \<Rightarrow> pool_executor" where
  "make_pool_executor_sized concurrency queue_size throw_if_full pool_name =
     (let queue = (if throw_if_full then (queue_size, Throws) else (queue_size, Blocks))
      in \<lparr>thread_max = concurrency, thread_min = 1, task_queue = Some queue, thread_name = pool_name\<rparr>)"

text \<open>An executor with a thread for each task has only the name of its threads.\<close>

record threaded_executor =
  threaded_name :: string

definition make_threaded_executor :: "string \<Rightarrow> threaded_executor" where
  "make_threaded_executor name = \<lparr>threaded_name = name\<rparr>"

definition make_pool_executor :: "int \<Rightarrow> string \<Rightarrow> pool_executor" where
  "make_pool_executor concurrency pool_name =
     \<lparr>thread_max = concurrency, thread_min = 1, task_queue = None, thread_name = pool_name\<rparr>"

text \<open>
  Each overload of \<open>set_cpu_executor\<close> has a static executor, made by its first call. \<open>num_threads\<close> is
  what the pool answers for its number of threads.
\<close>

record executors =
  sized_executor :: "pool_executor option"
  plain_executor :: "pool_executor option"
  cpu_executor :: "pool_executor option"

definition set_cpu_executor_sized ::
  "(pool_executor \<Rightarrow> int) \<Rightarrow> int \<Rightarrow> int \<Rightarrow> string \<Rightarrow> executors \<Rightarrow> (pool_executor \<times> executors) outcome" where
  "set_cpu_executor_sized num_threads concurrency queue_size pool_name s =
     (let executor = (case sized_executor s of
                        Some e \<Rightarrow> e
                      | None \<Rightarrow> make_pool_executor_sized concurrency queue_size False pool_name)
      in assert_that (num_threads executor = concurrency)
           (Inr (executor, s\<lparr>sized_executor := Some executor, cpu_executor := Some executor\<rparr>)))"

definition set_cpu_executor ::
  "(pool_executor \<Rightarrow> int) \<Rightarrow> int \<Rightarrow> string \<Rightarrow> executors \<Rightarrow> (pool_executor \<times> executors) outcome" where
  "set_cpu_executor num_threads concurrency pool_name s =
     (let executor = (case plain_executor s of
                        Some e \<Rightarrow> e
                      | None \<Rightarrow> make_pool_executor concurrency pool_name)
      in assert_that (num_threads executor = concurrency)
           (Inr (executor, s\<lparr>plain_executor := Some executor, cpu_executor := Some executor\<rparr>)))"

text \<open>
  A later call keeps the first executor: it answers it whatever the name and size asked for, and fails
  its assertion when another number of threads is asked for.
\<close>

lemma set_cpu_executor_again:
  assumes first: "set_cpu_executor num_threads concurrency pool_name s = Inr (e, s1)"
  shows "set_cpu_executor num_threads c n s1 = (if c = concurrency then Inr (e, s1) else Inl Assert_failed)"
  using first by (auto simp: set_cpu_executor_def Let_def assert_that_eq_Inr)

lemma set_cpu_executor_sized_again:
  assumes first: "set_cpu_executor_sized num_threads concurrency queue_size pool_name s = Inr (e, s1)"
  shows "set_cpu_executor_sized num_threads c q n s1 = (if c = concurrency then Inr (e, s1) else Inl Assert_failed)"
  using first by (auto simp: set_cpu_executor_sized_def Let_def assert_that_eq_Inr)

section \<open>Locks\<close>

record shared_mutex =
  readers :: nat
  writer :: bool

text \<open>
  A lock owns its mutex or not. \<open>lock_upgrade\<close> verifies that it does, gives up the shared ownership and
  takes the exclusive one; between the two the mutex is free for others, and the second may block.
\<close>

definition upgrade_release :: "bool \<Rightarrow> shared_mutex \<Rightarrow> shared_mutex outcome" where
  "upgrade_release owns_lock m =
     and_then (verify [Condition owns_lock]) (\<lambda>_. Inr (m\<lparr>readers := readers m - 1\<rparr>))"

definition lock_exclusive :: "shared_mutex \<Rightarrow> shared_mutex option" where
  "lock_exclusive m = (if readers m = 0 \<and> \<not> writer m then Some (m\<lparr>writer := True\<rparr>) else None)"

definition downgrade_release :: "bool \<Rightarrow> shared_mutex \<Rightarrow> shared_mutex outcome" where
  "downgrade_release owns_lock m =
     and_then (verify [Condition owns_lock]) (\<lambda>_. Inr (m\<lparr>writer := False\<rparr>))"

definition lock_shared :: "shared_mutex \<Rightarrow> shared_mutex option" where
  "lock_shared m = (if \<not> writer m then Some (m\<lparr>readers := readers m + 1\<rparr>) else None)"

text \<open>A sole reader that upgrades and downgrades undisturbed ends where it began.\<close>

lemma upgrade_then_downgrade:
  assumes "readers m = 1" "\<not> writer m"
  shows "\<exists>m1 m2 m3. upgrade_release True m = Inr m1 \<and> lock_exclusive m1 = Some m2 \<and>
    downgrade_release True m2 = Inr m3 \<and> lock_shared m3 = Some m"
  using assms by (cases m) (auto simp: upgrade_release_def lock_exclusive_def downgrade_release_def lock_shared_def)

text \<open>A turn of the spinning loop, and its end.\<close>

definition spin_try :: "bool \<Rightarrow> bool \<times> bool" where
  "spin_try flag = (\<not> flag, True)"

definition spin_unlock :: "bool \<Rightarrow> bool" where
  "spin_unlock flag = False"

lemma spin_exclusive: "fst (spin_try flag) \<Longrightarrow> \<not> fst (spin_try (snd (spin_try flag)))"
  by (simp add: spin_try_def)

end
