(* ===== verification/Barrier.thy ===== *)
theory Barrier
  imports Prelude
begin

text \<open>
  The cyclic barrier of \<^verbatim>\<open>src/core/barrier.hpp\<close> (namespace \<open>v3\<close>). Each thread's actions are atomic
  steps: locking the mutex, counting down, sleeping and waking on the condition variable, and the
  parts of \<open>turn_next_generation\<close>. A thread may drop out at any moment without the mutex.
\<close>

section \<open>State\<close>

text \<open>
  Where a thread stands. \<open>Counted\<close> carries the count before its decrement, \<open>Asleep\<close> and \<open>Woken\<close> the
  generation it waits to end, \<open>Exchanged\<close> the new threshold; \<open>Dropping\<close> has counted itself as dropped
  and not yet decremented the count.
\<close>

datatype thread_at =
    Outside | Locked | Counted int | Asleep nat | Woken nat
  | Turned | Exchanged | Stored | Completed | Unlocked | Dropping | Dropped_out

record barrier =
  count :: int
  dropped :: int
  threshold :: int
  generation :: nat
  mutex :: "nat option"
  completions :: nat
  threads :: "thread_at list"
  arrived :: "nat list"
  passed :: "nat list"

definition make_barrier :: "int \<Rightarrow> nat \<Rightarrow> barrier" where
  "make_barrier limit n = \<lparr>count = limit, dropped = 0, threshold = limit, generation = 0, mutex = None,
     completions = 0, threads = replicate n Outside, arrived = replicate n 0, passed = replicate n 0\<rparr>"

section \<open>Steps\<close>

definition move_thread :: "nat \<Rightarrow> thread_at \<Rightarrow> barrier \<Rightarrow> barrier" where
  "move_thread i c b = b\<lparr>threads := (threads b)[i := c]\<rparr>"

definition leave :: "nat \<Rightarrow> barrier \<Rightarrow> barrier" where
  "leave i b = move_thread i Outside (b\<lparr>passed := (passed b)[i := passed b ! i + 1]\<rparr>)"

text \<open>\<open>count_down_and_lock\<close>: the mutex, then the decrement.\<close>

definition lock_step :: "nat \<Rightarrow> barrier \<Rightarrow> barrier option" where
  "lock_step i b = (if mutex b = None then Some (move_thread i Locked (b\<lparr>mutex := Some i\<rparr>)) else None)"

definition count_down_step :: "nat \<Rightarrow> barrier \<Rightarrow> barrier" where
  "count_down_step i b = move_thread i (Counted (count b))
     (b\<lparr>count := count b - 1, arrived := (arrived b)[i := arrived b ! i + 1]\<rparr>)"

text \<open>
  \<open>wait_next_generation\<close> with the predicate on the generation: the first test fails, so the thread
  sleeps and gives up the mutex; when woken it takes the mutex again and tests once more.
\<close>

definition wait_step :: "nat \<Rightarrow> barrier \<Rightarrow> barrier" where
  "wait_step i b = move_thread i (Asleep (generation b)) (b\<lparr>mutex := None\<rparr>)"

definition retest_step :: "nat \<Rightarrow> nat \<Rightarrow> barrier \<Rightarrow> barrier option" where
  "retest_step i gen b =
     (if mutex b \<noteq> None then None
      else if gen \<noteq> generation b then Some (leave i b)
      else Some (move_thread i (Asleep gen) b))"

text \<open>\<open>turn_next_generation\<close> in its three accesses.\<close>

definition generation_step :: "nat \<Rightarrow> barrier \<Rightarrow> barrier" where
  "generation_step i b = move_thread i Turned (b\<lparr>generation := generation b + 1\<rparr>)"

definition exchange_step :: "nat \<Rightarrow> barrier \<Rightarrow> barrier" where
  "exchange_step i b = move_thread i Exchanged (b\<lparr>threshold := threshold b - dropped b, dropped := 0\<rparr>)"

definition store_count_step :: "nat \<Rightarrow> barrier \<Rightarrow> barrier" where
  "store_count_step i b = move_thread i Stored (b\<lparr>count := threshold b\<rparr>)"

text \<open>The completion is invoked by a barrier made with a callable only.\<close>

definition complete_step :: "bool \<Rightarrow> nat \<Rightarrow> barrier \<Rightarrow> barrier" where
  "complete_step callable i b =
     move_thread i Completed (if callable then b\<lparr>completions := completions b + 1\<rparr> else b)"

text \<open>\<open>unlock_and_notify\<close>: every sleeping thread is woken.\<close>

definition unlock_step :: "nat \<Rightarrow> barrier \<Rightarrow> barrier" where
  "unlock_step i b = move_thread i Unlocked (b\<lparr>mutex := None\<rparr>)"

definition wake :: "thread_at \<Rightarrow> thread_at" where
  "wake c = (case c of Asleep gen \<Rightarrow> Woken gen | _ \<Rightarrow> c)"

definition notify_step :: "nat \<Rightarrow> barrier \<Rightarrow> barrier" where
  "notify_step i b = leave i (b\<lparr>threads := map wake (threads b)\<rparr>)"

text \<open>The next action of thread \<open>i\<close> in \<open>arrive_and_wait\<close>; nothing while it blocks.\<close>

definition arrive_step :: "bool \<Rightarrow> nat \<Rightarrow> barrier \<Rightarrow> barrier option" where
  "arrive_step callable i b =
     (if i < length (threads b)
      then case threads b ! i of
             Outside \<Rightarrow> lock_step i b
           | Locked \<Rightarrow> Some (count_down_step i b)
           | Counted prev \<Rightarrow> Some (if prev > 1 then wait_step i b else generation_step i b)
           | Asleep gen \<Rightarrow> None
           | Woken gen \<Rightarrow> retest_step i gen b
           | Turned \<Rightarrow> Some (exchange_step i b)
           | Exchanged \<Rightarrow> Some (store_count_step i b)
           | Stored \<Rightarrow> Some (complete_step callable i b)
           | Completed \<Rightarrow> Some (unlock_step i b)
           | Unlocked \<Rightarrow> Some (notify_step i b)
           | Dropping \<Rightarrow> None
           | Dropped_out \<Rightarrow> None
      else None)"

text \<open>\<open>arrive_and_drop\<close>: two accesses, without the mutex.\<close>

definition drop_step :: "nat \<Rightarrow> barrier \<Rightarrow> barrier option" where
  "drop_step i b =
     (if i < length (threads b)
      then case threads b ! i of
             Outside \<Rightarrow> Some (move_thread i Dropping (b\<lparr>dropped := dropped b + 1\<rparr>))
           | Dropping \<Rightarrow> Some (move_thread i Dropped_out (b\<lparr>count := count b - 1\<rparr>))
           | _ \<Rightarrow> None
      else None)"

text \<open>A condition variable may wake a thread that nobody notified.\<close>

definition spurious_step :: "nat \<Rightarrow> barrier \<Rightarrow> barrier option" where
  "spurious_step i b =
     (if i < length (threads b)
      then case threads b ! i of Asleep gen \<Rightarrow> Some (move_thread i (Woken gen) b) | _ \<Rightarrow> None
      else None)"

datatype barrier_event = Arrive nat | Drop_out nat | Spurious nat

fun barrier_step :: "bool \<Rightarrow> barrier_event \<Rightarrow> barrier \<Rightarrow> barrier option" where
  "barrier_step callable (Arrive i) b = arrive_step callable i b"
| "barrier_step callable (Drop_out i) b = drop_step i b"
| "barrier_step callable (Spurious i) b = spurious_step i b"

fun barrier_run :: "bool \<Rightarrow> barrier_event list \<Rightarrow> barrier \<Rightarrow> barrier option" where
  "barrier_run callable [] b = Some b"
| "barrier_run callable (e # es) b =
     (case barrier_step callable e b of None \<Rightarrow> None | Some b1 \<Rightarrow> barrier_run callable es b1)"

fun no_drop :: "barrier_event \<Rightarrow> bool" where
  "no_drop (Drop_out i) \<longleftrightarrow> False"
| "no_drop _ \<longleftrightarrow> True"

section \<open>Rounds\<close>

text \<open>Which threads hold the mutex, and which are turning the generation.\<close>

fun holds :: "thread_at \<Rightarrow> bool" where
  "holds Locked \<longleftrightarrow> True"
| "holds (Counted p) \<longleftrightarrow> True"
| "holds Turned \<longleftrightarrow> True"
| "holds Exchanged \<longleftrightarrow> True"
| "holds Stored \<longleftrightarrow> True"
| "holds Completed \<longleftrightarrow> True"
| "holds _ \<longleftrightarrow> False"

definition before_store :: "thread_at \<Rightarrow> bool" where
  "before_store c \<longleftrightarrow> c = Turned \<or> c = Exchanged"

definition before_completion :: "thread_at \<Rightarrow> bool" where
  "before_completion c \<longleftrightarrow> before_store c \<or> c = Stored"

definition before_notify :: "thread_at \<Rightarrow> bool" where
  "before_notify c \<longleftrightarrow> before_completion c \<or> c = Completed \<or> c = Unlocked"

text \<open>How often a thread has arrived and passed, by the generation and where it stands.\<close>

fun rounds :: "nat \<Rightarrow> thread_at \<Rightarrow> nat \<Rightarrow> nat \<Rightarrow> bool" where
  "rounds g Outside a p \<longleftrightarrow> a = g \<and> p = g"
| "rounds g Locked a p \<longleftrightarrow> a = g \<and> p = g"
| "rounds g (Counted k) a p \<longleftrightarrow> a = g + 1 \<and> p = g"
| "rounds g (Asleep h) a p \<longleftrightarrow> (a = g + 1 \<and> h = g \<or> a = g \<and> h + 1 = g) \<and> p + 1 = a"
| "rounds g (Woken h) a p \<longleftrightarrow> (a = g + 1 \<and> h = g \<or> a = g \<and> h + 1 = g) \<and> p + 1 = a"
| "rounds g Dropping a p \<longleftrightarrow> False"
| "rounds g Dropped_out a p \<longleftrightarrow> False"
| "rounds g _ a p \<longleftrightarrow> a = g \<and> p + 1 = g"

text \<open>The thread that holds the mutex.\<close>

definition holder :: "barrier \<Rightarrow> thread_at" where
  "holder b = (case mutex b of None \<Rightarrow> Outside | Some i \<Rightarrow> threads b ! i)"

definition arrivals :: "barrier \<Rightarrow> nat" where
  "arrivals b = length (filter (\<lambda>a. a = generation b + 1) (arrived b))"

definition threads_inv :: "nat \<Rightarrow> barrier \<Rightarrow> bool" where
  "threads_inv n b \<longleftrightarrow>
     length (threads b) = n \<and> length (arrived b) = n \<and> length (passed b) = n \<and>
     (\<forall>i<n. rounds (generation b) (threads b ! i) (arrived b ! i) (passed b ! i)) \<and>
     (\<forall>i<n. holds (threads b ! i) \<longleftrightarrow> mutex b = Some i) \<and>
     (\<forall>i. mutex b = Some i \<longrightarrow> i < n)"

definition count_inv :: "bool \<Rightarrow> nat \<Rightarrow> barrier \<Rightarrow> bool" where
  "count_inv callable n b \<longleftrightarrow>
     dropped b = 0 \<and> threshold b = int n \<and>
     count b = (if before_store (holder b) then 0 else int n - int (arrivals b)) \<and>
     (before_store (holder b) \<longrightarrow> arrivals b = 0) \<and>
     (\<forall>k. holder b = Counted k \<longrightarrow> count b = k - 1) \<and>
     (before_store (holder b) \<or> (\<exists>k. holder b = Counted k) \<or> 1 \<le> count b) \<and>
     completions b = (if callable then generation b - (if before_completion (holder b) then 1 else 0) else 0) \<and>
     (before_completion (holder b) \<longrightarrow> 0 < generation b)"

definition notify_inv :: "nat \<Rightarrow> barrier \<Rightarrow> bool" where
  "notify_inv n b \<longleftrightarrow>
     (\<forall>i<n. \<forall>h. threads b ! i = Asleep h \<and> h \<noteq> generation b \<longrightarrow> (\<exists>j<n. before_notify (threads b ! j)))"

text \<open>While one thread turns the generation the others rest, waiting for the one that has ended.\<close>

definition resting_inv :: "nat \<Rightarrow> barrier \<Rightarrow> bool" where
  "resting_inv n b \<longleftrightarrow>
     (before_completion (holder b) \<longrightarrow>
       (\<forall>i<n. mutex b = Some i \<or>
          (\<exists>h. h + 1 = generation b \<and> (threads b ! i = Asleep h \<or> threads b ! i = Woken h))))"

definition barrier_inv :: "bool \<Rightarrow> nat \<Rightarrow> barrier \<Rightarrow> bool" where
  "barrier_inv callable n b \<longleftrightarrow>
     threads_inv n b \<and> count_inv callable n b \<and> notify_inv n b \<and> resting_inv n b"

lemmas before_defs = before_store_def before_completion_def before_notify_def

lemmas barrier_inv_defs = barrier_inv_def threads_inv_def count_inv_def notify_inv_def resting_inv_def

lemma barrier_start: "0 < n \<Longrightarrow> barrier_inv callable n (make_barrier (int n) n)"
  by (auto simp: barrier_inv_defs make_barrier_def holder_def arrivals_def before_defs)

lemma threads_moved:
  assumes inv: "threads_inv n b" and i: "i < n"
    and r: "rounds (generation b) c (arrived b ! i) (passed b ! i)"
    and m: "holds c \<longleftrightarrow> m = Some i" "\<And>j. j \<noteq> i \<Longrightarrow> m = Some j \<longleftrightarrow> mutex b = Some j"
  shows "threads_inv n (move_thread i c (b\<lparr>mutex := m\<rparr>))"
  using inv i r m by (auto simp: threads_inv_def move_thread_def nth_list_update)

lemma notify_moved:
  assumes inv: "notify_inv n b" and i: "i < n" and l: "length (threads b) = n"
    and b1: "threads b1 = (threads b)[i := c]" "generation b1 = generation b"
    and c: "before_notify (threads b ! i) \<Longrightarrow> before_notify c"
    and a: "\<And>h. c = Asleep h \<Longrightarrow> h = generation b"
  shows "notify_inv n b1"
  unfolding notify_inv_def
proof (intro allI impI)
  fix k h assume k: "k < n" and s: "threads b1 ! k = Asleep h \<and> h \<noteq> generation b1"
  with a b1 i l have "k \<noteq> i" by (cases "k = i") auto
  with s k b1 inv obtain j where j: "j < n" "before_notify (threads b ! j)" by (auto simp: notify_inv_def)
  with c b1 l i show "\<exists>j<n. before_notify (threads b1 ! j)"
    by (intro exI [of _ j]) (auto simp: nth_list_update)
qed

lemma holder_is:
  assumes "threads_inv n b" "i < n" "holds (threads b ! i)"
  shows "mutex b = Some i" "holder b = threads b ! i"
  using assms by (auto simp: threads_inv_def holder_def)

lemma free_mutex: "mutex b = None \<Longrightarrow> holder b = Outside"
  by (simp add: holder_def)

lemma lock_keeps:
  assumes inv: "barrier_inv callable n b" and i: "i < n" and c: "threads b ! i = Outside"
    and st: "lock_step i b = Some b1"
  shows "barrier_inv callable n b1"
proof -
  from st have m: "mutex b = None" and b1: "b1 = move_thread i Locked (b\<lparr>mutex := Some i\<rparr>)"
    by (auto simp: lock_step_def split: if_splits)
  have t: "threads_inv n b" and l: "length (threads b) = n" using inv by (auto simp: barrier_inv_def threads_inv_def)
  have r: "rounds (generation b) Outside (arrived b ! i) (passed b ! i)"
    using t i c by (auto simp: threads_inv_def)
  have "threads_inv n b1" unfolding b1
    by (rule threads_moved [OF t i]) (use r m in auto)
  moreover have "notify_inv n b1" unfolding b1
    by (rule notify_moved [OF _ i l]) (use inv c in \<open>auto simp: barrier_inv_def before_defs move_thread_def\<close>)
  moreover have "count_inv callable n b1"
    using inv i l free_mutex [OF m]
    by (auto simp: barrier_inv_def count_inv_def b1 move_thread_def holder_def arrivals_def before_defs)
  moreover have "resting_inv n b1"
    using i l by (auto simp: resting_inv_def b1 move_thread_def holder_def before_defs)
  ultimately show ?thesis by (simp add: barrier_inv_def)
qed

lemma count_down_keeps:
  assumes inv: "barrier_inv callable n b" and i: "i < n" and c: "threads b ! i = Locked"
  shows "barrier_inv callable n (count_down_step i b)"
proof -
  have t: "threads_inv n b" and l: "length (threads b) = n" "length (arrived b) = n"
    using inv by (auto simp: barrier_inv_def threads_inv_def)
  note h = holder_is [OF t i] 
  have a: "arrived b ! i = generation b" "passed b ! i = generation b"
    using t i c by (auto simp: threads_inv_def)
  have ar: "length (filter (\<lambda>a. a = generation b + 1) ((arrived b)[i := arrived b ! i + 1])) = Suc (arrivals b)"
    unfolding arrivals_def by (rule filter_update_length) (use a i l in auto)
  have "threads_inv n (count_down_step i b)"
    using t i l a c by (auto simp: threads_inv_def count_down_step_def move_thread_def nth_list_update)
  moreover have "notify_inv n (count_down_step i b)"
    by (rule notify_moved [OF _ i l(1)])
      (use inv c in \<open>auto simp: barrier_inv_def before_defs count_down_step_def move_thread_def\<close>)
  moreover have "count_inv callable n (count_down_step i b)"
    using inv i l h c ar a
    by (auto simp: barrier_inv_def count_inv_def count_down_step_def move_thread_def holder_def arrivals_def before_defs)
  moreover have "resting_inv n (count_down_step i b)"
    using i l h c by (auto simp: resting_inv_def count_down_step_def move_thread_def holder_def before_defs)
  ultimately show ?thesis by (simp add: barrier_inv_def)
qed

lemma wait_keeps:
  assumes inv: "barrier_inv callable n b" and i: "i < n" and c: "threads b ! i = Counted prev" and p: "1 < prev"
  shows "barrier_inv callable n (wait_step i b)"
proof -
  have t: "threads_inv n b" and l: "length (threads b) = n" using inv by (auto simp: barrier_inv_def threads_inv_def)
  note h = holder_is [OF t i]
  have r: "rounds (generation b) (Counted prev) (arrived b ! i) (passed b ! i)"
    using t i c by (metis threads_inv_def)
  have "threads_inv n (wait_step i b)" unfolding wait_step_def
    by (rule threads_moved [OF t i]) (use r h c in auto)
  moreover have "notify_inv n (wait_step i b)" unfolding wait_step_def
    by (rule notify_moved [OF _ i l]) (use inv c in \<open>auto simp: barrier_inv_def before_defs move_thread_def\<close>)
  moreover have "count_inv callable n (wait_step i b)"
    using inv i l h c p
    by (auto simp: barrier_inv_def count_inv_def wait_step_def move_thread_def holder_def arrivals_def before_defs)
  moreover have "resting_inv n (wait_step i b)"
    using i l h c by (auto simp: resting_inv_def wait_step_def move_thread_def holder_def before_defs)
  ultimately show ?thesis by (simp add: barrier_inv_def)
qed

lemma generation_keeps:
  assumes inv: "barrier_inv callable n b" and i: "i < n" and c: "threads b ! i = Counted prev" and p: "\<not> 1 < prev"
  shows "barrier_inv callable n (generation_step i b)"
proof -
  have t: "threads_inv n b" and l: "length (threads b) = n" "length (arrived b) = n" "length (passed b) = n"
    using inv by (auto simp: barrier_inv_def threads_inv_def)
  note h = holder_is [OF t i]
  have "int n \<le> int (arrivals b)" using inv h c p by (auto simp: barrier_inv_def count_inv_def before_defs)
  then have full: "length (filter (\<lambda>a. a = generation b + 1) (arrived b)) = length (arrived b)"
    using length_filter_le [of "\<lambda>a. a = generation b + 1" "arrived b"] l by (simp add: arrivals_def)
  have all: "arrived b ! j = generation b + 1" if "j < n" for j
    using filter_full [of "\<lambda>a. a = generation b + 1" "arrived b" j] full l that by simp
  have none: "length (filter (\<lambda>a. a = Suc (generation b + 1)) (arrived b)) = 0"
    using all l by (auto simp: filter_empty_conv in_set_conv_nth)
  have rnd: "rounds (generation b + 1) (threads b ! j) (arrived b ! j) (passed b ! j)" if "j < n" "j \<noteq> i" for j
  proof -
    have "rounds (generation b) (threads b ! j) (arrived b ! j) (passed b ! j)" "\<not> holds (threads b ! j)"
      using t that h c by (auto simp: threads_inv_def)
    with all [OF that(1)] show ?thesis by (cases "threads b ! j") auto
  qed
  have me: "arrived b ! i = generation b + 1 \<and> passed b ! i = generation b"
    using t i c by (auto simp: threads_inv_def)
  have "threads_inv n (generation_step i b)"
    using t i l rnd me h c
    by (auto simp: threads_inv_def generation_step_def move_thread_def nth_list_update)
  moreover have "notify_inv n (generation_step i b)"
    using i l by (auto simp: notify_inv_def generation_step_def move_thread_def nth_list_update before_defs)
  moreover have "count_inv callable n (generation_step i b)"
    using inv i l h c p none full
    by (auto simp: barrier_inv_def count_inv_def generation_step_def move_thread_def holder_def arrivals_def before_defs)
  moreover have "resting_inv n (generation_step i b)"
    unfolding resting_inv_def
  proof (intro allI impI)
    fix j assume j: "j < n"
    show "mutex (generation_step i b) = Some j \<or> (\<exists>h. h + 1 = generation (generation_step i b) \<and>
        (threads (generation_step i b) ! j = Asleep h \<or> threads (generation_step i b) ! j = Woken h))"
    proof (cases "j = i")
      case True
      then show ?thesis using h c by (simp add: generation_step_def move_thread_def)
    next
      case False
      have "rounds (generation b) (threads b ! j) (arrived b ! j) (passed b ! j)" "\<not> holds (threads b ! j)"
        using t j False h c by (auto simp: threads_inv_def)
      then show ?thesis using all [OF j] False
        by (cases "threads b ! j") (auto simp: generation_step_def move_thread_def)
    qed
  qed
  ultimately show ?thesis by (simp add: barrier_inv_def)
qed

text \<open>The holder of the mutex goes on inside its turn of the generation.\<close>

lemma turn_keeps:
  assumes inv: "barrier_inv callable n b" and i: "i < n" and h: "holds (threads b ! i)" and hc: "holds c"
    and b1: "threads b1 = (threads b)[i := c]" "generation b1 = generation b" "mutex b1 = mutex b"
      "arrived b1 = arrived b" "passed b1 = passed b"
    and r: "rounds (generation b) c (arrived b ! i) (passed b ! i)"
    and c: "before_notify (threads b ! i) \<Longrightarrow> before_notify c"
    and r': "before_completion c \<Longrightarrow> before_completion (threads b ! i)"
    and k: "count_inv callable n b1"
  shows "barrier_inv callable n b1"
proof -
  have t: "threads_inv n b" and l: "length (threads b) = n" using inv by (auto simp: barrier_inv_def threads_inv_def)
  have "threads_inv n b1"
    using t i r h hc holder_is [OF t i h] by (auto simp: threads_inv_def b1 nth_list_update)
  moreover have "notify_inv n b1"
    by (rule notify_moved [OF _ i l b1(1,2)]) (use inv c hc in \<open>auto simp: barrier_inv_def\<close>)
  moreover have "resting_inv n b1"
    using inv r' i l holder_is [OF t i h] by (auto simp: barrier_inv_def resting_inv_def holder_def b1 nth_list_update)
  ultimately show ?thesis using k by (simp add: barrier_inv_def)
qed

lemma turn_steps_keep:
  assumes inv: "barrier_inv callable n b" and i: "i < n"
  shows "threads b ! i = Turned \<Longrightarrow> barrier_inv callable n (exchange_step i b)"
    and "threads b ! i = Exchanged \<Longrightarrow> barrier_inv callable n (store_count_step i b)"
    and "threads b ! i = Stored \<Longrightarrow> barrier_inv callable n (complete_step callable i b)"
proof -
  have t: "threads_inv n b" and l: "length (threads b) = n" using inv by (auto simp: barrier_inv_def threads_inv_def)
  have r: "rounds (generation b) (threads b ! i) (arrived b ! i) (passed b ! i)" using t i by (simp add: threads_inv_def)
  have k: "count_inv callable n b" and n: "0 < n" using inv i by (auto simp: barrier_inv_def)
  note h = holder_is [OF t i]
  show "barrier_inv callable n (exchange_step i b)" if c: "threads b ! i = Turned"
    by (rule turn_keeps [OF inv i, of Exchanged])
      (use h c r k l i in \<open>auto simp: exchange_step_def move_thread_def before_defs count_inv_def holder_def arrivals_def\<close>)
  show "barrier_inv callable n (store_count_step i b)" if c: "threads b ! i = Exchanged"
    by (rule turn_keeps [OF inv i, of Stored])
      (use h c r k l i n in \<open>auto simp: store_count_step_def move_thread_def before_defs count_inv_def holder_def arrivals_def\<close>)
  show "barrier_inv callable n (complete_step callable i b)" if c: "threads b ! i = Stored"
    by (rule turn_keeps [OF inv i, of Completed])
      (use h c r k l i in \<open>auto simp: complete_step_def move_thread_def before_defs count_inv_def holder_def arrivals_def\<close>)
qed

lemma unlock_keeps:
  assumes inv: "barrier_inv callable n b" and i: "i < n" and c: "threads b ! i = Completed"
  shows "barrier_inv callable n (unlock_step i b)"
proof -
  have t: "threads_inv n b" and l: "length (threads b) = n" using inv by (auto simp: barrier_inv_def threads_inv_def)
  note h = holder_is [OF t i]
  have r: "rounds (generation b) Completed (arrived b ! i) (passed b ! i)" using t i c by (metis threads_inv_def)
  have "threads_inv n (unlock_step i b)" unfolding unlock_step_def
    by (rule threads_moved [OF t i]) (use r h c in auto)
  moreover have "notify_inv n (unlock_step i b)" unfolding unlock_step_def
    by (rule notify_moved [OF _ i l]) (use inv c in \<open>auto simp: barrier_inv_def before_defs move_thread_def\<close>)
  moreover have "count_inv callable n (unlock_step i b)"
    using inv i l h c
    by (auto simp: barrier_inv_def count_inv_def unlock_step_def move_thread_def holder_def arrivals_def before_defs)
  moreover have "resting_inv n (unlock_step i b)"
    using i l h c by (auto simp: resting_inv_def unlock_step_def move_thread_def holder_def before_defs)
  ultimately show ?thesis by (simp add: barrier_inv_def)
qed

text \<open>A thread that does not hold the mutex moves, or wakes the others; the count does not see it.\<close>

lemma outside_keeps:
  assumes inv: "barrier_inv callable n b" and i: "i < n" and h: "\<not> holds (threads b ! i)" "\<not> holds c"
    and b1: "b1 = b\<lparr>threads := ts, passed := ps\<rparr>"
    and ts: "length ts = n" "ts ! i = c" "\<And>j. j < n \<Longrightarrow> j \<noteq> i \<Longrightarrow> ts ! j = threads b ! j \<or> ts ! j = wake (threads b ! j)"
    and ps: "length ps = n" "\<And>j. j < n \<Longrightarrow> j \<noteq> i \<Longrightarrow> ps ! j = passed b ! j"
    and r: "rounds (generation b) c (arrived b ! i) (ps ! i)"
    and nt: "notify_inv n b1"
    and c: "\<And>h. mutex b \<noteq> None \<Longrightarrow> before_completion (holder b) \<Longrightarrow> h + 1 = generation b \<Longrightarrow>
      threads b ! i = Asleep h \<or> threads b ! i = Woken h \<Longrightarrow> c = Asleep h \<or> c = Woken h"
  shows "barrier_inv callable n b1"
proof -
  have t: "threads_inv n b" and k: "count_inv callable n b" using inv by (auto simp: barrier_inv_def)
  have w: "holds (wake d) = holds d" "rounds g d a p \<Longrightarrow> rounds g (wake d) a p" for d g a p
    by (cases d; simp add: wake_def)+
  have "rounds (generation b) (ts ! j) (arrived b ! j) (ps ! j) \<and> (holds (ts ! j) \<longleftrightarrow> mutex b = Some j)" if "j < n" for j
  proof (cases "j = i")
    case True
    then show ?thesis using r ts(2) h t i by (auto simp: threads_inv_def)
  next
    case False
    then show ?thesis using t that ts(3) [OF that False] ps(2) [OF that False] w by (auto simp: threads_inv_def)
  qed
  then have "threads_inv n b1" using t ts ps by (auto simp: threads_inv_def b1)
  moreover have hb: "holder b1 = holder b"
  proof (cases "mutex b")
    case (Some j)
    then have "j < n" "holds (threads b ! j)" using t by (auto simp: threads_inv_def)
    moreover from this h have "j \<noteq> i" by auto
    ultimately have "ts ! j = threads b ! j" using ts(3) [of j]
      by (cases "threads b ! j") (auto simp: wake_def)
    with Some show ?thesis by (simp add: holder_def b1)
  qed (simp add: holder_def b1)
  have f: "count b1 = count b" "dropped b1 = dropped b" "threshold b1 = threshold b" "arrivals b1 = arrivals b"
    "completions b1 = completions b" "generation b1 = generation b" by (simp_all add: b1 arrivals_def)
  have "count_inv callable n b1" using k unfolding count_inv_def hb f .
  moreover have "resting_inv n b1"
    unfolding resting_inv_def
  proof (intro allI impI)
    fix j assume bc: "before_completion (holder b1)" and j: "j < n"
    have rest: "mutex b = Some k \<or> (\<exists>h. h + 1 = generation b \<and> (threads b ! k = Asleep h \<or> threads b ! k = Woken h))"
      if "k < n" for k using that bc hb inv by (auto simp: barrier_inv_def resting_inv_def)
    show "mutex b1 = Some j \<or> (\<exists>h. h + 1 = generation b1 \<and> (threads b1 ! j = Asleep h \<or> threads b1 ! j = Woken h))"
    proof (cases "j = i")
      case True
      have "mutex b \<noteq> Some i" using t i h(1) by (auto simp: threads_inv_def)
      with rest [OF i] obtain h where "h + 1 = generation b" "threads b ! i = Asleep h \<or> threads b ! i = Woken h"
        by blast
      moreover from bc hb have "mutex b \<noteq> None" "before_completion (holder b)"
        by (auto simp: holder_def before_defs split: option.splits)
      ultimately have "h + 1 = generation b \<and> (c = Asleep h \<or> c = Woken h)" using c by blast
      with True ts(2) show ?thesis by (auto simp: b1)
    next
      case False
      with rest [OF j] ts(3) [OF j False] show ?thesis by (auto simp: b1 wake_def)
    qed
  qed
  ultimately show ?thesis using nt by (simp add: barrier_inv_def)
qed

lemma retest_keeps:
  assumes inv: "barrier_inv callable n b" and i: "i < n" and c: "threads b ! i = Woken gen"
    and st: "retest_step i gen b = Some b1"
  shows "barrier_inv callable n b1"
proof -
  have t: "threads_inv n b" and nt: "notify_inv n b"
    and l: "length (threads b) = n" "length (passed b) = n" using inv by (auto simp: barrier_inv_def threads_inv_def)
  have r: "rounds (generation b) (Woken gen) (arrived b ! i) (passed b ! i)" using t i c by (metis threads_inv_def)
  show ?thesis
  proof (cases "gen = generation b")
    case True
    then have b1: "b1 = b\<lparr>threads := (threads b)[i := Asleep gen], passed := passed b\<rparr>"
      using st by (auto simp: retest_step_def move_thread_def split: if_splits)
    have m: "mutex b = None" using st by (auto simp: retest_step_def split: if_splits)
    have "notify_inv n b1"
      by (rule notify_moved [OF nt i l(1), where c = "Asleep gen"]) (use b1 c True in \<open>auto simp: before_defs\<close>)
    then show ?thesis
      by (intro outside_keeps [OF inv i _ _ b1, of "Asleep gen"]) (use c r l i m in auto)
  next
    case False
    then have b1: "b1 = b\<lparr>threads := (threads b)[i := Outside], passed := (passed b)[i := passed b ! i + 1]\<rparr>"
      using st by (auto simp: retest_step_def move_thread_def leave_def split: if_splits)
    have m: "mutex b = None" using st by (auto simp: retest_step_def split: if_splits)
    have "notify_inv n b1"
      by (rule notify_moved [OF nt i l(1), where c = Outside]) (use b1 c in \<open>auto simp: before_defs\<close>)
    then show ?thesis
      by (intro outside_keeps [OF inv i _ _ b1, of Outside]) (use c r l i m False in auto)
  qed
qed

lemma spurious_keeps:
  assumes inv: "barrier_inv callable n b" and i: "i < n" and c: "threads b ! i = Asleep gen"
  shows "barrier_inv callable n (move_thread i (Woken gen) b)"
proof -
  have t: "threads_inv n b" and nt: "notify_inv n b"
    and l: "length (threads b) = n" "length (passed b) = n" using inv by (auto simp: barrier_inv_def threads_inv_def)
  have r: "rounds (generation b) (Asleep gen) (arrived b ! i) (passed b ! i)" using t i c by (metis threads_inv_def)
  let ?b = "b\<lparr>threads := (threads b)[i := Woken gen], passed := passed b\<rparr>"
  have "notify_inv n ?b"
    by (rule notify_moved [OF nt i l(1), where c = "Woken gen"]) (use c in \<open>auto simp: before_defs\<close>)
  then have "barrier_inv callable n ?b"
    by (intro outside_keeps [OF inv i _ _ refl, of "Woken gen"]) (use c r l i in auto)
  then show ?thesis by (simp add: move_thread_def)
qed

lemma notify_keeps:
  assumes inv: "barrier_inv callable n b" and i: "i < n" and c: "threads b ! i = Unlocked"
  shows "barrier_inv callable n (notify_step i b)"
proof -
  have t: "threads_inv n b" and l: "length (threads b) = n" "length (passed b) = n"
    using inv by (auto simp: barrier_inv_def threads_inv_def)
  have r: "rounds (generation b) Unlocked (arrived b ! i) (passed b ! i)" using t i c by (metis threads_inv_def)
  let ?b = "b\<lparr>threads := (map wake (threads b))[i := Outside], passed := (passed b)[i := passed b ! i + 1]\<rparr>"
  have "wake d \<noteq> Asleep h" for d h by (cases d) (auto simp: wake_def)
  then have "notify_inv n ?b" using l i by (auto simp: notify_inv_def nth_list_update)
  then have "barrier_inv callable n ?b"
    by (intro outside_keeps [OF inv i _ _ refl, of Outside]) (use c r l i in auto)
  then show ?thesis by (cases b) (simp add: notify_step_def leave_def move_thread_def)
qed

lemma barrier_step_inv:
  assumes inv: "barrier_inv callable n b" and e: "no_drop e" and st: "barrier_step callable e b = Some b1"
  shows "barrier_inv callable n b1"
proof -
  have l: "length (threads b) = n" using inv by (simp add: barrier_inv_def threads_inv_def)
  show ?thesis
  proof (cases e)
    case (Arrive i)
    with st l have i: "i < n" by (auto simp: arrive_step_def split: if_splits)
    from st Arrive i l have a: "arrive_step callable i b = Some b1" by simp
    show ?thesis
      using a i l lock_keeps [OF inv i] count_down_keeps [OF inv i] wait_keeps [OF inv i] generation_keeps [OF inv i]
        turn_steps_keep [OF inv i] unlock_keeps [OF inv i] retest_keeps [OF inv i] notify_keeps [OF inv i]
      by (cases "threads b ! i") (auto simp: arrive_step_def split: if_splits)
  next
    case (Spurious i)
    with st l have i: "i < n" by (auto simp: spurious_step_def split: if_splits)
    with st Spurious l spurious_keeps [OF inv i] show ?thesis
      by (auto simp: spurious_step_def split: thread_at.splits)
  qed (use e in simp)
qed

lemma barrier_run_inv:
  "barrier_inv callable n b \<Longrightarrow> list_all no_drop es \<Longrightarrow> barrier_run callable es b = Some b1 \<Longrightarrow>
   barrier_inv callable n b1"
proof (induction es arbitrary: b)
  case (Cons e es)
  then obtain b' where "barrier_step callable e b = Some b'" "barrier_run callable es b' = Some b1"
    by (auto split: option.splits)
  with Cons barrier_step_inv [of callable n b e b'] show ?case by simp
qed simp



text \<open>
  A barrier whose threads do not drop out is never stuck: while there are threads, one of
  them can take its next action without a spurious wake-up.
\<close>

theorem barrier_never_stuck:
  assumes run: "barrier_run callable es (make_barrier (int n) n) = Some b" and es: "list_all no_drop es"
    and n: "0 < n"
  shows "\<exists>i. \<exists>b1. arrive_step callable i b = Some b1"
proof -
  have inv: "barrier_inv callable n b" by (rule barrier_run_inv [OF barrier_start [OF n] es run])
  then have t: "threads_inv n b" and l: "length (threads b) = n" "length (arrived b) = n"
    by (auto simp: barrier_inv_def threads_inv_def)
  have r: "rounds (generation b) (threads b ! i) (arrived b ! i) (passed b ! i)" if "i < n" for i
    using t that by (simp add: threads_inv_def)
  show ?thesis
  proof (cases "mutex b")
    case (Some i)
    then have "i < n" "holds (threads b ! i)" using t by (auto simp: threads_inv_def)
    then have "arrive_step callable i b \<noteq> None"
      using l by (cases "threads b ! i") (auto simp: arrive_step_def)
    then show ?thesis by auto
  next
    case None
    have "\<exists>i<n. \<forall>h. threads b ! i \<noteq> Asleep h"
    proof (rule ccontr)
      assume "\<not> ?thesis"
      then have asleep: "\<exists>h. threads b ! i = Asleep h" if "i < n" for i using that by blast
      then have "\<not> before_notify (threads b ! j)" if "j < n" for j using that by (fastforce simp: before_defs)
      with inv asleep have "threads b ! i = Asleep (generation b)" if "i < n" for i
        using that by (metis barrier_inv_def notify_inv_def)
      with r have a: "arrived b ! i = generation b + 1" if "i < n" for i using that by fastforce
      then have "filter (\<lambda>a. a = generation b + 1) (arrived b) = arrived b"
        using l by (auto simp: filter_id_conv in_set_conv_nth)
      then have "arrivals b = n" using l by (simp add: arrivals_def)
      then show False using inv free_mutex [OF None] by (auto simp: barrier_inv_def count_inv_def before_defs)
    qed
    then obtain i where i: "i < n" "\<forall>h. threads b ! i \<noteq> Asleep h" by blast
    moreover have "\<not> holds (threads b ! i)" using t i None by (auto simp: threads_inv_def)
    ultimately have "arrive_step callable i b \<noteq> None"
      using l r [OF i(1)] None by (cases "threads b ! i") (auto simp: arrive_step_def lock_step_def retest_step_def)
    then show ?thesis by auto
  qed
qed

lemma barrier_never_stuck_witness:
  "\<exists>i. \<exists>b1::barrier. arrive_step True i (make_barrier 2 2) = Some b1"
  using barrier_never_stuck [of True "[]" 2 "make_barrier (int 2) 2"] by simp

section \<open>Dropping out last\<close>

definition left_behind :: "barrier \<Rightarrow> bool" where
  "left_behind b \<longleftrightarrow> (threads b = [Asleep 0, Dropped_out] \<or> threads b = [Woken 0, Dropped_out]) \<and>
     generation b = 0 \<and> mutex b = None \<and> passed b = [0, 0]"

lemma left_behind_step: "left_behind b \<Longrightarrow> barrier_step callable e b = Some b1 \<Longrightarrow> left_behind b1"
  by (cases e)
    (auto simp: left_behind_def arrive_step_def retest_step_def move_thread_def drop_step_def spurious_step_def
      less_Suc_eq split: if_splits)

lemma left_behind_run: "left_behind b \<Longrightarrow> barrier_run callable es b = Some b1 \<Longrightarrow> left_behind b1"
  by (induction es arbitrary: b) (auto split: option.splits dest: left_behind_step)

text \<open>
  A thread that drops out last turns no generation: with two threads, when one waits and the
  other one drops out, the waiting thread never passes the barrier.
\<close>

theorem barrier_drop_last_hangs:
  assumes b: "barrier_run callable [Arrive 0, Arrive 0, Arrive 0, Drop_out 1, Drop_out 1] (make_barrier 2 2) = Some b"
    and run: "barrier_run callable es b = Some b1"
  shows "passed b1 ! 0 = 0"
proof -
  have "left_behind b" using b
    by (auto simp: make_barrier_def numeral_2_eq_2 arrive_step_def lock_step_def move_thread_def count_down_step_def
        wait_step_def drop_step_def left_behind_def)
  from left_behind_run [OF this run] show ?thesis by (simp add: left_behind_def)
qed

lemma barrier_drop_last_hangs_witness:
  "\<exists>b. \<exists>b1::barrier. barrier_run True [Arrive 0, Arrive 0, Arrive 0, Drop_out 1, Drop_out 1] (make_barrier 2 2) = Some b \<and>
     barrier_run True [Spurious 0, Arrive 0] b = Some b1 \<and> passed b1 ! 0 = 0"
proof -
  have "\<exists>b b1. barrier_run True [Arrive 0, Arrive 0, Arrive 0, Drop_out 1, Drop_out 1] (make_barrier 2 2) = Some b \<and>
      barrier_run True [Spurious 0, Arrive 0] b = Some b1"
    by (simp add: make_barrier_def numeral_2_eq_2 arrive_step_def lock_step_def move_thread_def count_down_step_def
        wait_step_def drop_step_def spurious_step_def retest_step_def)
  then obtain b b1 where b: "barrier_run True [Arrive 0, Arrive 0, Arrive 0, Drop_out 1, Drop_out 1] (make_barrier 2 2) = Some b"
    and b1: "barrier_run True [Spurious 0, Arrive 0] b = Some b1" by blast
  from barrier_drop_last_hangs [OF b b1] b b1 show ?thesis by blast
qed

end
