(* ===== verification/Latch.thy ===== *)
theory Latch
  imports Prelude
begin

text \<open>
  The latch of \<^verbatim>\<open>src/core/latch.hpp\<close>: a count and a promise fulfilled by the thread whose
  \<open>count_down_and_wait\<close> finds the count at one.
\<close>

section \<open>State and steps\<close>

text \<open>Where a thread stands: before its call, with the count it decremented, or past the latch.\<close>

datatype latch_thread = Before_latch | Latch_counted int | Latch_passed

record latch =
  latch_count :: int
  completed :: bool
  latch_threads :: "latch_thread list"

definition make_latch :: "int \<Rightarrow> nat \<Rightarrow> latch" where
  "make_latch n k = \<lparr>latch_count = n, completed = False, latch_threads = replicate k Before_latch\<rparr>"

definition latch_move :: "nat \<Rightarrow> latch_thread \<Rightarrow> latch \<Rightarrow> latch" where
  "latch_move i c l = l\<lparr>latch_threads := (latch_threads l)[i := c]\<rparr>"

text \<open>Fulfilling the promise a second time throws.\<close>

definition set_completion :: "latch \<Rightarrow> latch outcome" where
  "set_completion l = (if completed l then Inl (Throw Logic_error) else Inr (l\<lparr>completed := True\<rparr>))"

text \<open>
  \<open>count_down_and_wait\<close> of thread \<open>i\<close>: the decrement, then the wait for the promise or its fulfilment.
\<close>

definition count_down_and_wait_step :: "nat \<Rightarrow> latch \<Rightarrow> latch outcome option" where
  "count_down_and_wait_step i l =
     (if i < length (latch_threads l)
      then case latch_threads l ! i of
             Before_latch \<Rightarrow>
               Some (Inr (latch_move i (Latch_counted (latch_count l)) (l\<lparr>latch_count := latch_count l - 1\<rparr>)))
           | Latch_counted prev \<Rightarrow>
               if prev > 1
               then (if completed l then Some (Inr (latch_move i Latch_passed l)) else None)
               else Some (and_then (set_completion l) (\<lambda>l1. Inr (latch_move i Latch_passed l1)))
           | Latch_passed \<Rightarrow> None
      else None)"

definition count_down :: "int \<Rightarrow> latch \<Rightarrow> latch" where
  "count_down n l = l\<lparr>latch_count := latch_count l - n\<rparr>"

definition is_ready :: "latch \<Rightarrow> bool" where
  "is_ready l \<longleftrightarrow> \<not> latch_count l > 0"

definition latch_wait :: "latch \<Rightarrow> unit option" where
  "latch_wait l = (if completed l then Some () else None)"

datatype latch_event = Count_down_and_wait nat | Count_down int

fun latch_step :: "latch_event \<Rightarrow> latch \<Rightarrow> latch outcome option" where
  "latch_step (Count_down_and_wait i) l = count_down_and_wait_step i l"
| "latch_step (Count_down n) l = Some (Inr (count_down n l))"

fun latch_run :: "latch_event list \<Rightarrow> latch \<Rightarrow> latch outcome option" where
  "latch_run [] l = Some (Inr l)"
| "latch_run (e # es) l =
     (case latch_step e l of
        None \<Rightarrow> None
      | Some (Inl f) \<Rightarrow> Some (Inl f)
      | Some (Inr l1) \<Rightarrow> latch_run es l1)"

fun waits_only :: "latch_event \<Rightarrow> bool" where
  "waits_only (Count_down_and_wait i) \<longleftrightarrow> True"
| "waits_only (Count_down n) \<longleftrightarrow> False"

section \<open>As many threads as the count\<close>

definition before_latch :: "latch \<Rightarrow> nat" where
  "before_latch l = length (filter (\<lambda>c. c = Before_latch) (latch_threads l))"

definition about_to_open :: "latch \<Rightarrow> nat" where
  "about_to_open l = length (filter (\<lambda>c. c = Latch_counted 1) (latch_threads l))"

text \<open>
  The count is the number of threads still to come. When none is, either the promise is fulfilled or
  exactly one thread is about to fulfil it.
\<close>

definition latch_inv :: "nat \<Rightarrow> latch \<Rightarrow> bool" where
  "latch_inv n l \<longleftrightarrow>
     length (latch_threads l) = n \<and> latch_count l = int (before_latch l) \<and>
     (\<forall>i<n. \<forall>k. latch_threads l ! i = Latch_counted k \<longrightarrow> 1 \<le> k) \<and>
     (\<forall>i<n. latch_threads l ! i = Latch_passed \<longrightarrow> completed l) \<and>
     (if completed l then 1 else 0) + about_to_open l = (if before_latch l = 0 \<and> 0 < n then 1 else 0)"

lemma latch_start: "latch_inv n (make_latch (int n) n)"
  by (auto simp: latch_inv_def make_latch_def before_latch_def about_to_open_def)

lemma latch_arrive:
  assumes inv: "latch_inv n l" and i: "i < n" and c: "latch_threads l ! i = Before_latch"
  shows "latch_inv n (latch_move i (Latch_counted (latch_count l)) (l\<lparr>latch_count := latch_count l - 1\<rparr>))"
proof -
  let ?ts = "(latch_threads l)[i := Latch_counted (latch_count l)]"
  have len: "length (latch_threads l) = n" using inv by (simp add: latch_inv_def)
  have b: "Suc (length (filter (\<lambda>c. c = Before_latch) ?ts)) = before_latch l"
    unfolding before_latch_def by (rule filter_update_length_drop) (use len i c in auto)
  then have closed: "\<not> completed l" "about_to_open l = 0" "1 \<le> latch_count l"
    using inv by (auto simp: latch_inv_def split: if_splits)
  have o: "length (filter (\<lambda>c. c = Latch_counted 1) ?ts) = (if latch_count l = 1 then 1 else 0)"
  proof (cases "latch_count l = 1")
    case True
    have "length (filter (\<lambda>c. c = Latch_counted 1) ?ts) = Suc (about_to_open l)"
      unfolding about_to_open_def by (rule filter_update_length) (use len i c True in auto)
    with closed True show ?thesis by simp
  next
    case False
    have "length (filter (\<lambda>c. c = Latch_counted 1) ?ts) = about_to_open l"
      unfolding about_to_open_def by (rule filter_update_same) (use len i c False in auto)
    with closed False show ?thesis by simp
  qed
  show ?thesis using inv len i b o closed
    by (auto simp: latch_inv_def latch_move_def before_latch_def about_to_open_def nth_list_update)
qed

lemma latch_go_on:
  assumes inv: "latch_inv n l" and i: "i < n" and c: "latch_threads l ! i = Latch_counted k" "1 < k"
    and opened: "completed l"
  shows "latch_inv n (latch_move i Latch_passed l)"
proof -
  have len: "length (latch_threads l) = n" using inv by (simp add: latch_inv_def)
  have "length (filter (\<lambda>c. c = Before_latch) ((latch_threads l)[i := Latch_passed])) = before_latch l"
    unfolding before_latch_def by (rule filter_update_same) (use len i c in auto)
  moreover have "length (filter (\<lambda>c. c = Latch_counted 1) ((latch_threads l)[i := Latch_passed])) = about_to_open l"
    unfolding about_to_open_def by (rule filter_update_same) (use len i c in auto)
  ultimately show ?thesis using inv i opened
    by (auto simp: latch_inv_def latch_move_def before_latch_def about_to_open_def nth_list_update)
qed

lemma latch_open:
  assumes inv: "latch_inv n l" and i: "i < n" and c: "latch_threads l ! i = Latch_counted k" "\<not> 1 < k"
  shows "\<not> completed l" "latch_inv n (latch_move i Latch_passed (l\<lparr>completed := True\<rparr>))"
proof -
  have len: "length (latch_threads l) = n" and k: "k = 1" using inv i c by (auto simp: latch_inv_def)
  have o: "Suc (length (filter (\<lambda>c. c = Latch_counted 1) ((latch_threads l)[i := Latch_passed]))) = about_to_open l"
    unfolding about_to_open_def by (rule filter_update_length_drop) (use len i c k in auto)
  then show nc: "\<not> completed l" using inv by (auto simp: latch_inv_def split: if_splits)
  have "length (filter (\<lambda>c. c = Before_latch) ((latch_threads l)[i := Latch_passed])) = before_latch l"
    unfolding before_latch_def by (rule filter_update_same) (use len i c in auto)
  then show "latch_inv n (latch_move i Latch_passed (l\<lparr>completed := True\<rparr>))" using inv i o nc
    by (auto simp: latch_inv_def latch_move_def before_latch_def about_to_open_def nth_list_update split: if_splits)
qed

lemma latch_step_inv:
  assumes inv: "latch_inv n l" and e: "waits_only e" and st: "latch_step e l = Some r"
  shows "\<exists>l1. r = Inr l1 \<and> latch_inv n l1"
proof (cases e)
  case (Count_down_and_wait i)
  with st inv have i: "i < n" by (auto simp: latch_inv_def count_down_and_wait_step_def split: if_splits)
  have len: "length (latch_threads l) = n" using inv by (simp add: latch_inv_def)
  show ?thesis
  proof (cases "latch_threads l ! i")
    case Before_latch
    with st Count_down_and_wait i len latch_arrive [OF inv i] show ?thesis by (auto simp: count_down_and_wait_step_def)
  next
    case (Latch_counted k)
    with st Count_down_and_wait i len latch_go_on [OF inv i] latch_open [OF inv i] show ?thesis
      by (auto simp: count_down_and_wait_step_def set_completion_def split: if_splits)
  qed (use st Count_down_and_wait i len in \<open>auto simp: count_down_and_wait_step_def\<close>)
qed (use e in simp)

lemma latch_run_inv:
  "latch_inv n l \<Longrightarrow> list_all waits_only es \<Longrightarrow> latch_run es l = Some r \<Longrightarrow> \<exists>l1. r = Inr l1 \<and> latch_inv n l1"
proof (induction es arbitrary: l)
  case (Cons e es)
  then obtain r1 where r1: "latch_step e l = Some r1" by (auto split: option.splits)
  with latch_step_inv [of n l e r1] Cons.prems obtain l1 where "r1 = Inr l1" "latch_inv n l1" by auto
  with Cons r1 show ?case by simp
qed auto

text \<open>
  Claim C35. When as many threads as the count call \<open>count_down_and_wait\<close>, no call fails in any
  interleaving, no thread passes before all have come, and a thread that has not passed can take a
  step until all have.
\<close>

theorem latch_opens_once:
  assumes run: "latch_run es (make_latch (int n) n) = Some r" and es: "list_all waits_only es"
  shows "\<exists>l. r = Inr l \<and> latch_count l = int (before_latch l) \<and> (is_ready l \<longleftrightarrow> before_latch l = 0) \<and>
    (Latch_passed \<in> set (latch_threads l) \<longrightarrow> before_latch l = 0) \<and>
    (set (latch_threads l) \<subseteq> {Latch_passed} \<or> (\<exists>i. \<exists>l1. count_down_and_wait_step i l = Some (Inr l1)))"
proof -
  from latch_run_inv [OF latch_start es run] obtain l where r: "r = Inr l" and inv: "latch_inv n l" by blast
  have len: "length (latch_threads l) = n" using inv by (simp add: latch_inv_def)
  have passed: "Latch_passed \<in> set (latch_threads l) \<longrightarrow> before_latch l = 0"
    using inv by (auto simp: latch_inv_def in_set_conv_nth split: if_splits)
  have go: "\<exists>i. \<exists>l1. count_down_and_wait_step i l = Some (Inr l1)" if "\<not> set (latch_threads l) \<subseteq> {Latch_passed}"
  proof -
    from that obtain i where i: "i < n" "latch_threads l ! i \<noteq> Latch_passed" using len by (auto simp: set_conv_nth)
    have "\<exists>j<n. latch_threads l ! j = Before_latch \<or> latch_threads l ! j = Latch_counted 1 \<or>
        completed l \<and> (\<exists>k. latch_threads l ! j = Latch_counted k)"
    proof (cases "before_latch l = 0 \<and> \<not> completed l")
      case True
      then have "about_to_open l \<noteq> 0" using inv i by (auto simp: latch_inv_def)
      then have "\<exists>j<n. latch_threads l ! j = Latch_counted 1"
        using len by (auto simp: about_to_open_def filter_empty_conv in_set_conv_nth)
      then show ?thesis by blast
    next
      case False
      show ?thesis
      proof (cases "completed l")
        case True
        with i show ?thesis by (cases "latch_threads l ! i") blast+
      next
        case False
        with \<open>\<not> (before_latch l = 0 \<and> \<not> completed l)\<close> have "before_latch l \<noteq> 0" by simp
        then show ?thesis using len by (auto simp: before_latch_def filter_empty_conv in_set_conv_nth)
      qed
    qed
    then obtain j where j: "j < n" "latch_threads l ! j = Before_latch \<or> latch_threads l ! j = Latch_counted 1 \<or>
        completed l \<and> (\<exists>k. latch_threads l ! j = Latch_counted k)" by blast
    have "count_down_and_wait_step j l \<noteq> None" using j len by (auto simp: count_down_and_wait_step_def)
    then obtain r1 where r1: "count_down_and_wait_step j l = Some r1" by blast
    with latch_step_inv [OF inv, of "Count_down_and_wait j" r1] obtain l1 where "r1 = Inr l1" by auto
    with r1 show ?thesis by blast
  qed
  have "latch_count l = int (before_latch l)" using inv by (simp add: latch_inv_def)
  with r passed go show ?thesis by (auto simp: is_ready_def)
qed

lemma latch_opens_once_witness:
  "\<exists>l::latch. latch_run [Count_down_and_wait 0, Count_down_and_wait 1, Count_down_and_wait 1, Count_down_and_wait 0]
      (make_latch 2 2) = Some (Inr l) \<and> latch_threads l = [Latch_passed, Latch_passed] \<and> latch_count l = 0"
proof -
  let ?es = "[Count_down_and_wait 0, Count_down_and_wait 1, Count_down_and_wait 1, Count_down_and_wait 0]"
  have "\<exists>l. latch_run ?es (make_latch (int 2) 2) = Some (Inr l) \<and> latch_threads l = [Latch_passed, Latch_passed]"
    by (simp add: make_latch_def numeral_2_eq_2 count_down_and_wait_step_def latch_move_def set_completion_def)
  then obtain l where run: "latch_run ?es (make_latch (int 2) 2) = Some (Inr l)"
    and l: "latch_threads l = [Latch_passed, Latch_passed]" by blast
  from latch_opens_once [OF run] have "latch_count l = int (before_latch l)" by simp
  with run l show ?thesis by (auto simp: before_latch_def)
qed

text \<open>
  \<open>count_down\<close> never fulfils the promise: a thread that waits for a count brought to zero by it waits on.
\<close>

lemma count_down_opens_nothing:
  "completed (count_down n l) = completed l"
  "\<not> completed l \<Longrightarrow> latch_threads l ! i = Latch_counted k \<Longrightarrow> 1 < k \<Longrightarrow>
     count_down_and_wait_step i (count_down n l) = None"
  by (auto simp: count_down_def count_down_and_wait_step_def)

end
