(* ===== verification/Core_Values.thy ===== *)
theory Core_Values
  imports Prelude "HOL-Library.Word"
begin

text \<open>
  The value types and small utilities of \<^verbatim>\<open>src/core\<close>: \<open>coordinate\<close> and \<open>dimension\<close>
  (\<^verbatim>\<open>spatial.hpp\<close>, \<^verbatim>\<open>core.cpp\<close>) with the order that the coordinate-keyed maps of the parser and of
  the plugin use, the size literals, \<open>access\<close>, the enum comparison and \<open>split_buffer_sequence\<close>
  of \<^verbatim>\<open>core.h\<close>. A \<open>const_buffer\<close> is the list of bytes it views.
\<close>

type_synonym byte = "8 word"
type_synonym const_buffer = "byte list"
type_synonym size_t = "64 word"

section \<open>Coordinates and dimensions\<close>

datatype coordinate = Coordinate (col: int) (row: int)

datatype dimension = Dimension (width: int) (height: int)

definition coordinate_less :: "coordinate \<Rightarrow> coordinate \<Rightarrow> bool" where
  "coordinate_less this that \<longleftrightarrow>
     col this < col that \<or> (col this = col that \<and> row this < row that)"

definition coordinate_equal :: "coordinate \<Rightarrow> coordinate \<Rightarrow> bool" where
  "coordinate_equal this that \<longleftrightarrow> col this = col that \<and> row this = row that"

definition dimension_less :: "dimension \<Rightarrow> dimension \<Rightarrow> bool" where
  "dimension_less this that \<longleftrightarrow>
     width this < width that \<or> (width this = width that \<and> height this < height that)"

definition dimension_equal :: "dimension \<Rightarrow> dimension \<Rightarrow> bool" where
  "dimension_equal this that \<longleftrightarrow> width this = width that \<and> height this = height that"

text \<open>\<^verbatim>\<open>boost::hash_value\<close> of a tuple is a parameter.\<close>

definition hash_value :: "(int \<times> int \<Rightarrow> 'h) \<Rightarrow> coordinate \<Rightarrow> 'h" where
  "hash_value hash_tuple c = hash_tuple (col c, row c)"

lemma coordinate_equal_iff [simp]: "coordinate_equal a b \<longleftrightarrow> a = b"
  by (cases a; cases b) (simp add: coordinate_equal_def)

lemma dimension_equal_iff [simp]: "dimension_equal a b \<longleftrightarrow> a = b"
  by (cases a; cases b) (simp add: dimension_equal_def)

lemma hash_value_respects_equal:
  "coordinate_equal a b \<Longrightarrow> hash_value h a = hash_value h b"
  by simp

instantiation coordinate :: linorder
begin

definition less_coordinate :: "coordinate \<Rightarrow> coordinate \<Rightarrow> bool" where
  "less_coordinate a b \<longleftrightarrow> coordinate_less a b"

definition less_eq_coordinate :: "coordinate \<Rightarrow> coordinate \<Rightarrow> bool" where
  "less_eq_coordinate a b \<longleftrightarrow> coordinate_less a b \<or> a = b"

instance
proof
  fix x y z :: coordinate
  show "(x < y) = (x \<le> y \<and> \<not> y \<le> x)"
    by (cases x; cases y) (auto simp: less_coordinate_def less_eq_coordinate_def coordinate_less_def)
  show "x \<le> x"
    by (simp add: less_eq_coordinate_def)
  show "x \<le> y \<Longrightarrow> y \<le> z \<Longrightarrow> x \<le> z"
    by (cases x; cases y; cases z) (auto simp: less_eq_coordinate_def coordinate_less_def)
  show "x \<le> y \<Longrightarrow> y \<le> x \<Longrightarrow> x = y"
    by (cases x; cases y) (auto simp: less_eq_coordinate_def coordinate_less_def)
  show "x \<le> y \<or> y \<le> x"
    by (cases x; cases y) (auto simp: less_eq_coordinate_def coordinate_less_def)
qed

end

instantiation dimension :: linorder
begin

definition less_dimension :: "dimension \<Rightarrow> dimension \<Rightarrow> bool" where
  "less_dimension a b \<longleftrightarrow> dimension_less a b"

definition less_eq_dimension :: "dimension \<Rightarrow> dimension \<Rightarrow> bool" where
  "less_eq_dimension a b \<longleftrightarrow> dimension_less a b \<or> a = b"

instance
proof
  fix x y z :: dimension
  show "(x < y) = (x \<le> y \<and> \<not> y \<le> x)"
    by (cases x; cases y) (auto simp: less_dimension_def less_eq_dimension_def dimension_less_def)
  show "x \<le> x"
    by (simp add: less_eq_dimension_def)
  show "x \<le> y \<Longrightarrow> y \<le> z \<Longrightarrow> x \<le> z"
    by (cases x; cases y; cases z) (auto simp: less_eq_dimension_def dimension_less_def)
  show "x \<le> y \<Longrightarrow> y \<le> x \<Longrightarrow> x = y"
    by (cases x; cases y) (auto simp: less_eq_dimension_def dimension_less_def)
  show "x \<le> y \<or> y \<le> x"
    by (cases x; cases y) (auto simp: less_eq_dimension_def dimension_less_def)
qed

end

lemma coordinate_less_simp [simp]:
  "Coordinate a b < Coordinate c d \<longleftrightarrow> a < c \<or> (a = c \<and> b < d)"
  by (simp add: less_coordinate_def coordinate_less_def)

section \<open>Size literals\<close>

definition kbyte :: "size_t \<Rightarrow> size_t" where
  "kbyte n = n * 1024"

definition mbyte :: "size_t \<Rightarrow> size_t" where
  "mbyte n = n * 1024 * 1024"

definition default_max_chunk_size :: size_t where
  "default_max_chunk_size = kbyte 128"

lemma unat_kbyte: "unat (kbyte n) = (unat n * 1024) mod 2 ^ 64"
  by (simp add: kbyte_def unat_mult_lem unat_word_ariths)

lemma mbyte_kbyte: "mbyte n = kbyte (kbyte n)"
  by (simp add: mbyte_def kbyte_def)

section \<open>Lazy construction behind a pointer or an optional\<close>

text \<open>\<open>access\<close> builds the value when there is none and returns the (now present) one.\<close>

definition access :: "'a option \<Rightarrow> 'a \<Rightarrow> 'a option \<times> 'a" where
  "access ptr made = (case ptr of None \<Rightarrow> (Some made, made) | Some x \<Rightarrow> (Some x, x))"

lemma access_idem: "access (fst (access p x)) y = access p x"
  by (cases p) (simp_all add: access_def)

section \<open>Enumerations by their underlying value\<close>

definition underlying_same :: "('e \<Rightarrow> int) \<Rightarrow> ('f \<Rightarrow> int) \<Rightarrow> 'e \<Rightarrow> 'f \<Rightarrow> bool" where
  "underlying_same under_e under_f et eu \<longleftrightarrow> under_e et = under_f eu"

section \<open>Splitting buffer sequences\<close>

text \<open>
  The template takes one or more buffer sequences and lists their buffers in order; the recursion
  is on the parameter pack.
\<close>

fun split_buffer_sequence :: "const_buffer list list \<Rightarrow> const_buffer list" where
  "split_buffer_sequence [] = []"
| "split_buffer_sequence (sequence # tails) =
     (let buffer_list = map (\<lambda>buffer. buffer) sequence
      in if tails \<noteq> [] then buffer_list @ split_buffer_sequence tails else buffer_list)"

lemma split_buffer_sequence_concat: "split_buffer_sequence ss = concat ss"
  by (induction ss) auto

lemma split_buffer_sequence_bytes:
  "concat (split_buffer_sequence ss) = concat (map concat ss)"
  by (induction ss) (auto simp: split_buffer_sequence_concat)

end
