(* ===== verification/Cursor.thy ===== *)
theory Cursor
  imports Core_Values
begin

text \<open>
  The byte sources of \<^verbatim>\<open>src/multimedia/io.cursor.cpp\<close> that feed the demuxer: \<open>buffer_list_cursor\<close>,
  \<open>random_access_cursor\<close> over \<open>cursor\<close>, \<open>generic_cursor\<close>, and the \<open>io_base\<close> interface they
  implement. The interface is stated as the locales \<open>byte_reader\<close> and \<open>byte_source\<close>; the cursors
  are shown to implement them. A call of \<open>read\<close> returns the bytes it copied into the caller's
  buffer (its result is their number) or the end-of-file error code.
\<close>

datatype whence = SEEK_SET | SEEK_CUR | SEEK_END | AVSEEK_SIZE | Other_whence

datatype read_result = Averror_eof | Read_bytes "byte list"

section \<open>The interface\<close>

text \<open>
  A reader abstracts to the bytes it still has to deliver. Reading \<open>n\<close> bytes delivers the next
  \<open>n\<close> (fewer at the end), and end-of-file is reported when nothing is left.
\<close>

locale byte_reader =
  fixes rd :: "'c \<Rightarrow> int \<Rightarrow> (read_result \<times> 'c) outcome"
    and content :: "'c \<Rightarrow> byte list"
    and pos :: "'c \<Rightarrow> nat"
    and inv :: "'c \<Rightarrow> bool"
  assumes pos_le: "inv c \<Longrightarrow> pos c \<le> length (content c)"
    and rd_eof: "inv c \<Longrightarrow> pos c = length (content c) \<Longrightarrow> rd c n = Inr (Averror_eof, c)"
    and rd_some: "inv c \<Longrightarrow> pos c < length (content c) \<Longrightarrow> 0 \<le> n \<Longrightarrow>
      \<exists>c'. rd c n = Inr (Read_bytes (take (nat n) (drop (pos c) (content c))), c') \<and>
        inv c' \<and> content c' = content c \<and>
        pos c' = min (pos c + nat n) (length (content c))"

text \<open>The demuxer's use of a reader: read chunks until end-of-file is reported.\<close>

fun drain :: "('c \<Rightarrow> int \<Rightarrow> (read_result \<times> 'c) outcome) \<Rightarrow> int \<Rightarrow> nat \<Rightarrow> 'c \<Rightarrow> (byte list \<times> 'c) option" where
  "drain rd chunk 0 c = None"
| "drain rd chunk (Suc fuel) c =
     (case rd c chunk of
        Inr (Read_bytes bs, c') \<Rightarrow>
          (case drain rd chunk fuel c' of Some (rest, c'') \<Rightarrow> Some (bs @ rest, c'') | None \<Rightarrow> None)
      | Inr (Averror_eof, c') \<Rightarrow> Some ([], c')
      | Inl e \<Rightarrow> None)"

context byte_reader
begin

text \<open>Whatever the chunk size, draining delivers exactly the bytes that are left, in order.\<close>

lemma drain_rest:
  assumes "inv c" and "0 < chunk" and "length (content c) - pos c < fuel"
  shows "\<exists>c'. drain rd chunk fuel c = Some (drop (pos c) (content c), c') \<and>
    inv c' \<and> content c' = content c \<and> pos c' = length (content c)"
  using assms
proof (induction fuel arbitrary: c)
  case (Suc fuel)
  show ?case
  proof (cases "pos c = length (content c)")
    case True
    with Suc.prems show ?thesis by (auto simp: rd_eof)
  next
    case False
    with pos_le [OF Suc.prems(1)] have less: "pos c < length (content c)" by simp
    with rd_some [OF Suc.prems(1), of chunk] Suc.prems obtain c1
      where r: "rd c chunk = Inr (Read_bytes (take (nat chunk) (drop (pos c) (content c))), c1)"
        and c1: "inv c1" "content c1 = content c"
          "pos c1 = min (pos c + nat chunk) (length (content c))"
      by auto
    have "length (content c1) - pos c1 < fuel"
      using c1 Suc.prems less by (auto simp: min_def)
    from Suc.IH [OF c1(1) Suc.prems(2) this] obtain c2
      where d: "drain rd chunk fuel c1 = Some (drop (pos c1) (content c1), c2)"
        and c2: "inv c2" "content c2 = content c1" "pos c2 = length (content c1)"
      by auto
    have "take (nat chunk) (drop (pos c) (content c)) @ drop (pos c1) (content c) =
      drop (pos c) (content c)"
      unfolding c1(3) by (rule take_drop_split)
    with r d c1 c2 show ?thesis by auto
  qed
qed simp

end

text \<open>A source can also be repositioned; a position past the end is cut to the end.\<close>

locale byte_source = byte_reader rd content pos inv
  for rd :: "'c \<Rightarrow> int \<Rightarrow> (read_result \<times> 'c) outcome"
    and content :: "'c \<Rightarrow> byte list"
    and pos :: "'c \<Rightarrow> nat"
    and inv :: "'c \<Rightarrow> bool" +
  fixes sk :: "'c \<Rightarrow> int \<Rightarrow> whence \<Rightarrow> (int \<times> 'c) outcome"
  assumes sk_set: "inv c \<Longrightarrow> 0 \<le> k \<Longrightarrow>
      \<exists>c'. sk c k SEEK_SET = Inr (int (min (nat k) (length (content c))), c') \<and>
        inv c' \<and> content c' = content c \<and> pos c' = min (nat k) (length (content c))"
begin

lemma seek_then_drain:
  assumes "inv c" and "0 \<le> k" and "0 < chunk" and "length (content c) < fuel"
  shows "\<exists>c1 c2. sk c k SEEK_SET = Inr (int (min (nat k) (length (content c))), c1) \<and>
    drain rd chunk fuel c1 = Some (drop (nat k) (content c), c2)"
proof -
  from sk_set [OF assms(1,2)] obtain c1
    where s: "sk c k SEEK_SET = Inr (int (min (nat k) (length (content c))), c1)"
      and c1: "inv c1" "content c1 = content c" "pos c1 = min (nat k) (length (content c))"
    by auto
  have "length (content c1) - pos c1 < fuel" using assms(4) c1 by simp
  from drain_rest [OF c1(1) assms(3) this] obtain c2
    where "drain rd chunk fuel c1 = Some (drop (pos c1) (content c1), c2)" by auto
  moreover have "drop (pos c1) (content c1) = drop (nat k) (content c)"
    using c1 by (auto simp: min_def)
  ultimately show ?thesis using s by auto
qed

end

section \<open>buffer_list_cursor\<close>

text \<open>The iterator is the index of its buffer; the index past the last one is \<open>end()\<close>.\<close>

record buffer_list_cursor =
  buffer_list :: "const_buffer list"
  buffer_iterator :: nat
  offset :: int
  full_read_size :: int
  full_offset :: int
  full_size :: int
  eof :: bool

definition buffer_list_cursor_make :: "const_buffer list \<Rightarrow> buffer_list_cursor" where
  "buffer_list_cursor_make bufs =
     \<lparr>buffer_list = bufs, buffer_iterator = 0, offset = 0, full_read_size = 0, full_offset = 0,
      full_size = foldl (\<lambda>sum buffer. sum + int (length buffer)) 0 bufs, eof = False\<rparr>"

text \<open>The body of the copy loop after the copy: move the offset, step to the next buffer.\<close>

definition read_advance :: "buffer_list_cursor \<Rightarrow> int \<Rightarrow> buffer_list_cursor" where
  "read_advance c increment =
     (let c1 = c\<lparr>offset := offset c + increment\<rparr>
      in if offset c1 = int (length (buffer_list c ! buffer_iterator c))
         then c1\<lparr>buffer_iterator := Suc (buffer_iterator c),
                 eof := (eof c \<or> Suc (buffer_iterator c) = length (buffer_list c)),
                 offset := 0\<rparr>
         else c1)"

function read_loop ::
  "buffer_list_cursor \<Rightarrow> int \<Rightarrow> int \<Rightarrow> byte list \<Rightarrow> (byte list \<times> int \<times> buffer_list_cursor) outcome" where
  "read_loop c expect_size read_size out =
     (if buffer_iterator c < length (buffer_list c) \<and> read_size < expect_size
      then (let buf = buffer_list c ! buffer_iterator c;
                increment = min (expect_size - read_size) (int (length buf) - offset c)
            in if \<not> 0 < increment then Inl Assert_failed
               else if offset c < 0 then Inl Undefined_behaviour
               else read_loop (read_advance c increment) expect_size (read_size + increment)
                      (out @ take (nat increment) (drop (nat (offset c)) buf)))
      else Inr (out, read_size, c))"
  by pat_completeness auto
termination
  by (relation "measure (\<lambda>(c, expect_size, read_size, out). nat (expect_size - read_size))") auto

declare read_loop.simps [simp del]

definition buffer_list_read :: "buffer_list_cursor \<Rightarrow> int \<Rightarrow> (read_result \<times> buffer_list_cursor) outcome" where
  "buffer_list_read c expect_size =
     (if buffer_iterator c \<noteq> length (buffer_list c)
      then and_then (read_loop c expect_size 0 [])
             (\<lambda>(out, read_size, c1). Inr (Read_bytes out,
                c1\<lparr>full_offset := full_offset c1 + read_size,
                   full_read_size := full_read_size c1 + read_size\<rparr>))
      else Inr (Averror_eof, c))"

definition buffer_list_write :: "buffer_list_cursor \<Rightarrow> byte list \<Rightarrow> (int \<times> buffer_list_cursor) outcome" where
  "buffer_list_write c bs = Inl (Throw Not_implemented_error)"

text \<open>
  The search of \<open>seek\<close>: the first buffer that ends after the target, with the bytes before it.
\<close>

fun seek_find :: "const_buffer list \<Rightarrow> int \<Rightarrow> int \<Rightarrow> nat \<Rightarrow> nat \<times> int" where
  "seek_find [] seek_offset partial_sum i = (i, partial_sum)"
| "seek_find (buffer # bs) seek_offset partial_sum i =
     (let next_buffer_offset = partial_sum + int (length buffer)
      in if next_buffer_offset \<le> seek_offset
         then seek_find bs seek_offset next_buffer_offset (Suc i)
         else (i, partial_sum))"

definition buffer_list_seek_to :: "buffer_list_cursor \<Rightarrow> int \<Rightarrow> int \<times> buffer_list_cursor" where
  "buffer_list_seek_to c seek_offset =
     (if full_size c \<le> seek_offset
      then (full_size c, c\<lparr>buffer_iterator := length (buffer_list c),
              full_offset := full_size c, offset := 0\<rparr>)
      else (let (i, partial_sum) = seek_find (buffer_list c) seek_offset 0 0
            in (seek_offset, c\<lparr>buffer_iterator := i, full_offset := seek_offset,
                  offset := seek_offset - partial_sum\<rparr>)))"

fun buffer_list_seek ::
  "buffer_list_cursor \<Rightarrow> int \<Rightarrow> whence \<Rightarrow> (int \<times> buffer_list_cursor) outcome" where
  "buffer_list_seek c seek_offset SEEK_SET = Inr (buffer_list_seek_to c seek_offset)"
| "buffer_list_seek c seek_offset SEEK_END = Inr (buffer_list_seek_to c (seek_offset + full_size c))"
| "buffer_list_seek c seek_offset SEEK_CUR = Inr (buffer_list_seek_to c (seek_offset + full_offset c))"
| "buffer_list_seek c seek_offset AVSEEK_SIZE = Inr (-1, c)"
| "buffer_list_seek c seek_offset Other_whence = Inl (Throw Not_reachable_error)"

definition buffer_list_available :: "buffer_list_cursor \<Rightarrow> bool" where
  "buffer_list_available c \<longleftrightarrow> buffer_iterator c \<noteq> length (buffer_list c)"

definition buffer_list_consume_size :: "buffer_list_cursor \<Rightarrow> int" where
  "buffer_list_consume_size c = full_offset c"

definition buffer_list_remain_size :: "buffer_list_cursor \<Rightarrow> int" where
  "buffer_list_remain_size c = full_size c - full_offset c"

definition buffer_list_create :: "const_buffer list list \<Rightarrow> buffer_list_cursor" where
  "buffer_list_create buffers = buffer_list_cursor_make (split_buffer_sequence buffers)"

subsection \<open>The bytes a cursor views and its invariant\<close>

definition cursor_content :: "buffer_list_cursor \<Rightarrow> byte list" where
  "cursor_content c = concat (buffer_list c)"

definition cursor_pos :: "buffer_list_cursor \<Rightarrow> nat" where
  "cursor_pos c = length (concat (take (buffer_iterator c) (buffer_list c))) + nat (offset c)"

definition cursor_inv :: "buffer_list_cursor \<Rightarrow> bool" where
  "cursor_inv c \<longleftrightarrow>
     [] \<notin> set (buffer_list c) \<and>
     buffer_iterator c \<le> length (buffer_list c) \<and>
     0 \<le> offset c \<and>
     (buffer_iterator c = length (buffer_list c) \<longrightarrow> offset c = 0) \<and>
     (buffer_iterator c < length (buffer_list c) \<longrightarrow>
        offset c < int (length (buffer_list c ! buffer_iterator c))) \<and>
     full_size c = int (length (cursor_content c)) \<and>
     full_offset c = int (cursor_pos c)"

text \<open>The part of the invariant that the copy loop keeps: all but the total offset.\<close>

definition loop_inv :: "buffer_list_cursor \<Rightarrow> bool" where
  "loop_inv c \<longleftrightarrow> cursor_inv (c\<lparr>full_offset := int (cursor_pos c)\<rparr>)"

lemmas cursor_defs = cursor_content_def cursor_pos_def cursor_inv_def loop_inv_def

lemma foldl_sizes: "foldl (\<lambda>sum buffer. sum + int (length buffer)) k bs = k + int (length (concat bs))"
  by (induction bs arbitrary: k) auto

lemma cursor_updates [simp]:
  "cursor_pos (c\<lparr>full_offset := x\<rparr>) = cursor_pos c"
  "cursor_pos (c\<lparr>full_read_size := x\<rparr>) = cursor_pos c"
  "cursor_content (c\<lparr>full_offset := x\<rparr>) = cursor_content c"
  "cursor_content (c\<lparr>full_read_size := x\<rparr>) = cursor_content c"
  by (simp_all add: cursor_pos_def cursor_content_def)

lemma concat_take_Suc:
  "i < length bs \<Longrightarrow> concat (take (Suc i) bs) = concat (take i bs) @ bs ! i"
  by (simp add: take_Suc_conv_app_nth)

lemma concat_split:
  assumes "i < length bs"
  shows "length (concat bs) =
      length (concat (take i bs)) + length (bs ! i) + length (concat (drop (Suc i) bs))"
    and "n \<le> length (bs ! i) \<Longrightarrow> drop (length (concat (take i bs)) + n) (concat bs) =
      drop n (bs ! i) @ concat (drop (Suc i) bs)"
proof -
  have "bs = take i bs @ bs ! i # drop (Suc i) bs"
    using assms by (simp add: id_take_nth_drop)
  then have c: "concat bs = concat (take i bs) @ bs ! i @ concat (drop (Suc i) bs)"
    by (metis concat.simps(2) concat_append)
  show "length (concat bs) =
      length (concat (take i bs)) + length (bs ! i) + length (concat (drop (Suc i) bs))"
    by (subst c) simp
  show "n \<le> length (bs ! i) \<Longrightarrow> drop (length (concat (take i bs)) + n) (concat bs) =
      drop n (bs ! i) @ concat (drop (Suc i) bs)"
    by (subst c) simp
qed

lemma concat_take_le: "length (concat (take i bs)) \<le> length (concat bs)"
  by (metis append_take_drop_id concat_append le_add1 length_append)

lemma cursor_make_inv: "[] \<notin> set bufs \<Longrightarrow> cursor_inv (buffer_list_cursor_make bufs)"
  by (cases bufs) (auto simp: cursor_defs buffer_list_cursor_make_def foldl_sizes)

lemma cursor_make_content [simp]: "cursor_content (buffer_list_cursor_make bufs) = concat bufs"
  by (simp add: cursor_content_def buffer_list_cursor_make_def)

lemma cursor_make_pos [simp]: "cursor_pos (buffer_list_cursor_make bufs) = 0"
  by (simp add: cursor_pos_def buffer_list_cursor_make_def)

lemma cursor_pos_lt:
  assumes "loop_inv c" and "buffer_iterator c < length (buffer_list c)"
  shows "cursor_pos c < length (cursor_content c)"
proof -
  have "nat (offset c) < length (buffer_list c ! buffer_iterator c)"
    using assms by (auto simp: loop_inv_def cursor_inv_def)
  with concat_split(1) [OF assms(2)] show ?thesis
    unfolding cursor_pos_def cursor_content_def by linarith
qed

lemma cursor_pos_end:
  assumes "loop_inv c" and "\<not> buffer_iterator c < length (buffer_list c)"
  shows "cursor_pos c = length (cursor_content c)"
  using assms by (simp add: cursor_defs)

text \<open>One round of the copy loop delivers the next bytes and keeps the invariant.\<close>

lemma read_advance_step:
  assumes inv: "loop_inv c" and it: "buffer_iterator c < length (buffer_list c)"
    and inc: "0 < k" "k \<le> int (length (buffer_list c ! buffer_iterator c)) - offset c"
  shows "loop_inv (read_advance c k)"
    and "cursor_content (read_advance c k) = cursor_content c"
    and "cursor_pos (read_advance c k) = cursor_pos c + nat k"
    and "full_offset (read_advance c k) = full_offset c"
    and "take (nat k) (drop (nat (offset c)) (buffer_list c ! buffer_iterator c)) =
      take (nat k) (drop (cursor_pos c) (cursor_content c))"
proof -
  let ?b = "buffer_list c ! buffer_iterator c"
  have o: "0 \<le> offset c" "nat (offset c) \<le> length ?b"
    using inv it by (auto simp: cursor_defs)
  show c: "cursor_content (read_advance c k) = cursor_content c"
    by (simp add: read_advance_def cursor_content_def Let_def)
  show p: "cursor_pos (read_advance c k) = cursor_pos c + nat k"
    using it inc o by (simp add: read_advance_def cursor_pos_def Let_def concat_take_Suc nat_add_distrib)
      linarith
  show "full_offset (read_advance c k) = full_offset c"
    by (simp add: read_advance_def Let_def)
  have ne: "i < length (buffer_list c) \<Longrightarrow> buffer_list c ! i \<noteq> []" for i
    using inv by (metis cursor_inv_def loop_inv_def nth_mem select_convs(1) surjective update_convs(5))
  show "loop_inv (read_advance c k)"
    using inv it inc o c p by (auto simp: read_advance_def Let_def cursor_defs ne)
  show "take (nat k) (drop (nat (offset c)) ?b) = take (nat k) (drop (cursor_pos c) (cursor_content c))"
    using concat_split(2) [OF it o(2)] inc o by (simp add: cursor_pos_def cursor_content_def)
qed

text \<open>What delivering the next \<open>m\<close> bytes means, and that deliveries compose.\<close>

definition delivers :: "buffer_list_cursor \<Rightarrow> nat \<Rightarrow> byte list \<Rightarrow> buffer_list_cursor \<Rightarrow> bool" where
  "delivers c m bs c' \<longleftrightarrow>
     bs = take m (drop (cursor_pos c) (cursor_content c)) \<and> loop_inv c' \<and>
     cursor_content c' = cursor_content c \<and> full_offset c' = full_offset c \<and>
     cursor_pos c' = min (cursor_pos c + m) (length (cursor_content c))"

lemma loop_pos_le: "loop_inv c \<Longrightarrow> cursor_pos c \<le> length (cursor_content c)"
  using cursor_pos_lt [of c] cursor_pos_end [of c] by fastforce

lemma delivers_none: "loop_inv c \<Longrightarrow> m = 0 \<or> cursor_pos c = length (cursor_content c) \<Longrightarrow> delivers c m [] c"
  using loop_pos_le [of c] by (auto simp: delivers_def)

lemma delivers_trans:
  assumes "delivers c a bs c1" and "delivers c1 b bs' c2"
  shows "delivers c (a + b) (bs @ bs') c2"
proof -
  let ?xs = "drop (cursor_pos c) (cursor_content c)"
  have "drop (cursor_pos c1) (cursor_content c1) = drop a ?xs"
    using assms(1) by (auto simp: delivers_def min_def add.commute)
  then have "bs @ bs' = take (a + b) ?xs"
    using assms by (simp add: delivers_def take_add)
  with assms show ?thesis
    by (auto simp: delivers_def min_def)
qed

lemma read_advance_delivers:
  assumes "loop_inv c" and "buffer_iterator c < length (buffer_list c)"
    and "0 < k" and "k \<le> int (length (buffer_list c ! buffer_iterator c)) - offset c"
  shows "delivers c (nat k)
    (take (nat k) (drop (nat (offset c)) (buffer_list c ! buffer_iterator c))) (read_advance c k)"
  using read_advance_step [OF assms] loop_pos_le [of "read_advance c k"]
  by (simp add: delivers_def)

lemma nat_split_sum: "0 \<le> k \<Longrightarrow> r + k \<le> n \<Longrightarrow> nat k + nat (n - (r + k)) = nat (n - (r::int))"
  by linarith

text \<open>The loop delivers exactly what was asked for, or everything that is left.\<close>

lemma read_loop_correct:
  assumes "loop_inv c" and "r \<le> n"
  shows "\<exists>bs c'. read_loop c n r out = Inr (out @ bs, r + int (length bs), c') \<and>
    delivers c (nat (n - r)) bs c'"
  using assms
proof (induction c n r out rule: read_loop.induct)
  case (1 c n r out)
  let ?b = "buffer_list c ! buffer_iterator c"
  let ?k = "min (n - r) (int (length ?b) - offset c)"
  let ?bs = "take (nat ?k) (drop (nat (offset c)) ?b)"
  let ?c1 = "read_advance c ?k"
  show ?case
  proof (cases "buffer_iterator c < length (buffer_list c) \<and> r < n")
    case True
    then have o: "0 \<le> offset c" "offset c < int (length ?b)"
      using "1.prems"(1) by (auto simp: loop_inv_def cursor_inv_def)
    then have k: "0 < ?k" "?k \<le> int (length ?b) - offset c" "r + ?k \<le> n" "int (length ?bs) = ?k"
      using True by auto
    have d: "delivers c (nat ?k) ?bs ?c1"
      using read_advance_delivers "1.prems"(1) True k by simp
    then have inv: "loop_inv ?c1" by (simp add: delivers_def)
    have "\<exists>bs c'. read_loop ?c1 n (r + ?k) (out @ ?bs) =
        Inr ((out @ ?bs) @ bs, r + ?k + int (length bs), c') \<and>
      delivers ?c1 (nat (n - (r + ?k))) bs c'"
      by (rule "1.IH" [OF True refl refl _ _ inv k(3)]) (use k o in simp_all)
    then obtain bs c' where run: "read_loop ?c1 n (r + ?k) (out @ ?bs) =
        Inr ((out @ ?bs) @ bs, r + ?k + int (length bs), c')"
      and d': "delivers ?c1 (nat (n - (r + ?k))) bs c'" by (elim exE conjE)
    have "nat ?k + nat (n - (r + ?k)) = nat (n - r)"
      using nat_split_sum [OF _ k(3)] k(1) by simp
    with delivers_trans [OF d d'] have "delivers c (nat (n - r)) (?bs @ bs) c'" by simp
    moreover have "read_loop c n r out = Inr (out @ (?bs @ bs), r + int (length (?bs @ bs)), c')"
      using True k o run by (subst read_loop.simps) (simp add: Let_def)
    ultimately show ?thesis by blast
  next
    case False
    then have "read_loop c n r out = Inr (out @ [], r + int (length []), c)"
      by (subst read_loop.simps) auto
    moreover have "delivers c (nat (n - r)) [] c"
      using False "1.prems" cursor_pos_end [of c] by (intro delivers_none) auto
    ultimately show ?thesis by blast
  qed
qed

text \<open>A whole call of \<open>read\<close>.\<close>

lemma cursor_inv_loop: "cursor_inv c \<longleftrightarrow> loop_inv c \<and> full_offset c = int (cursor_pos c)"
  by (cases c) (auto simp: cursor_defs)

lemma buffer_list_read_eof:
  assumes "cursor_inv c" and "cursor_pos c = length (cursor_content c)"
  shows "buffer_list_read c n = Inr (Averror_eof, c)"
proof -
  have "\<not> buffer_iterator c < length (buffer_list c)"
    using assms cursor_pos_lt [of c] by (auto simp: cursor_inv_loop)
  moreover have "buffer_iterator c \<le> length (buffer_list c)"
    using assms(1) by (simp add: cursor_inv_def)
  ultimately show ?thesis by (simp add: buffer_list_read_def)
qed

lemma buffer_list_read_some:
  assumes "cursor_inv c" and "cursor_pos c < length (cursor_content c)" and "0 \<le> n"
  shows "\<exists>c'. buffer_list_read c n =
      Inr (Read_bytes (take (nat n) (drop (cursor_pos c) (cursor_content c))), c') \<and>
    cursor_inv c' \<and> cursor_content c' = cursor_content c \<and>
    cursor_pos c' = min (cursor_pos c + nat n) (length (cursor_content c))"
proof -
  have inv: "loop_inv c" and fo: "full_offset c = int (cursor_pos c)"
    using assms(1) by (simp_all add: cursor_inv_loop)
  have it: "buffer_iterator c \<noteq> length (buffer_list c)"
    using assms(2) cursor_pos_end [OF inv] by auto
  from read_loop_correct [OF inv, of 0 n "[]"] assms(3) obtain bs c1
    where run: "read_loop c n 0 [] = Inr (bs, int (length bs), c1)" and d: "delivers c (nat n) bs c1"
    by auto
  let ?c' = "c1\<lparr>full_offset := full_offset c1 + int (length bs),
    full_read_size := full_read_size c1 + int (length bs)\<rparr>"
  have same: "cursor_pos ?c' = cursor_pos c1" "cursor_content ?c' = cursor_content c1"
    by (simp_all add: cursor_pos_def cursor_content_def)
  have "int (length bs) = int (cursor_pos c1) - int (cursor_pos c)"
    using d assms(2) by (auto simp: delivers_def min_def)
  with d fo have "full_offset ?c' = int (cursor_pos ?c')"
    by (simp add: delivers_def same)
  moreover have "loop_inv ?c'"
    using d by (simp add: delivers_def loop_inv_def cursor_inv_def cursor_pos_def cursor_content_def)
  ultimately have "cursor_inv ?c'" by (simp add: cursor_inv_loop)
  with run it d same show ?thesis
    by (auto simp: buffer_list_read_def delivers_def)
qed

lemma seek_find_correct:
  assumes "p \<le> k" and "k < p + int (length (concat bs))" and "[] \<notin> set bs"
    and "seek_find bs k p i = (j, q)"
  shows "i \<le> j \<and> j < i + length bs \<and> q = p + int (length (concat (take (j - i) bs))) \<and>
    q \<le> k \<and> k < q + int (length (bs ! (j - i)))"
  using assms
proof (induction bs k p i rule: seek_find.induct)
  case (2 b bs k p i)
  show ?case
  proof (cases "p + int (length b) \<le> k")
    case True
    with 2 have "Suc i \<le> j \<and> j < Suc i + length bs \<and>
        q = p + int (length b) + int (length (concat (take (j - Suc i) bs))) \<and>
        q \<le> k \<and> k < q + int (length (bs ! (j - Suc i)))"
      by (simp add: Let_def)
    then obtain d where "j = Suc i + d" by (metis le_Suc_ex)
    with \<open>Suc i \<le> j \<and> _\<close> show ?thesis by (simp add: Suc_diff_le)
  next
    case False
    with 2 show ?thesis by (auto simp: Let_def)
  qed
qed simp

lemma seek_to_correct:
  assumes "cursor_inv c" and "0 \<le> k"
  defines "m \<equiv> min (nat k) (length (cursor_content c))"
  shows "\<exists>c'. buffer_list_seek_to c k = (int m, c') \<and>
    cursor_inv c' \<and> cursor_content c' = cursor_content c \<and> cursor_pos c' = m"
proof (cases "full_size c \<le> k")
  case True
  with assms show ?thesis
    by (auto simp: buffer_list_seek_to_def cursor_defs min_def)
next
  case False
  obtain j q where f: "seek_find (buffer_list c) k 0 0 = (j, q)" by fastforce
  have ne: "[] \<notin> set (buffer_list c)" and fs: "full_size c = int (length (concat (buffer_list c)))"
    using assms(1) by (simp_all add: cursor_defs)
  have s: "j < length (buffer_list c)" "q = int (length (concat (take j (buffer_list c))))"
    "q \<le> k" "k < q + int (length (buffer_list c ! j))"
    using seek_find_correct [OF _ _ ne f] assms(2) False fs by auto
  have m: "int m = k" using False assms(2) fs by (simp add: m_def cursor_content_def)
  let ?c' = "c\<lparr>buffer_iterator := j, full_offset := k, offset := k - q\<rparr>"
  have p: "cursor_pos ?c' = m" using s m by (simp add: cursor_pos_def)
  have ct: "cursor_content ?c' = cursor_content c" by (simp add: cursor_content_def)
  have "cursor_inv ?c'"
    using ne fs s m p ct by (auto simp: cursor_inv_def cursor_content_def)
  with p ct m False f show ?thesis by (simp add: buffer_list_seek_to_def)
qed

interpretation list_cursor: byte_source
  buffer_list_read cursor_content cursor_pos cursor_inv buffer_list_seek
proof unfold_locales
  fix c n
  assume inv: "cursor_inv c"
  show "cursor_pos c \<le> length (cursor_content c)"
    using inv loop_pos_le by (simp add: cursor_inv_loop)
  show "buffer_list_read c n = Inr (Averror_eof, c)" if "cursor_pos c = length (cursor_content c)"
    using inv that by (rule buffer_list_read_eof)
  show "\<exists>c'. buffer_list_read c n =
      Inr (Read_bytes (take (nat n) (drop (cursor_pos c) (cursor_content c))), c') \<and>
    cursor_inv c' \<and> cursor_content c' = cursor_content c \<and>
    cursor_pos c' = min (cursor_pos c + nat n) (length (cursor_content c))"
    if "cursor_pos c < length (cursor_content c)" and "0 \<le> n"
    using inv that by (rule buffer_list_read_some)
next
  fix c k
  assume "cursor_inv c" and "0 \<le> (k::int)"
  from seek_to_correct [OF this]
  show "\<exists>c'. buffer_list_seek c k SEEK_SET = Inr (int (min (nat k) (length (cursor_content c))), c') \<and>
      cursor_inv c' \<and> cursor_content c' = cursor_content c \<and>
      cursor_pos c' = min (nat k) (length (cursor_content c))"
    by auto
qed

section \<open>Properties\<close>



text \<open>
  Every branch of \<open>seek\<close> on a well-formed cursor: the target of \<open>SEEK_SET\<close>, \<open>SEEK_CUR\<close>
  and \<open>SEEK_END\<close> is counted from the start, the bytes consumed and the size; a target that is not
  negative is cut to the size, becomes the position and is returned, and a drain then delivers
  exactly the bytes behind it; \<open>AVSEEK_SIZE\<close> answers -1 and moves nothing.
\<close>

theorem seek_branches:
  assumes "cursor_inv c" and "0 < chunk" and "length (cursor_content c) < fuel"
    and "base = (case w of SEEK_SET \<Rightarrow> 0 | SEEK_CUR \<Rightarrow> buffer_list_consume_size c
                 | _ \<Rightarrow> buffer_list_consume_size c + buffer_list_remain_size c)"
    and "0 \<le> base + k" and "w \<in> {SEEK_SET, SEEK_CUR, SEEK_END}"
  shows "(\<exists>c1 c2. buffer_list_seek c k w =
        Inr (int (min (nat (base + k)) (length (cursor_content c))), c1) \<and>
      drain buffer_list_read chunk fuel c1 = Some (drop (nat (base + k)) (cursor_content c), c2)) \<and>
    buffer_list_seek c k AVSEEK_SIZE = Inr (-1, c)"
proof -
  have "buffer_list_seek c k w = buffer_list_seek c (base + k) SEEK_SET"
    using assms(4,6)
    by (auto simp: buffer_list_consume_size_def buffer_list_remain_size_def add.commute)
  with list_cursor.seek_then_drain [OF assms(1,5,2,3)] show ?thesis by auto
qed

theorem seek_branches_witness:
  "(\<exists>c1 c2. buffer_list_seek (buffer_list_cursor_make [[1, 2], [3]]) (-1) SEEK_END = Inr (2, c1) \<and>
      drain buffer_list_read 5 4 c1 = Some ([3], c2)) \<and>
    buffer_list_seek (buffer_list_cursor_make [[1, 2], [3]]) (-1) AVSEEK_SIZE =
      Inr (-1, buffer_list_cursor_make [[1, 2], [3]])"
proof -
  let ?c = "buffer_list_cursor_make [[1, 2], [3]]"
  have "cursor_inv ?c" by (rule cursor_make_inv) simp
  moreover have "buffer_list_consume_size ?c + buffer_list_remain_size ?c = 3"
    by (simp add: buffer_list_consume_size_def buffer_list_remain_size_def buffer_list_cursor_make_def)
  ultimately show ?thesis
    using seek_branches [of ?c 5 4 3 SEEK_END "-1"] by (simp add: numeral_2_eq_2)
qed

end
