(* ===== verification/Random_Access.thy ===== *)
theory Random_Access
  imports Cursor
begin

text \<open>
  \<open>cursor\<close>, \<open>random_access_cursor\<close>, \<open>generic_cursor\<close> and the defaults of \<open>io_base\<close>
  (\<^verbatim>\<open>src/multimedia/io.cursor.cpp\<close>). Reading is shown to be the reading of \<open>buffer_list_cursor\<close>;
  seeking is shown to work inside the first of equal buffers only, because \<open>seek_sequence\<close>
  searches the sizes of the buffers and not their offsets in the sequence.
\<close>

section \<open>cursor\<close>

record random_cursor =
  ra_buffers :: "const_buffer list"
  ra_iterator :: nat
  buffer_offset :: int
  sequence_offset :: int
  buffer_sizes :: "int list"

definition cursor_make :: "const_buffer list \<Rightarrow> random_cursor" where
  "cursor_make bufs =
     \<lparr>ra_buffers = bufs, ra_iterator = 0, buffer_offset = 0, sequence_offset = 0,
      buffer_sizes = map (\<lambda>buffer. int (length buffer)) bufs\<rparr>"

text \<open>\<open>vector::at\<close> throws past the end.\<close>

definition buffer_size :: "random_cursor \<Rightarrow> int outcome" where
  "buffer_size c =
     (if ra_iterator c < length (buffer_sizes c) then Inr (buffer_sizes c ! ra_iterator c)
      else Inl (Throw Out_of_range_error))"

definition sequence_size :: "random_cursor \<Rightarrow> int" where
  "sequence_size c = foldl (+) 0 (buffer_sizes c)"

text \<open>
  \<^verbatim>\<open>std::upper_bound\<close> with \<open>greater\<close>: the first element below the value. The standard requires the
  range to be partitioned by that test and leaves the result undefined otherwise.
\<close>

definition upper_bound_greater :: "int list \<Rightarrow> int \<Rightarrow> nat outcome" where
  "upper_bound_greater xs v =
     (let n = length (takeWhile (\<lambda>e. \<not> v > e) xs)
      in if list_all (\<lambda>e. v > e) (drop n xs) then Inr n else Inl Undefined_behaviour)"

definition seek_sequence :: "random_cursor \<Rightarrow> int \<Rightarrow> (int \<times> random_cursor) outcome" where
  "seek_sequence c seek_offset =
     and_then (upper_bound_greater (rev (buffer_sizes c)) seek_offset) (\<lambda>n.
       let c1 = c\<lparr>ra_iterator := length (ra_buffers c) - n\<rparr>;
           partial_sequence_size =
             (if n < length (buffer_sizes c) then rev (buffer_sizes c) ! n else 0)
       in and_then (buffer_size c1) (\<lambda>bsize.
            let c2 = c1\<lparr>buffer_offset := min (seek_offset - partial_sequence_size) bsize\<rparr>;
                c3 = c2\<lparr>sequence_offset := partial_sequence_size + buffer_offset c2\<rparr>
            in Inr (sequence_offset c3, c3)))"

section \<open>random_access_cursor\<close>

definition random_advance :: "random_cursor \<Rightarrow> int \<Rightarrow> int \<Rightarrow> random_cursor" where
  "random_advance c bsize read_size =
     (let c1 = c\<lparr>buffer_offset := buffer_offset c + read_size,
                sequence_offset := sequence_offset c + read_size\<rparr>
      in if buffer_offset c1 = bsize
         then c1\<lparr>ra_iterator := Suc (ra_iterator c), buffer_offset := 0\<rparr> else c1)"

function random_loop ::
  "random_cursor \<Rightarrow> int \<Rightarrow> int \<Rightarrow> byte list \<Rightarrow> (byte list \<times> int \<times> random_cursor) outcome" where
  "random_loop c expect_size total_read_size out =
     (if ra_iterator c < length (ra_buffers c) \<and> total_read_size < expect_size
      then (let read_ptr = ra_buffers c ! ra_iterator c
            in case buffer_size c of
                 Inl e \<Rightarrow> Inl e
               | Inr bsize \<Rightarrow>
                   (let read_size = min (expect_size - total_read_size) (bsize - buffer_offset c)
                    in if \<not> 0 < read_size then Inl Assert_failed
                       else if buffer_offset c < 0 then Inl Undefined_behaviour
                       else random_loop (random_advance c bsize read_size) expect_size
                              (total_read_size + read_size)
                              (out @ take (nat read_size) (drop (nat (buffer_offset c)) read_ptr))))
      else Inr (out, total_read_size, c))"
  by pat_completeness auto
termination
  by (relation "measure (\<lambda>(c, expect_size, total, out). nat (expect_size - total))") auto

declare random_loop.simps [simp del]

definition random_read :: "random_cursor \<Rightarrow> int \<Rightarrow> (read_result \<times> random_cursor) outcome" where
  "random_read c expect_size =
     (if ra_iterator c = length (ra_buffers c) then Inr (Averror_eof, c)
      else and_then (random_loop c expect_size 0 [])
             (\<lambda>(out, total_read_size, c1). Inr (Read_bytes out, c1)))"

definition random_write :: "random_cursor \<Rightarrow> byte list \<Rightarrow> (int \<times> random_cursor) outcome" where
  "random_write c bs = Inl (Throw Not_implemented_error)"

fun random_seek :: "random_cursor \<Rightarrow> int \<Rightarrow> whence \<Rightarrow> (int \<times> random_cursor) outcome" where
  "random_seek c seek_offset SEEK_SET = seek_sequence c seek_offset"
| "random_seek c seek_offset SEEK_END = seek_sequence c (seek_offset + sequence_size c)"
| "random_seek c seek_offset SEEK_CUR = seek_sequence c (seek_offset + sequence_offset c)"
| "random_seek c seek_offset AVSEEK_SIZE = Inr (sequence_size c, c)"
| "random_seek c seek_offset Other_whence = Inl (Throw Not_reachable_error)"

section \<open>generic_cursor and the dispatch on io_base\<close>

text \<open>The three callbacks are optional; a missing one answers the minimum of its result type.\<close>

record 's generic_cursor =
  reader :: "('s \<Rightarrow> int \<Rightarrow> int \<times> 's) option"
  writer :: "('s \<Rightarrow> byte list \<Rightarrow> int \<times> 's) option"
  seeker :: "('s \<Rightarrow> int \<Rightarrow> whence \<Rightarrow> int \<times> 's) option"
  captured :: 's

definition generic_read :: "'s generic_cursor \<Rightarrow> int \<Rightarrow> int \<times> 's generic_cursor" where
  "generic_read c bsize =
     (case reader c of None \<Rightarrow> (- (2 ^ 31), c)
      | Some f \<Rightarrow> (let (r, s) = f (captured c) bsize in (r, c\<lparr>captured := s\<rparr>)))"

definition generic_write :: "'s generic_cursor \<Rightarrow> byte list \<Rightarrow> int \<times> 's generic_cursor" where
  "generic_write c bs =
     (case writer c of None \<Rightarrow> (- (2 ^ 31), c)
      | Some f \<Rightarrow> (let (r, s) = f (captured c) bs in (r, c\<lparr>captured := s\<rparr>)))"

definition generic_seek :: "'s generic_cursor \<Rightarrow> int \<Rightarrow> whence \<Rightarrow> int \<times> 's generic_cursor" where
  "generic_seek c k w =
     (case seeker c of None \<Rightarrow> (- (2 ^ 63), c)
      | Some f \<Rightarrow> (let (r, s) = f (captured c) k w in (r, c\<lparr>captured := s\<rparr>)))"

definition generic_create ::
  "('s \<Rightarrow> int \<Rightarrow> int \<times> 's) option \<Rightarrow> ('s \<Rightarrow> byte list \<Rightarrow> int \<times> 's) option \<Rightarrow> ('s \<Rightarrow> int \<Rightarrow> whence \<Rightarrow> int \<times> 's) option \<Rightarrow> 's \<Rightarrow>
   's generic_cursor" where
  "generic_create rfunc wfunc sfunc s = \<lparr>reader = rfunc, writer = wfunc, seeker = sfunc, captured = s\<rparr>"

text \<open>An object behind an \<open>io_base\<close> pointer, and the virtual functions over it.\<close>

datatype 's io_base =
    Buffer_list buffer_list_cursor | Random_access random_cursor | Generic "'s generic_cursor"

fun readable :: "'s io_base \<Rightarrow> bool" where
  "readable (Buffer_list c) = True"
| "readable (Random_access c) = True"
| "readable (Generic c) = (reader c \<noteq> None)"

fun writable :: "'s io_base \<Rightarrow> bool" where
  "writable (Buffer_list c) = False"
| "writable (Random_access c) = False"
| "writable (Generic c) = (writer c \<noteq> None)"

fun seekable :: "'s io_base \<Rightarrow> bool" where
  "seekable (Buffer_list c) = True"
| "seekable (Random_access c) = True"
| "seekable (Generic c) = (seeker c \<noteq> None)"

fun available :: "'s io_base \<Rightarrow> bool outcome" where
  "available (Buffer_list c) = Inr (buffer_list_available c)"
| "available (Random_access c) = Inl (Throw Not_implemented_error)"
| "available (Generic c) = Inl (Throw Not_implemented_error)"

fun consume_size :: "'s io_base \<Rightarrow> int outcome" where
  "consume_size (Buffer_list c) = Inr (buffer_list_consume_size c)"
| "consume_size (Random_access c) = Inl (Throw Not_implemented_error)"
| "consume_size (Generic c) = Inl (Throw Not_implemented_error)"

fun remain_size :: "'s io_base \<Rightarrow> int outcome" where
  "remain_size (Buffer_list c) = Inr (buffer_list_remain_size c)"
| "remain_size (Random_access c) = Inl (Throw Not_implemented_error)"
| "remain_size (Generic c) = Inl (Throw Not_implemented_error)"

text \<open>What the callbacks of an \<open>io_context\<close> run: the virtual functions of the object they were given.\<close>

fun io_read :: "'s io_base \<Rightarrow> int \<Rightarrow> ((read_result + int) \<times> 's io_base) outcome" where
  "io_read (Buffer_list c) n = and_then (buffer_list_read c n) (\<lambda>(r, c1). Inr (Inl r, Buffer_list c1))"
| "io_read (Random_access c) n = and_then (random_read c n) (\<lambda>(r, c1). Inr (Inl r, Random_access c1))"
| "io_read (Generic c) n = (let (r, c1) = generic_read c n in Inr (Inr r, Generic c1))"

fun io_write :: "'s io_base \<Rightarrow> byte list \<Rightarrow> (int \<times> 's io_base) outcome" where
  "io_write (Buffer_list c) bs = and_then (buffer_list_write c bs) (\<lambda>(r, c1). Inr (r, Buffer_list c1))"
| "io_write (Random_access c) bs = and_then (random_write c bs) (\<lambda>(r, c1). Inr (r, Random_access c1))"
| "io_write (Generic c) bs = (let (r, c1) = generic_write c bs in Inr (r, Generic c1))"

fun io_seek :: "'s io_base \<Rightarrow> int \<Rightarrow> whence \<Rightarrow> (int \<times> 's io_base) outcome" where
  "io_seek (Buffer_list c) k w = and_then (buffer_list_seek c k w) (\<lambda>(r, c1). Inr (r, Buffer_list c1))"
| "io_seek (Random_access c) k w = and_then (random_seek c k w) (\<lambda>(r, c1). Inr (r, Random_access c1))"
| "io_seek (Generic c) k w = (let (r, c1) = generic_seek c k w in Inr (r, Generic c1))"

section \<open>Reading simulates buffer_list_cursor\<close>

text \<open>The two cursors stand at the same place of the same buffers.\<close>

definition sim :: "random_cursor \<Rightarrow> buffer_list_cursor \<Rightarrow> bool" where
  "sim r c \<longleftrightarrow>
     ra_buffers r = buffer_list c \<and> ra_iterator r = buffer_iterator c \<and>
     buffer_offset r = offset c \<and> buffer_sizes r = map (\<lambda>b. int (length b)) (buffer_list c)"

definition same_loop ::
  "(byte list \<times> int \<times> random_cursor) outcome \<Rightarrow> (byte list \<times> int \<times> buffer_list_cursor) outcome \<Rightarrow> bool" where
  "same_loop x y \<longleftrightarrow>
     (case (x, y) of
        (Inl e, Inl f) \<Rightarrow> e = f
      | (Inr (o1, n1, r), Inr (o2, n2, c)) \<Rightarrow> o1 = o2 \<and> n1 = n2 \<and> sim r c
      | _ \<Rightarrow> False)"

lemma sim_advance:
  "sim r c \<Longrightarrow> bsize = int (length (buffer_list c ! buffer_iterator c)) \<Longrightarrow>
     sim (random_advance r bsize k) (read_advance c k)"
  by (auto simp: sim_def random_advance_def read_advance_def Let_def)

lemma sim_loop: "sim r c \<Longrightarrow> same_loop (random_loop r n k out) (read_loop c n k out)"
proof (induction c n k out arbitrary: r rule: read_loop.induct)
  case (1 c n k out)
  let ?b = "buffer_list c ! buffer_iterator c"
  let ?k = "min (n - k) (int (length ?b) - offset c)"
  show ?case
  proof (cases "buffer_iterator c < length (buffer_list c) \<and> k < n")
    case True
    have size: "buffer_size r = Inr (int (length ?b))"
      using "1.prems" True by (simp add: sim_def buffer_size_def)
    have step: "same_loop
        (random_loop (random_advance r (int (length ?b)) ?k) n (k + ?k)
          (out @ take (nat ?k) (drop (nat (offset c)) ?b)))
        (read_loop (read_advance c ?k) n (k + ?k)
          (out @ take (nat ?k) (drop (nat (offset c)) ?b)))"
      if "0 < ?k" and "\<not> offset c < 0"
      by (rule "1.IH" [OF True refl refl _ _ sim_advance [OF "1.prems" refl]]) (use that in auto)
    show ?thesis
      using True "1.prems" size step
      by (subst random_loop.simps, subst read_loop.simps)
        (auto simp: sim_def Let_def same_loop_def)
  next
    case False
    with "1.prems" show ?thesis
      by (subst random_loop.simps, subst read_loop.simps) (auto simp: sim_def same_loop_def)
  qed
qed

text \<open>A caller that reads several times sees the results one by one, up to a failure.\<close>

fun read_results :: "('c \<Rightarrow> int \<Rightarrow> (read_result \<times> 'c) outcome) \<Rightarrow> 'c \<Rightarrow> int list \<Rightarrow> read_result outcome list" where
  "read_results rd c [] = []"
| "read_results rd c (n # ns) =
     (case rd c n of Inl e \<Rightarrow> [Inl e] | Inr (r, c') \<Rightarrow> Inr r # read_results rd c' ns)"

lemma sim_read:
  assumes "sim r c"
  shows "(\<exists>e. random_read r n = Inl e \<and> buffer_list_read c n = Inl e) \<or>
    (\<exists>x r' c'. random_read r n = Inr (x, r') \<and> buffer_list_read c n = Inr (x, c') \<and> sim r' c')"
  using sim_loop [OF assms, of n 0 "[]"] assms
  by (cases "random_loop r n 0 []"; cases "read_loop c n 0 []")
    (auto simp: random_read_def buffer_list_read_def same_loop_def sim_def)

lemma sim_results: "sim r c \<Longrightarrow> read_results random_read r ns = read_results buffer_list_read c ns"
proof (induction ns arbitrary: r c)
  case (Cons n ns)
  from sim_read [OF Cons.prems, of n] Cons.IH show ?case by auto
qed simp

lemma sim_make: "sim (cursor_make bufs) (buffer_list_cursor_make bufs)"
  by (simp add: sim_def cursor_make_def buffer_list_cursor_make_def)

text \<open>
  Claim C9. Over the same buffers, \<open>random_access_cursor\<close> and \<open>buffer_list_cursor\<close> answer every
  sequence of reads alike, failures included.
\<close>

theorem cursors_read_alike:
  "read_results random_read (cursor_make bufs) ns =
   read_results buffer_list_read (buffer_list_cursor_make bufs) ns"
  by (rule sim_results [OF sim_make])

text \<open>A random access cursor is thus a reader too.\<close>

definition to_list_cursor :: "random_cursor \<Rightarrow> buffer_list_cursor" where
  "to_list_cursor r =
     (buffer_list_cursor_make (ra_buffers r))
       \<lparr>buffer_iterator := ra_iterator r, offset := buffer_offset r\<rparr>"

definition random_content :: "random_cursor \<Rightarrow> byte list" where
  "random_content r = concat (ra_buffers r)"

definition random_pos :: "random_cursor \<Rightarrow> nat" where
  "random_pos r = cursor_pos (to_list_cursor r)"

definition random_inv :: "random_cursor \<Rightarrow> bool" where
  "random_inv r \<longleftrightarrow>
     loop_inv (to_list_cursor r) \<and> buffer_sizes r = map (\<lambda>b. int (length b)) (ra_buffers r)"

lemma sim_abstraction:
  assumes "sim r c" and "cursor_inv c"
  shows "random_inv r" and "random_pos r = cursor_pos c" and "random_content r = cursor_content c"
proof -
  show p: "random_pos r = cursor_pos c" and "random_content r = cursor_content c"
    using assms(1) by (simp_all add: sim_def random_pos_def random_content_def to_list_cursor_def
        buffer_list_cursor_make_def cursor_pos_def cursor_content_def)
  show "random_inv r"
    using assms by (simp add: sim_def random_inv_def to_list_cursor_def loop_inv_def
        buffer_list_cursor_make_def cursor_inv_def cursor_content_def cursor_pos_def foldl_sizes)
qed

lemma random_inv_sim:
  assumes "random_inv r"
  obtains c where "sim r c" and "cursor_inv c"
proof
  let ?c = "(to_list_cursor r)\<lparr>full_offset := int (cursor_pos (to_list_cursor r))\<rparr>"
  show "sim r ?c"
    using assms by (simp add: sim_def random_inv_def to_list_cursor_def buffer_list_cursor_make_def)
  show "cursor_inv ?c"
    using assms by (simp add: random_inv_def loop_inv_def)
qed

interpretation random_reader: byte_reader random_read random_content random_pos random_inv
proof unfold_locales
  fix r n
  assume "random_inv r"
  then obtain c where s: "sim r c" and c: "cursor_inv c" by (rule random_inv_sim)
  note abs = sim_abstraction [OF s c]
  show "random_pos r \<le> length (random_content r)"
    using list_cursor.pos_le [OF c] abs by simp
  show "random_read r n = Inr (Averror_eof, r)" if "random_pos r = length (random_content r)"
  proof -
    have "\<not> buffer_iterator c < length (buffer_list c)"
      using cursor_pos_lt [of c] c that abs by (auto simp: cursor_inv_loop)
    then have "ra_iterator r = length (ra_buffers r)"
      using c s by (simp add: sim_def cursor_inv_def)
    then show ?thesis by (simp add: random_read_def)
  qed
  show "\<exists>r'. random_read r n =
      Inr (Read_bytes (take (nat n) (drop (random_pos r) (random_content r))), r') \<and>
    random_inv r' \<and> random_content r' = random_content r \<and>
    random_pos r' = min (random_pos r + nat n) (length (random_content r))"
    if "random_pos r < length (random_content r)" and "0 \<le> n"
  proof -
    from list_cursor.rd_some [OF c, of n] that abs obtain c'
      where "buffer_list_read c n =
          Inr (Read_bytes (take (nat n) (drop (cursor_pos c) (cursor_content c))), c')"
        and c': "cursor_inv c'" "cursor_content c' = cursor_content c"
          "cursor_pos c' = min (cursor_pos c + nat n) (length (cursor_content c))"
      by auto
    with sim_read [OF s, of n] obtain r'
      where "random_read r n =
          Inr (Read_bytes (take (nat n) (drop (cursor_pos c) (cursor_content c))), r')"
        and "sim r' c'" by auto
    with sim_abstraction [OF _ c'(1), of r'] abs c' show ?thesis by auto
  qed
qed

section \<open>Seeking\<close>

lemma upper_bound_replicate:
  "upper_bound_greater (replicate m n) k = Inr (if k > n then 0 else m)"
proof (cases "k > n")
  case True
  then have "takeWhile (\<lambda>e. \<not> k > e) (replicate m n) = []"
    by (cases m) simp_all
  with True show ?thesis by (simp add: upper_bound_greater_def Let_def list_all_iff)
next
  case False
  then have "takeWhile (\<lambda>e. \<not> k > e) (replicate m n) = replicate m n"
    by (simp add: takeWhile_eq_all_conv)
  with False show ?thesis by (simp add: upper_bound_greater_def Let_def)
qed

text \<open>
  On \<open>m\<close> buffers of the same size \<open>n\<close>, seeking to \<open>k\<close> works when \<open>k\<close> is in the first
  buffer (up to its end) and throws \<open>out_of_range\<close> for every position behind it: the search runs
  over the buffer sizes, so no later buffer is ever selected.
\<close>

theorem random_seek_first_buffer_only:
  assumes "0 < m" and "\<forall>b \<in> set bufs. length b = n" and "length bufs = m"
  shows "random_seek (cursor_make bufs) k SEEK_SET =
    (if k \<le> int n then Inr (k, cursor_make bufs\<lparr>buffer_offset := k, sequence_offset := k\<rparr>)
     else Inl (Throw Out_of_range_error))"
proof -
  let ?c = "cursor_make bufs"
  have "map (\<lambda>b. int (length b)) bufs = replicate m (int n)"
    by (rule replicate_eqI) (use assms in auto)
  then have sizes: "buffer_sizes ?c = replicate m (int n)"
    by (simp add: cursor_make_def)
  have len: "length (ra_buffers ?c) = m" using assms(3) by (simp add: cursor_make_def)
  have fields: "?c\<lparr>ra_iterator := 0, buffer_offset := k, sequence_offset := k\<rparr> =
      ?c\<lparr>buffer_offset := k, sequence_offset := k\<rparr>"
    by (simp add: cursor_make_def)
  show ?thesis
  proof (cases "k \<le> int n")
    case True
    then show ?thesis
      using assms(1) fields
      by (simp add: seek_sequence_def sizes upper_bound_replicate buffer_size_def len Let_def min_def)
  next
    case False
    then show ?thesis
      using assms(1)
      by (simp add: seek_sequence_def sizes upper_bound_replicate buffer_size_def len Let_def)
  qed
qed

theorem random_seek_first_buffer_only_witness:
  "random_seek (cursor_make [[1, 2], [3, 4]]) 3 SEEK_SET = Inl (Throw Out_of_range_error)"
  using random_seek_first_buffer_only [of 2 "[[1, 2], [3, 4]]" 2 3] by simp

end
