(* ===== verification/Promises.thy ===== *)
theory Promises
  imports Prelude "HOL-Library.Multiset"
begin

text \<open>
  The contract of the components that hand out futures (\<open>send_request\<close>, \<open>connect_socket\<close>,
  \<open>accept_socket\<close>, \<open>process_requests\<close>): every promise issued is either still held by the component
  or settled, once. A component is a step relation with three lists of promises. \<open>promise_ledger\<close>
  states the contract, \<open>fifo_ledger\<close> adds that promises are settled in the order of their issue.
\<close>

type_synonym promise = nat

lemma mset_remove_nth:
  "k < length xs \<Longrightarrow> mset xs = add_mset (xs ! k) (mset (take k xs) + mset (drop (Suc k) xs))"
  by (metis id_take_nth_drop mset.simps(2) mset_append union_mset_add_mset_right)

locale promise_ledger =
  fixes step :: "'s \<Rightarrow> 's \<Rightarrow> bool"
    and issued :: "'s \<Rightarrow> promise list"
    and settled :: "'s \<Rightarrow> promise list"
    and held :: "'s \<Rightarrow> promise list"
  assumes step_ledger: "step s t \<Longrightarrow> mset (issued s) = mset (settled s) + mset (held s) \<Longrightarrow>
      mset (issued t) = mset (settled t) + mset (held t)"
begin

lemma run_ledger:
  assumes "step\<^sup>*\<^sup>* s t" and "issued s = []" and "settled s = []" and "held s = []"
  shows "mset (issued t) = mset (settled t) + mset (held t)"
  using assms by (induction rule: rtranclp_induct) (auto intro: step_ledger)

lemma settled_once:
  assumes "step\<^sup>*\<^sup>* s t" and "issued s = []" and "settled s = []" and "held s = []"
    and "distinct (issued t)"
  shows "distinct (settled t)" and "set (settled t) \<inter> set (held t) = {}"
    and "set (issued t) = set (settled t) \<union> set (held t)"
proof -
  note eq = run_ledger [OF assms(1-4)]
  then have m: "mset (issued t) = mset (settled t @ held t)" by simp
  then have "distinct (settled t @ held t)"
    using assms(5) mset_eq_imp_distinct_iff by blast
  then show "distinct (settled t)" and "set (settled t) \<inter> set (held t) = {}"
    by auto
  from m show "set (issued t) = set (settled t) \<union> set (held t)"
    by (metis mset_eq_setD set_append)
qed

end

locale fifo_ledger =
  fixes step :: "'s \<Rightarrow> 's \<Rightarrow> bool"
    and issued :: "'s \<Rightarrow> promise list"
    and settled :: "'s \<Rightarrow> promise list"
    and held :: "'s \<Rightarrow> promise list"
  assumes step_fifo: "step s t \<Longrightarrow> issued s = settled s @ held s \<Longrightarrow> issued t = settled t @ held t"
begin

lemma run_fifo:
  assumes "step\<^sup>*\<^sup>* s t" and "issued s = settled s @ held s"
  shows "issued t = settled t @ held t"
  using assms by (induction rule: rtranclp_induct) (auto intro: step_fifo)

lemma settled_all:
  assumes "step\<^sup>*\<^sup>* s t" and "issued s = settled s @ held s" and "held t = []"
  shows "settled t = issued t"
  using run_fifo [OF assms(1,2)] assms(3) by simp

lemma settled_distinct:
  assumes "step\<^sup>*\<^sup>* s t" and "issued s = settled s @ held s" and "distinct (issued t)"
  shows "distinct (settled t)" and "set (settled t) \<inter> set (held t) = {}"
  using run_fifo [OF assms(1,2)] assms(3) by auto

end

text \<open>\<open>boost::system::error_code\<close>: zero is success and converts to false.\<close>

type_synonym error_code = int

definition failed :: "error_code \<Rightarrow> bool" where
  "failed errc \<longleftrightarrow> errc \<noteq> 0"

end
