(* ===== verification/Net_Http.thy ===== *)
theory Net_Http
  imports Core_Values Core_Verify Promises
begin

text \<open>
  What the HTTP components share (\<^verbatim>\<open>src/network/net.h\<close>, \<^verbatim>\<open>session.base.h\<close>): requests and responses as
  far as the code reads them, endpoints with the order, equality and hash of sockets, and the
  socket calls of \<open>session_base\<close>.
\<close>

section \<open>Messages\<close>

datatype verb = Get | Other_verb

record http_request =
  version :: nat
  http_method :: verb
  target :: string
  keep_alive :: bool
  host :: string

record http_response =
  status :: nat
  reason :: string
  body :: "byte list"

definition status_ok :: nat where
  "status_ok = 200"

definition status_bad_request :: nat where
  "status_bad_request = 400"

text \<open>The target is passed as a C string, which ends at the first NUL.\<close>

definition c_str :: "string \<Rightarrow> string" where
  "c_str s = takeWhile (\<lambda>c. c \<noteq> CHR 0x00) s"

definition make_http_request :: "string \<Rightarrow> string \<Rightarrow> http_request outcome" where
  "make_http_request host_name target_path =
     assert_that (host_name \<noteq> []) (assert_that (target_path \<noteq> [])
       (Inr \<lparr>version = 11, http_method = Get, target = c_str target_path, keep_alive = True,
             host = host_name\<rparr>))"

section \<open>Endpoints and sockets\<close>

datatype address = V4 "32 word" | V6 "byte list" | Other_address string

type_synonym endpoint = "address \<times> nat"

record socket =
  local_endpoint :: "int \<times> int"
  remote_endpoint :: "int \<times> int"

text \<open>
  The order of endpoints is the library's; sockets are ordered by the remote endpoint and then by
  the local one. Endpoints are pairs of integers (address, port) compared lexicographically.
\<close>

definition endpoint_less :: "int \<times> int \<Rightarrow> int \<times> int \<Rightarrow> bool" where
  "endpoint_less a b \<longleftrightarrow> fst a < fst b \<or> (fst a = fst b \<and> snd a < snd b)"

definition socket_less :: "socket \<Rightarrow> socket \<Rightarrow> bool" where
  "socket_less sock1 sock2 \<longleftrightarrow>
     endpoint_less (remote_endpoint sock1) (remote_endpoint sock2) \<or>
     \<not> endpoint_less (remote_endpoint sock2) (remote_endpoint sock1) \<and>
     endpoint_less (local_endpoint sock1) (local_endpoint sock2)"

definition socket_equal :: "socket \<Rightarrow> socket \<Rightarrow> bool" where
  "socket_equal sock1 sock2 \<longleftrightarrow>
     remote_endpoint sock1 = remote_endpoint sock2 \<and> local_endpoint sock1 = local_endpoint sock2"

text \<open>
  The hash of an endpoint; \<open>boost::hash_combine\<close> of a seed with an integer, with bytes or with
  text is a parameter.
\<close>

definition endpoint_hash ::
  "(size_t \<Rightarrow> 32 word + byte list + string + nat \<Rightarrow> size_t) \<Rightarrow> endpoint \<Rightarrow> size_t" where
  "endpoint_hash hash_combine e =
     (let seed = 0x790C3D1E;
          seed1 = (case fst e of
                     V4 a \<Rightarrow> hash_combine seed (Inl a)
                   | V6 bs \<Rightarrow> hash_combine seed (Inr (Inl bs))
                   | Other_address s \<Rightarrow> hash_combine seed (Inr (Inr (Inl s))))
      in hash_combine seed1 (Inr (Inr (Inr (snd e)))))"

lemma endpoint_less_linear: "endpoint_less a b \<or> a = b \<or> endpoint_less b a"
  by (cases a; cases b) (auto simp: endpoint_less_def)

lemma socket_less_irrefl: "\<not> socket_less a a"
  by (simp add: socket_less_def endpoint_less_def)

lemma endpoint_less_trans: "endpoint_less a b \<Longrightarrow> endpoint_less b c \<Longrightarrow> endpoint_less a c"
  by (auto simp: endpoint_less_def)

lemma endpoint_less_asym: "endpoint_less a b \<Longrightarrow> \<not> endpoint_less b a"
  by (auto simp: endpoint_less_def)

lemma socket_less_lex:
  "socket_less a b \<longleftrightarrow>
     endpoint_less (remote_endpoint a) (remote_endpoint b) \<or>
     remote_endpoint a = remote_endpoint b \<and> endpoint_less (local_endpoint a) (local_endpoint b)"
  unfolding socket_less_def
  using endpoint_less_linear [of "remote_endpoint a" "remote_endpoint b"] endpoint_less_asym by auto

lemma socket_less_trans: "socket_less a b \<Longrightarrow> socket_less b c \<Longrightarrow> socket_less a c"
  by (auto simp: socket_less_lex dest: endpoint_less_trans)

lemma socket_less_total: "socket_less a b \<or> socket_equal a b \<or> socket_less b a"
  using endpoint_less_linear [of "remote_endpoint a" "remote_endpoint b"]
    endpoint_less_linear [of "local_endpoint a" "local_endpoint b"]
  unfolding socket_less_def socket_equal_def endpoint_less_def by auto

section \<open>How a promise is settled\<close>

text \<open>By \<^verbatim>\<open>setValue\<close> or by \<^verbatim>\<open>setException\<close> with an exception and its error infos.\<close>

datatype 'v settlement = Settled_value 'v | Settled_exception thrown

fun is_value :: "'v settlement \<Rightarrow> bool" where
  "is_value (Settled_value v) \<longleftrightarrow> True"
| "is_value (Settled_exception e) \<longleftrightarrow> False"

section \<open>Closing a socket\<close>

datatype shutdown_type = Shutdown_receive | Shutdown_send | Shutdown_both

datatype socket_call = Socket_cancel | Socket_shutdown shutdown_type

text \<open>The calls made on the socket so far; the overload with an error code ignores the code.\<close>

definition close_socket :: "socket_call list \<Rightarrow> shutdown_type \<Rightarrow> socket_call list" where
  "close_socket calls operation = calls @ [Socket_cancel, Socket_shutdown operation]"

definition close_socket_errc :: "socket_call list \<Rightarrow> error_code \<Rightarrow> shutdown_type \<Rightarrow> socket_call list" where
  "close_socket_errc calls errc operation = close_socket calls operation"

definition close_promise_and_socket ::
  "(error_code \<Rightarrow> string) \<Rightarrow> (promise \<times> exn) list \<times> socket_call list \<Rightarrow> promise \<Rightarrow> error_code \<Rightarrow>
   shutdown_type \<Rightarrow> (promise \<times> exn) list \<times> socket_call list" where
  "close_promise_and_socket message s p errc operation =
     (fst s @ [(p, Runtime_error (message errc))], close_socket_errc (snd s) errc operation)"

definition clear_promise_list :: "promise list \<Rightarrow> exn \<Rightarrow> (promise \<times> exn) list" where
  "clear_promise_list promise_list exception = map (\<lambda>p. (p, exception)) promise_list"

end
