(* ===== verification/Client_Session.thy ===== *)
theory Client_Session
  imports Net_Http
begin

text \<open>
  \<^verbatim>\<open>src/network/session.client.h\<close> and \<^verbatim>\<open>session.client.cpp\<close>: the HTTP client session. Requests
  are queued on a strand and sent one at a time: \<open>send_front_request\<close> writes the front of the queue,
  \<open>on_send_request\<close> starts reading its response and \<open>on_recv_response\<close> settles the promise of the
  front. A failure settles every queued promise and closes the session.

  The strand runs one handler at a time, so a handler is a function on the state. The
  asynchronous operations the session has started are part of the state; the environment completes
  them with any error code and any response.
\<close>

section \<open>State\<close>

datatype async_operation = Async_write http_request int | Async_read int

record client_session =
  request_list :: "(http_request \<times> promise) list"
  response_parser :: "http_response option"
  active :: bool
  round_index :: int
  socket_calls :: "socket_call list"
  operations :: "async_operation list" \<comment> \<open>started and not yet completed\<close>
  posted :: "(http_request \<times> promise) list" \<comment> \<open>closures waiting on the strand\<close>
  settled :: "(promise \<times> http_response settlement) list" \<comment> \<open>in the order of settling\<close>
  submitted :: "(http_request \<times> promise) list" \<comment> \<open>the calls of \<open>send_request\<close> so far\<close>
  written :: "http_request list" \<comment> \<open>requests whose write has completed\<close>
  received :: "http_response list" \<comment> \<open>responses whose read has completed\<close>

definition session_create :: client_session where
  "session_create = \<lparr>request_list = [], response_parser = None, active = True, round_index = -1,
     socket_calls = [], operations = [], posted = [], settled = [], submitted = [],
     written = [], received = []\<rparr>"

section \<open>Handlers\<close>

definition blank_response :: http_response where
  "blank_response = \<lparr>status = 0, reason = [], body = []\<rparr>"

definition emplace_response_parser :: "client_session \<Rightarrow> client_session" where
  "emplace_response_parser s = s\<lparr>response_parser := Some blank_response\<rparr>"

definition fail_request_then_close ::
  "thrown \<Rightarrow> error_code \<Rightarrow> shutdown_type \<Rightarrow> client_session \<Rightarrow> client_session" where
  "fail_request_then_close e errc operation s =
     s\<lparr>settled := settled s @ map (\<lambda>(request, response). (response, Settled_exception e)) (request_list s),
       request_list := [],
       socket_calls := close_socket_errc (socket_calls s) errc operation,
       active := False\<rparr>"

definition send_front_request :: "client_session \<Rightarrow> client_session outcome" where
  "send_front_request s =
     (let s1 = emplace_response_parser s;
          request_index = round_index s1 + 1;
          s2 = s1\<lparr>round_index := request_index\<rparr>
      in case request_list s2 of
           [] \<Rightarrow> Inl Undefined_behaviour
         | (request, _) # _ \<Rightarrow>
             Inr (s2\<lparr>operations := operations s2 @ [Async_write request request_index]\<rparr>))"

definition on_recv_response :: "int \<Rightarrow> error_code \<Rightarrow> client_session \<Rightarrow> client_session outcome" where
  "on_recv_response index errc s =
     (if failed errc
      then Inr (fail_request_then_close (Bad_response_error, [Code errc]) errc Shutdown_receive s)
      else case response_parser s of
        None \<Rightarrow> Inl Undefined_behaviour
      | Some response \<Rightarrow>
          if status response \<noteq> status_ok
          then Inr (fail_request_then_close (Bad_response_error, [Message (reason response)]) errc
                 Shutdown_receive s)
          else case request_list s of
            [] \<Rightarrow> Inl Undefined_behaviour
          | (_, promise) # requests \<Rightarrow>
              let s1 = s\<lparr>settled := settled s @ [(promise, Settled_value response)],
                         response_parser := Some blank_response,
                         request_list := requests\<rparr>
              in if request_list s1 \<noteq> [] then send_front_request s1 else Inr s1)"

definition on_send_request :: "int \<Rightarrow> error_code \<Rightarrow> client_session \<Rightarrow> client_session outcome" where
  "on_send_request index errc s =
     (if failed errc
      then Inr (fail_request_then_close (Bad_request_error, [Code errc]) errc Shutdown_send s)
      else case response_parser s of
        None \<Rightarrow> Inl Undefined_behaviour
      | Some _ \<Rightarrow> Inr (s\<lparr>operations := operations s @ [Async_read index]\<rparr>))"

text \<open>\<open>send_request\<close> makes a promise and posts a closure; the closure runs on the strand.\<close>

definition send_request :: "http_request \<Rightarrow> promise \<Rightarrow> client_session \<Rightarrow> client_session" where
  "send_request request promise s =
     s\<lparr>posted := posted s @ [(request, promise)], submitted := submitted s @ [(request, promise)]\<rparr>"

definition send_request_posted :: "http_request \<Rightarrow> promise \<Rightarrow> client_session \<Rightarrow> client_session outcome" where
  "send_request_posted request response s =
     (if active s
      then (let s1 = s\<lparr>request_list := request_list s @ [(request, response)]\<rparr>
            in if length (request_list s1) = 1 then send_front_request s1 else Inr s1)
      else Inr (s\<lparr>settled := settled s @ [(response, Settled_exception (Session_closed_error, []))]\<rparr>))"

text \<open>
  The continuation of \<open>send_request_for\<close>: it runs on a value only, an exception passes through.
  For a target that is not a \<open>multi_buffer\<close> the code is not reachable.
\<close>

fun send_request_for :: "bool \<Rightarrow> http_response settlement \<Rightarrow> byte list settlement" where
  "send_request_for target_is_multi_buffer (Settled_value response) =
     (if status response \<noteq> status_ok
      then Settled_exception (throw_in_function Bad_request_error ''send_request_for'')
      else if target_is_multi_buffer then Settled_value (body response)
      else Settled_exception (throw_in_function Not_reachable_error ''send_request_for''))"
| "send_request_for target_is_multi_buffer (Settled_exception e) = Settled_exception e"

section \<open>Runs\<close>

text \<open>
  What happens next: a caller sends a request, the strand runs the oldest posted closure, or the
  \<open>k\<close>th operation in flight completes. A completed read has filled the parser. An event that
  cannot happen is \<open>None\<close>.
\<close>

datatype client_event =
    Call_send_request http_request promise
  | Run_posted
  | Complete nat error_code http_response

definition complete_operation ::
  "async_operation \<Rightarrow> error_code \<Rightarrow> http_response \<Rightarrow> client_session \<Rightarrow> client_session outcome" where
  "complete_operation op errc response s =
     (case op of
        Async_write request index \<Rightarrow>
          on_send_request index errc
            (if failed errc then s else s\<lparr>written := written s @ [request]\<rparr>)
      | Async_read index \<Rightarrow>
          on_recv_response index errc
            (if failed errc then s
             else s\<lparr>received := received s @ [response], response_parser := Some response\<rparr>))"

fun session_event :: "client_event \<Rightarrow> client_session \<Rightarrow> client_session outcome option" where
  "session_event (Call_send_request request promise) s =
     (if promise \<in> snd ` set (submitted s) then None else Some (Inr (send_request request promise s)))"
| "session_event Run_posted s =
     (case posted s of [] \<Rightarrow> None
      | (request, promise) # rest \<Rightarrow> Some (send_request_posted request promise (s\<lparr>posted := rest\<rparr>)))"
| "session_event (Complete k errc response) s =
     (if k < length (operations s)
      then Some (complete_operation (operations s ! k) errc response
             (s\<lparr>operations := take k (operations s) @ drop (Suc k) (operations s)\<rparr>))
      else None)"

inductive session_step :: "client_session \<Rightarrow> client_session \<Rightarrow> bool" where
  event: "session_event e s = Some (Inr t) \<Longrightarrow> session_step s t"

inductive_cases session_stepE: "session_step s t"

text \<open>The events that need no caller.\<close>

inductive internal_step :: "client_session \<Rightarrow> client_session \<Rightarrow> bool" where
  run_posted: "session_event Run_posted s = Some (Inr t) \<Longrightarrow> internal_step s t"
| complete: "session_event (Complete k errc response) s = Some (Inr t) \<Longrightarrow> internal_step s t"

inductive_cases internal_stepE: "internal_step s t"

section \<open>The invariant\<close>

text \<open>
  At most one operation is in flight, exactly when a request is queued, and it belongs to the front
  of the queue; a closed session has neither.
\<close>

definition flight_ok :: "client_session \<Rightarrow> bool" where
  "flight_ok s \<longleftrightarrow>
     (case request_list s of
        [] \<Rightarrow> operations s = []
      | (request, _) # _ \<Rightarrow> active s \<and> response_parser s \<noteq> None \<and>
          (operations s = [Async_write request (round_index s)] \<or> operations s = [Async_read (round_index s)]))"

text \<open>Promises are settled in the order of the calls.\<close>

definition order_ok :: "client_session \<Rightarrow> bool" where
  "order_ok s \<longleftrightarrow> map snd (submitted s) = map fst (settled s) @ map snd (request_list s) @ map snd (posted s)"

text \<open>The calls not yet settled are queued or posted, in order.\<close>

definition backlog_ok :: "client_session \<Rightarrow> bool" where
  "backlog_ok s \<longleftrightarrow> drop (length (settled s)) (submitted s) = request_list s @ posted s"

text \<open>Requests are written in the order of the calls.\<close>

definition written_ok :: "client_session \<Rightarrow> bool" where
  "written_ok s \<longleftrightarrow> length (written s) \<le> length (submitted s) \<and>
     written s = map fst (take (length (written s)) (submitted s))"

text \<open>
  The \<open>k\<close>th promise, if it has a value, has the \<open>k\<close>th response read, and that response was read
  after the \<open>k\<close>th request was written.
\<close>

definition values_ok :: "client_session \<Rightarrow> bool" where
  "values_ok s \<longleftrightarrow> (\<forall>k r. k < length (settled s) \<longrightarrow> snd (settled s ! k) = Settled_value r \<longrightarrow>
     k < length (received s) \<and> k < length (written s) \<and> received s ! k = r \<and> status r = status_ok)"

definition counts_ok :: "client_session \<Rightarrow> bool" where
  "counts_ok s \<longleftrightarrow> (active s \<longrightarrow> length (received s) = length (settled s) \<and>
     length (written s) = length (settled s) + (if operations s = [Async_read (round_index s)] then 1 else 0))"

definition fresh_ok :: "client_session \<Rightarrow> bool" where
  "fresh_ok s \<longleftrightarrow> distinct (map snd (submitted s))"

definition session_inv :: "client_session \<Rightarrow> bool" where
  "session_inv s \<longleftrightarrow> flight_ok s \<and> order_ok s \<and> backlog_ok s \<and> written_ok s \<and> values_ok s \<and> counts_ok s \<and>
     fresh_ok s"

lemmas clause_defs = flight_ok_def order_ok_def backlog_ok_def written_ok_def counts_ok_def

lemmas handler_defs = send_front_request_def emplace_response_parser_def fail_request_then_close_def
  on_recv_response_def on_send_request_def send_request_def send_request_posted_def complete_operation_def

lemma session_invD:
  assumes "session_inv s"
  shows "flight_ok s" "order_ok s" "backlog_ok s" "written_ok s" "values_ok s" "counts_ok s"
    "fresh_ok s" "length (settled s) \<le> length (submitted s)"
proof -
  show "flight_ok s" "order_ok s" "backlog_ok s" "written_ok s" "values_ok s" "counts_ok s" "fresh_ok s"
    using assms by (simp_all add: session_inv_def)
  have "length (map snd (submitted s)) = length (map fst (settled s) @ map snd (request_list s) @ map snd (posted s))"
    using assms by (simp only: session_inv_def order_ok_def)
  then show "length (settled s) \<le> length (submitted s)"
    by simp
qed

text \<open>Appending settlements without a value keeps the values; a value must be the next response.\<close>

lemma values_ok_exceptions:
  assumes "values_ok s" and "received t = received s" and "written t = written s"
    and "settled t = settled s @ xs" and "\<forall>x\<in>set xs. \<not> is_value (snd x)"
  shows "values_ok t"
  unfolding values_ok_def
proof (intro allI impI)
  fix k r assume k: "k < length (settled t)" and v: "snd (settled t ! k) = Settled_value r"
  have "k < length (settled s)"
  proof (rule ccontr)
    assume "\<not> k < length (settled s)"
    then have "settled t ! k \<in> set xs" using k assms(4) by (simp add: nth_append)
    then show False using assms(5) v by (metis is_value.simps(1))
  qed
  then show "k < length (received t) \<and> k < length (written t) \<and> received t ! k = r \<and> status r = status_ok"
    using assms(1-4) v by (simp add: values_ok_def nth_append)
qed

lemma values_ok_grow:
  assumes "values_ok s" and "settled t = settled s" and "received t = received s @ rs"
    and "written t = written s @ ws"
  shows "values_ok t"
  using assms by (auto simp: values_ok_def nth_append)

lemma values_ok_next:
  assumes "values_ok s" and "settled t = settled s @ [(p, Settled_value r)]" and "status r = status_ok"
    and "received t = received s @ [r]" and "length (received s) = length (settled s)"
    and "written t = written s" and "length (settled s) < length (written s)"
  shows "values_ok t"
  using assms by (auto simp: values_ok_def nth_append less_Suc_eq)

section \<open>Every event keeps the invariant and none faults\<close>

lemma session_create_inv: "session_inv session_create"
  by (simp add: session_inv_def clause_defs fresh_ok_def values_ok_def session_create_def)

lemma fresh_ok_same: "fresh_ok s \<Longrightarrow> submitted t = submitted s \<Longrightarrow> fresh_ok t"
  by (simp add: fresh_ok_def)

lemma send_request_inv:
  assumes "session_inv s" and "p \<notin> snd ` set (submitted s)"
  shows "session_inv (send_request req p s)"
proof -
  let ?t = "send_request req p s"
  have "fresh_ok ?t"
    using session_invD(7) [OF assms(1)] assms(2) by (auto simp: fresh_ok_def send_request_def)
  moreover have "values_ok ?t"
    using session_invD(5) [OF assms(1)] by (simp add: values_ok_def send_request_def)
  ultimately show ?thesis
    using session_invD [OF assms(1)]
    by (auto simp: session_inv_def clause_defs send_request_def split: list.splits)
qed

lemma closed_session:
  assumes "session_inv s" and "\<not> active s"
  shows "request_list s = []" and "operations s = []"
  using session_invD(1) [OF assms(1)] assms(2) by (auto simp: flight_ok_def split: list.splits)

lemma send_request_posted_safe:
  assumes inv: "session_inv s" and posted: "posted s = (req, p) # rest"
  shows "\<exists>t. send_request_posted req p (s\<lparr>posted := rest\<rparr>) = Inr t \<and> session_inv t"
proof (cases "active s")
  case False
  let ?t = "s\<lparr>posted := rest, settled := settled s @ [(p, Settled_exception (Session_closed_error, []))]\<rparr>"
  have "session_inv ?t"
    using session_invD [OF inv] posted False closed_session [OF inv False]
      values_ok_exceptions [of s ?t "[(p, Settled_exception (Session_closed_error, []))]"]
    by (simp add: session_inv_def clause_defs drop_tail fresh_ok_same)
  then show ?thesis
    using False by (simp add: send_request_posted_def)
next
  case True
  have v: "values_ok t" if "settled t = settled s" "received t = received s" "written t = written s" for t
    using that values_ok_exceptions [OF session_invD(5) [OF inv], of t "[]"] by simp
  show ?thesis
  proof (cases "request_list s")
    case Nil
    then show ?thesis
      using session_invD [OF inv] posted True
      by (simp add: session_inv_def clause_defs handler_defs Let_def v fresh_ok_same)
  next
    case (Cons a as)
    then show ?thesis
      using session_invD [OF inv] posted True
      by (cases a) (simp add: session_inv_def clause_defs handler_defs Let_def v fresh_ok_same)
  qed
qed

lemma fail_request_inv:
  assumes "order_ok s" "backlog_ok s" "written_ok s" "values_ok s" "fresh_ok s" "operations s = []"
  shows "session_inv (fail_request_then_close e errc operation s)"
proof -
  let ?xs = "map (\<lambda>(request, response). (response, Settled_exception e)) (request_list s)"
  let ?t = "fail_request_then_close e errc operation s"
  have "values_ok ?t"
    by (rule values_ok_exceptions [OF assms(4), where xs = ?xs]) (auto simp: fail_request_then_close_def)
  moreover have "map fst ?xs = map snd (request_list s)"
    by (simp add: case_prod_beta comp_def)
  moreover have "drop (length (settled s) + length (request_list s)) (submitted s) = posted s"
    using assms(2) by (simp add: backlog_ok_def drop_prefix)
  ultimately show ?thesis
    using assms
    by (auto simp: session_inv_def clause_defs fresh_ok_same fail_request_then_close_def)
qed

lemma in_flight:
  assumes "session_inv s" and "k < length (operations s)"
  obtains request p rest where "k = 0" and "request_list s = (request, p) # rest" and "active s"
    and "response_parser s \<noteq> None"
    and "operations s = [Async_write request (round_index s)] \<or> operations s = [Async_read (round_index s)]"
  using session_invD(1) [OF assms(1)] assms(2)
  by (auto simp: flight_ok_def split: list.splits prod.splits)

lemma write_complete_safe:
  assumes inv: "session_inv s" and ops: "operations s = [Async_write request index]"
  shows "\<exists>t. complete_operation (Async_write request index) errc response (s\<lparr>operations := []\<rparr>) = Inr t \<and>
    session_inv t"
proof (cases "failed errc")
  case True
  have "values_ok (s\<lparr>operations := []\<rparr>)"
    using session_invD(5) [OF inv] by (simp add: values_ok_def)
  then show ?thesis
    using True session_invD [OF inv] fail_request_inv [of "s\<lparr>operations := []\<rparr>"]
    by (simp add: complete_operation_def on_send_request_def clause_defs fresh_ok_same)
next
  case False
  obtain p rest where front: "request_list s = (request, p) # rest" "active s" "response_parser s \<noteq> None"
      "index = round_index s"
    using in_flight [OF inv, of 0] ops by auto
  let ?t = "s\<lparr>written := written s @ [request], operations := [Async_read index]\<rparr>"
  have n: "length (written s) = length (settled s)"
    using session_invD(6) [OF inv] front ops by (simp add: counts_ok_def)
  have next_call: "drop (length (written s)) (submitted s) = (request, p) # rest @ posted s"
    using session_invD(3) [OF inv] front n by (simp add: backlog_ok_def)
  then have "Suc (length (written s)) \<le> length (submitted s)"
    by (metis Suc_leI drop_eq_Nil2 leI list.discI)
  with next_call have "written_ok ?t"
    using session_invD(4) [OF inv] by (simp add: written_ok_def take_next)
  moreover have "values_ok ?t"
    by (rule values_ok_grow [OF session_invD(5) [OF inv], where rs = "[]" and ws = "[request]"]) simp_all
  ultimately have "session_inv ?t"
    using session_invD [OF inv] front n
    by (auto simp: session_inv_def flight_ok_def order_ok_def backlog_ok_def counts_ok_def fresh_ok_same)
  then show ?thesis
    using False front by (auto simp: complete_operation_def on_send_request_def)
qed

lemma read_complete_safe:
  assumes inv: "session_inv s" and ops: "operations s = [Async_read index]"
  shows "\<exists>t. complete_operation (Async_read index) errc response (s\<lparr>operations := []\<rparr>) = Inr t \<and>
    session_inv t"
proof -
  obtain request p rest where front: "request_list s = (request, p) # rest" "active s"
      "response_parser s \<noteq> None" "index = round_index s"
    by (rule in_flight [OF inv, of 0]) (use ops in auto)
  let ?r = "s\<lparr>operations := [], received := received s @ [response], response_parser := Some response\<rparr>"
  have vals: "values_ok (s\<lparr>operations := []\<rparr>)" "values_ok ?r"
    using session_invD(5) [OF inv] values_ok_grow [of s ?r "[response]" "[]"] by (simp_all add: values_ok_def)
  show ?thesis
  proof (cases "\<not> failed errc \<and> status response = status_ok")
    case False
    then show ?thesis
      using session_invD [OF inv] vals fail_request_inv [of "s\<lparr>operations := []\<rparr>"] fail_request_inv [of ?r]
      by (auto simp: complete_operation_def on_recv_response_def clause_defs fresh_ok_same)
  next
    case True
    let ?s1 = "?r\<lparr>settled := settled s @ [(p, Settled_value response)],
      response_parser := Some blank_response, request_list := rest\<rparr>"
    have n: "length (received s) = length (settled s)" "length (written s) = Suc (length (settled s))"
      using session_invD(6) [OF inv] front ops by (simp_all add: counts_ok_def)
    have v: "values_ok t" if "settled t = settled ?s1" "received t = received ?s1" "written t = written s" for t
      by (rule values_ok_next [OF session_invD(5) [OF inv], where p = p and r = response])
        (use that n True in simp_all)
    have "drop (Suc (length (settled s))) (submitted s) = rest @ posted s"
      using session_invD(3) [OF inv] front by (simp add: backlog_ok_def drop_tail)
    moreover have "written_ok t" if "submitted t = submitted s" "written t = written s" for t
      using that session_invD(4) [OF inv] by (simp add: written_ok_def)
    ultimately show ?thesis
      using True session_invD(2,7) [OF inv] front n v
      by (cases rest) (auto simp: session_inv_def flight_ok_def order_ok_def backlog_ok_def counts_ok_def
        complete_operation_def on_recv_response_def send_front_request_def emplace_response_parser_def
        Let_def fresh_ok_same)
  qed
qed

lemma event_safe:
  assumes inv: "session_inv s" and ev: "session_event e s = Some r"
  shows "\<exists>t. r = Inr t \<and> session_inv t"
proof (cases e)
  case (Call_send_request request promise)
  then show ?thesis
    using ev send_request_inv [OF inv] by (auto split: if_splits)
next
  case Run_posted
  then show ?thesis
    using ev send_request_posted_safe [OF inv] by (auto split: list.splits)
next
  case (Complete k errc response)
  then have k: "k < length (operations s)"
    and r: "r = complete_operation (operations s ! k) errc response
      (s\<lparr>operations := take k (operations s) @ drop (Suc k) (operations s)\<rparr>)"
    using ev by (auto split: if_splits)
  obtain request where "k = 0" "operations s = [Async_write request (round_index s)] \<or>
      operations s = [Async_read (round_index s)]"
    using in_flight [OF inv k] by metis
  then show ?thesis
    using r write_complete_safe [OF inv] read_complete_safe [OF inv] by auto
qed

lemma reachable_inv:
  assumes "session_step\<^sup>*\<^sup>* session_create s"
  shows "session_inv s"
  using assms
proof (induction rule: rtranclp_induct)
  case base
  show ?case by (rule session_create_inv)
next
  case (step s t)
  then show ?case using event_safe [of s] by (auto elim!: session_stepE)
qed

section \<open>The ledger of promises\<close>

definition session_issued :: "client_session \<Rightarrow> promise list" where
  "session_issued s = map snd (submitted s)"

definition session_settled :: "client_session \<Rightarrow> promise list" where
  "session_settled s = map fst (settled s)"

definition session_held :: "client_session \<Rightarrow> promise list" where
  "session_held s = map snd (request_list s) @ map snd (posted s)"

lemmas session_ledger_defs = session_issued_def session_settled_def session_held_def

text \<open>The steps of a session in a reachable state.\<close>

definition sound_step :: "client_session \<Rightarrow> client_session \<Rightarrow> bool" where
  "sound_step s t \<longleftrightarrow> session_inv s \<and> session_step s t"

lemma sound_step_inv: "sound_step s t \<Longrightarrow> session_inv t"
  using event_safe by (auto simp: sound_step_def elim!: session_stepE)

lemma session_sound_run:
  assumes "session_step\<^sup>*\<^sup>* session_create s"
  shows "sound_step\<^sup>*\<^sup>* session_create s"
  using assms
proof (induction rule: rtranclp_induct)
  case (step s t)
  then have "sound_step s t" by (simp add: sound_step_def reachable_inv)
  with step.IH show ?case by (rule rtranclp.rtrancl_into_rtrancl)
qed simp

interpretation session_ledger: fifo_ledger sound_step session_issued session_settled session_held
proof
  fix s t assume "sound_step s t"
  then show "session_issued t = session_settled t @ session_held t"
    using sound_step_inv session_invD(2) by (auto simp: session_ledger_defs order_ok_def)
qed

lemma session_created_ledger:
  "session_issued session_create = session_settled session_create @ session_held session_create"
  by (simp add: session_ledger_defs session_create_def)

section \<open>Progress\<close>

definition operation_weight :: "async_operation \<Rightarrow> nat" where
  "operation_weight op = (case op of Async_write _ _ \<Rightarrow> 2 | Async_read _ \<Rightarrow> 1)"

text \<open>What is left to do: a posted closure may queue a request, a queued request may write and read.\<close>

definition session_work :: "client_session \<Rightarrow> nat" where
  "session_work s = 6 * length (posted s) + 3 * length (request_list s) +
     sum_list (map operation_weight (operations s))"

lemma send_front_work: "send_front_request s = Inr t \<Longrightarrow> session_work t = session_work s + 2"
  by (auto simp: send_front_request_def emplace_response_parser_def session_work_def operation_weight_def
    Let_def split: list.splits)

lemma fail_work: "session_work (fail_request_then_close e errc operation s) \<le> session_work s"
  by (simp add: fail_request_then_close_def session_work_def)

lemma complete_work:
  assumes "complete_operation op errc response s = Inr t"
  shows "session_work t < session_work s + operation_weight op"
proof -
  have same: "session_work (s\<lparr>written := w\<rparr>) = session_work s"
    "session_work (s\<lparr>received := rs, response_parser := rp\<rparr>) = session_work s" for w rs rp
    by (simp_all add: session_work_def)
  have pop: "session_work (s\<lparr>received := rs, settled := st, response_parser := rp, request_list := tl (request_list s)\<rparr>) + 3
      = session_work s" if "request_list s \<noteq> []" for rs st rp
    using that by (cases "request_list s") (simp_all add: session_work_def)
  show ?thesis
  proof (cases op)
    case (Async_write request index)
    have "session_work (s\<lparr>written := w, operations := operations s @ [Async_read i]\<rparr>) = session_work s + 1" for w i
      by (simp add: session_work_def operation_weight_def)
    then show ?thesis
      using Async_write assms
      by (auto simp: complete_operation_def on_send_request_def operation_weight_def le_imp_less_Suc
        less_SucI [OF le_imp_less_Suc [OF fail_work]]
        split: if_splits option.splits)
  next
    case (Async_read index)
    show ?thesis
    proof (cases "failed errc \<or> status response \<noteq> status_ok")
      case True
      then show ?thesis
        using Async_read assms fail_work [of _ errc Shutdown_receive s]
          fail_work [of _ errc Shutdown_receive "s\<lparr>received := received s @ [response], response_parser := Some response\<rparr>"]
        by (cases "failed errc")
          (auto simp: complete_operation_def on_recv_response_def operation_weight_def le_imp_less_Suc same)
    next
      case False
      then show ?thesis
        using Async_read assms pop
        by (auto simp: complete_operation_def on_recv_response_def operation_weight_def Let_def
          split: list.splits if_splits dest!: send_front_work)
          (auto simp: session_work_def)
    qed
  qed
qed

lemma internal_work:
  assumes "internal_step s t"
  shows "session_work t < session_work s"
  using assms
proof (cases rule: internal_step.cases)
  case run_posted
  then obtain req p rest where posted: "posted s = (req, p) # rest"
    and run: "send_request_posted req p (s\<lparr>posted := rest\<rparr>) = Inr t"
    by (auto split: list.splits)
  then show ?thesis
    by (auto simp: send_request_posted_def Let_def session_work_def split: if_splits dest!: send_front_work)
next
  case (complete k errc response)
  let ?s = "s\<lparr>operations := take k (operations s) @ drop (Suc k) (operations s)\<rparr>"
  from complete have k: "k < length (operations s)"
    and run: "complete_operation (operations s ! k) errc response ?s = Inr t"
    by (auto split: if_splits)
  have "sum_list (map operation_weight (operations s)) =
      sum_list (map operation_weight (take k (operations s) @ operations s ! k # drop (Suc k) (operations s)))"
    using id_take_nth_drop [OF k] by simp
  then have "session_work s = session_work ?s + operation_weight (operations s ! k)"
    by (simp add: session_work_def)
  with complete_work [OF run] show ?thesis by simp
qed

lemma internal_session_step: "internal_step s t \<Longrightarrow> session_step s t"
  by (induction rule: internal_step.induct) (rule session_step.event, assumption)+

lemma internal_runs:
  assumes "(internal_step ^^ n) s t"
  shows "session_step\<^sup>*\<^sup>* s t \<and> n + session_work t \<le> session_work s"
  using assms
proof (induction n arbitrary: t)
  case (Suc n)
  then obtain u where "(internal_step ^^ n) s u" and "internal_step u t" by auto
  with Suc.IH internal_work internal_session_step show ?case
    by (fastforce intro: rtranclp.rtrancl_into_rtrancl)
qed simp

lemma stuck_session:
  assumes inv: "session_inv s" and stuck: "\<nexists>t. internal_step s t"
  shows "posted s = []" and "request_list s = []"
proof -
  have none: "session_event e s = None" if "e = Run_posted \<or> (\<exists>k. e = Complete k 0 blank_response)" for e
  proof (cases "session_event e s")
    case (Some r)
    then obtain t where "r = Inr t" using event_safe [OF inv] by blast
    with Some that have "internal_step s t" by (auto intro: internal_step.intros)
    with stuck show ?thesis by blast
  qed
  from none [of Run_posted] show "posted s = []"
    by (auto split: list.splits)
  from none [of "Complete 0 0 blank_response"] have "operations s = []"
    by (auto split: if_splits)
  with session_invD(1) [OF inv] show "request_list s = []"
    by (auto simp: flight_ok_def split: list.splits)
qed

section \<open>Properties\<close>

fun run_events :: "client_event list \<Rightarrow> client_session \<Rightarrow> client_session option" where
  "run_events [] s = Some s"
| "run_events (e # es) s = (case session_event e s of Some (Inr t) \<Rightarrow> run_events es t | _ \<Rightarrow> None)"

lemma run_events_reach: "run_events es s = Some t \<Longrightarrow> session_step\<^sup>*\<^sup>* s t"
  by (induction es arbitrary: s)
    (auto split: option.splits sum.splits intro: session_step.event converse_rtranclp_into_rtranclp)

text \<open>
  Claim C1. No handler of the client session fails, whatever the callers do and however the network
  answers: in every reachable state no event dereferences an empty queue or a missing parser, at
  most one asynchronous operation is in flight, and there is one exactly when a request is queued.
\<close>

theorem session_never_faults:
  assumes "session_step\<^sup>*\<^sup>* session_create s"
  shows "session_event e s \<noteq> Some (Inl f) \<and> length (operations s) \<le> 1 \<and>
    (operations s = []) = (request_list s = [])"
proof -
  note inv = reachable_inv [OF assms]
  from event_safe [OF inv] have "session_event e s \<noteq> Some (Inl f)" by fastforce
  with session_invD(1) [OF inv] show ?thesis
    by (auto simp: flight_ok_def split: list.splits)
qed

definition sample_request :: http_request where
  "sample_request = \<lparr>version = 11, http_method = Get, target = ''/a'', keep_alive = True, host = ''h''\<rparr>"

definition sample_response :: http_response where
  "sample_response = \<lparr>status = 200, reason = ''OK'', body = [7]\<rparr>"

definition sample_events :: "client_event list" where
  "sample_events = [Call_send_request sample_request 0, Call_send_request sample_request 1, Run_posted,
     Run_posted, Complete 0 0 sample_response, Complete 0 0 sample_response,
     Complete 0 0 sample_response, Complete 0 5 sample_response]"

lemmas sample_defs = sample_events_def sample_request_def sample_response_def session_create_def
  handler_defs Let_def failed_def status_ok_def close_socket_errc_def close_socket_def

lemma sample_run:
  obtains s where "run_events sample_events session_create = Some s"
    and "settled s = [(0, Settled_value sample_response), (1, Settled_exception (Bad_response_error, [Code 5]))]"
    and "written s = [sample_request, sample_request]" and "received s = [sample_response]"
    and "request_list s = []" and "operations s = []" and "posted s = []"
    and "submitted s = [(sample_request, 0), (sample_request, 1)]"
  by (simp add: sample_defs)

theorem session_never_faults_witness:
  "\<exists>s::client_session. settled s = [(0, Settled_value sample_response), (1, Settled_exception (Bad_response_error, [Code 5]))] \<and>
     session_event Run_posted s \<noteq> Some (Inl Undefined_behaviour) \<and> length (operations s) \<le> 1 \<and>
     (operations s = []) = (request_list s = [])"
proof -
  obtain s where run: "run_events sample_events session_create = Some s"
    and s: "settled s = [(0, Settled_value sample_response), (1, Settled_exception (Bad_response_error, [Code 5]))]"
      "written s = [sample_request, sample_request]" "received s = [sample_response]"
      "submitted s = [(sample_request, 0), (sample_request, 1)]"
    by (rule sample_run)
  show ?thesis
    using session_never_faults [OF run_events_reach [OF run], of Run_posted Undefined_behaviour] s by - (rule exI [of _ s], simp)
qed

text \<open>
  Claim C3. Promises are settled in the order of the calls of \<open>send_request\<close> and none is settled twice;
  the promises not yet settled are the queued ones followed by the posted ones.
\<close>

theorem promises_settled_in_order:
  assumes "session_step\<^sup>*\<^sup>* session_create s"
  shows "map snd (submitted s) = map fst (settled s) @ map snd (request_list s) @ map snd (posted s) \<and>
    distinct (map fst (settled s))"
proof
  show "map snd (submitted s) = map fst (settled s) @ map snd (request_list s) @ map snd (posted s)"
    using session_ledger.run_fifo [OF session_sound_run [OF assms] session_created_ledger]
    by (simp add: session_ledger_defs)
  have "distinct (session_issued s)"
    using session_invD(7) [OF reachable_inv [OF assms]] by (simp add: fresh_ok_def session_issued_def)
  then show "distinct (map fst (settled s))"
    using session_ledger.settled_distinct(1) [OF session_sound_run [OF assms] session_created_ledger]
    by (simp add: session_settled_def)
qed

theorem promises_settled_in_order_witness:
  "\<exists>s::client_session. length (submitted s) = 2 \<and>
     map snd (submitted s) = map fst (settled s) @ map snd (request_list s) @ map snd (posted s) \<and>
     distinct (map fst (settled s))"
proof -
  obtain s where run: "run_events sample_events session_create = Some s"
    and s: "settled s = [(0, Settled_value sample_response), (1, Settled_exception (Bad_response_error, [Code 5]))]"
      "written s = [sample_request, sample_request]" "received s = [sample_response]"
      "submitted s = [(sample_request, 0), (sample_request, 1)]"
    by (rule sample_run)
  show ?thesis
    using promises_settled_in_order [OF run_events_reach [OF run]] s by - (rule exI [of _ s], simp)
qed

text \<open>
  Claim C2. Responses are not mixed up: if the \<open>k\<close>th call of \<open>send_request\<close> is answered with a value,
  that value is the \<open>k\<close>th response read from the socket, its status is 200, and the \<open>k\<close>th request
  written to the socket is the one of that call.
\<close>

theorem response_matches_request:
  assumes "session_step\<^sup>*\<^sup>* session_create s"
    and "k < length (settled s)" and "settled s ! k = (p, Settled_value response)"
  shows "k < length (submitted s) \<and> snd (submitted s ! k) = p \<and> k < length (written s) \<and>
    written s ! k = fst (submitted s ! k) \<and> k < length (received s) \<and> received s ! k = response \<and>
    status response = status_ok"
proof -
  note inv = session_invD [OF reachable_inv [OF assms(1)]]
  from inv(2) have eq: "map snd (submitted s) = map fst (settled s) @ map snd (request_list s) @ map snd (posted s)"
    by (simp add: order_ok_def)
  from assms(2) inv(8) have k: "k < length (submitted s)" by simp
  from arg_cong [OF eq, of "\<lambda>xs. xs ! k"] assms(2,3) k have "snd (submitted s ! k) = p"
    by (simp add: nth_append)
  moreover have vals: "k < length (received s)" "k < length (written s)" "received s ! k = response"
      "status response = status_ok"
    using inv(5) assms(2,3) unfolding values_ok_def by simp_all
  moreover have "written s ! k = fst (submitted s ! k)"
  proof -
    have "written s = map fst (take (length (written s)) (submitted s))"
      using inv(4) by (simp add: written_ok_def)
    then have "written s ! k = map fst (take (length (written s)) (submitted s)) ! k" by simp
    also have "\<dots> = fst (submitted s ! k)" using k vals(2) by simp
    finally show ?thesis .
  qed
  ultimately show ?thesis using k by simp
qed

theorem response_matches_request_witness:
  "\<exists>s::client_session. received s = [sample_response] \<and> written s ! 0 = fst (submitted s ! 0) \<and> received s ! 0 = sample_response"
proof -
  obtain s where run: "run_events sample_events session_create = Some s"
    and s: "settled s = [(0, Settled_value sample_response), (1, Settled_exception (Bad_response_error, [Code 5]))]"
      "written s = [sample_request, sample_request]" "received s = [sample_response]"
      "submitted s = [(sample_request, 0), (sample_request, 1)]"
    by (rule sample_run)
  show ?thesis
    using response_matches_request [OF run_events_reach [OF run], of 0 0 sample_response] s by - (rule exI [of _ s], simp)
qed

text \<open>
  Claim C4. The session answers every request: with no new call, any run of the strand and of the
  network from a reachable state takes at most \<open>session_work\<close> steps, and when no step is left every
  promise handed out has been settled.
\<close>

theorem every_request_answered:
  assumes "session_step\<^sup>*\<^sup>* session_create s" and "(internal_step ^^ n) s t"
  shows "n \<le> session_work s \<and>
    ((\<exists>u. internal_step t u) \<or> map fst (settled t) = map snd (submitted t))"
proof -
  from internal_runs [OF assms(2)] have run: "session_step\<^sup>*\<^sup>* s t" and n: "n \<le> session_work s" by auto
  have inv: "session_inv t"
    using reachable_inv [OF rtranclp_trans [OF assms(1) run]] .
  show ?thesis
    using n stuck_session [OF inv] session_invD(2) [OF inv] by (auto simp: order_ok_def)
qed

theorem every_request_answered_witness:
  "\<exists>s::client_session. (0::nat) \<le> session_work s \<and> map fst (settled s) = [0, 1] \<and>
     ((\<exists>u. internal_step s u) \<or> map fst (settled s) = map snd (submitted s))"
proof -
  obtain s where run: "run_events sample_events session_create = Some s"
    and s: "settled s = [(0, Settled_value sample_response), (1, Settled_exception (Bad_response_error, [Code 5]))]"
      "written s = [sample_request, sample_request]" "received s = [sample_response]"
      "submitted s = [(sample_request, 0), (sample_request, 1)]"
    by (rule sample_run)
  show ?thesis
    using every_request_answered [OF run_events_reach [OF run], of 0 s] s by - (rule exI [of _ s], simp)
qed

text \<open>
  The status check of \<open>send_request_for\<close> never fires on a session: a promise settled with a
  value carries status 200, so the future of \<open>send_request_for\<close> is the body of that response, or the
  exception of the session.
\<close>

theorem send_request_for_body:
  assumes "session_step\<^sup>*\<^sup>* session_create s" and "(p, v) \<in> set (settled s)"
  shows "send_request_for True v =
    (case v of Settled_value response \<Rightarrow> Settled_value (body response) | Settled_exception e \<Rightarrow> Settled_exception e)"
proof (cases v)
  case (Settled_value response)
  obtain k where "k < length (settled s)" "settled s ! k = (p, v)"
    using assms(2) by (meson in_set_conv_nth)
  then show ?thesis
    using session_invD(5) [OF reachable_inv [OF assms(1)]] Settled_value by (auto simp: values_ok_def)
qed simp

theorem send_request_for_body_witness:
  "\<exists>s::client_session. settled s = [(0, Settled_value sample_response), (1, Settled_exception (Bad_response_error, [Code 5]))] \<and>
     send_request_for True (Settled_value sample_response) = Settled_value [7]"
proof -
  obtain s where run: "run_events sample_events session_create = Some s"
    and s: "settled s = [(0, Settled_value sample_response), (1, Settled_exception (Bad_response_error, [Code 5]))]"
      "written s = [sample_request, sample_request]" "received s = [sample_response]"
      "submitted s = [(sample_request, 0), (sample_request, 1)]"
    by (rule sample_run)
  show ?thesis
    using send_request_for_body [OF run_events_reach [OF run], of 0 "Settled_value sample_response"] s by - (rule exI [of _ s], simp add: sample_response_def)
qed

end
