(* ===== verification/Server_Session.thy ===== *)
theory Server_Session
  imports Net_Http
begin

text \<open>
  \<^verbatim>\<open>src/network/session.server.h\<close> and \<^verbatim>\<open>session.server.cpp\<close>: the HTTP server session. It reads a
  request, answers it with the file its target names or with \<^verbatim>\<open>bad_request\<close>, and reads the next one,
  until a failure or a message that ends the connection; then it closes the socket and completes.

  The file system (what exists, what can be opened) and the library's \<open>need_eof\<close> are parameters.
\<close>

section \<open>State\<close>

text \<open>
  A response as the code builds it: the fields it sets, \<open>None\<close> where it sets none.
\<close>

record server_response =
  response_status :: nat
  response_version :: nat
  response_file :: "byte list option"
  response_content_length :: "nat option"
  response_server :: "string option"
  response_keep_alive :: "bool option"

datatype server_operation = Read_request | Write_response server_response

datatype exchange = Received http_request | Answered server_response

record server_session =
  root_path :: string
  process_called :: bool
  completion :: bool \<comment> \<open>the completion promise is fulfilled\<close>
  server_operations :: "server_operation list"
  server_socket :: "socket_call list"
  exchanges :: "exchange list" \<comment> \<open>requests taken up and responses written out, in order\<close>

text \<open>What the session asks of the file system; \<open>exists\<close> can throw.\<close>

record file_service =
  path_exists :: "string \<Rightarrow> bool outcome"
  open_file :: "string \<Rightarrow> byte list option"

record message_traits =
  request_need_eof :: "http_request \<Rightarrow> bool"
  response_need_eof :: "server_response \<Rightarrow> bool"

definition server_session_create :: "(string \<Rightarrow> bool) \<Rightarrow> string \<Rightarrow> server_session outcome" where
  "server_session_create is_dir root =
     assert_that (is_dir root)
       (Inr \<lparr>root_path = root, process_called = False, completion = False, server_operations = [],
             server_socket = [], exchanges = []\<rparr>)"

section \<open>Operations\<close>

definition concat_target_path :: "string \<Rightarrow> string \<Rightarrow> string" where
  "concat_target_path root request_target = root @ request_target"

definition file_response_body :: "file_service \<Rightarrow> string \<Rightarrow> byte list outcome" where
  "file_response_body files file_target =
     (case open_file files file_target of None \<Rightarrow> Inl Assert_failed | Some bytes \<Rightarrow> Inr bytes)"

definition close_socket_then_complete ::
  "error_code \<Rightarrow> shutdown_type \<Rightarrow> server_session \<Rightarrow> server_session outcome" where
  "close_socket_then_complete errc operation s =
     (if completion s then Inl (Throw Logic_error)
      else Inr (s\<lparr>server_socket := close_socket (server_socket s) operation, completion := True\<rparr>))"

definition receive_request :: "server_session \<Rightarrow> server_session" where
  "receive_request s = s\<lparr>server_operations := server_operations s @ [Read_request]\<rparr>"

text \<open>The future can be taken once; taking it again throws.\<close>

definition process_requests :: "server_session \<Rightarrow> server_session outcome" where
  "process_requests s =
     (if process_called s then Inl (Throw Logic_error)
      else Inr (receive_request (s\<lparr>process_called := True\<rparr>)))"

definition file_response :: "http_request \<Rightarrow> byte list \<Rightarrow> server_response" where
  "file_response request bytes =
     \<lparr>response_status = status_ok, response_version = version request, response_file = Some bytes,
      response_content_length = Some (length bytes), response_server = Some ''MetaPlus'',
      response_keep_alive = Some (keep_alive request)\<rparr>"

definition bad_request_response :: "http_request \<Rightarrow> server_response" where
  "bad_request_response request =
     \<lparr>response_status = status_bad_request, response_version = version request, response_file = None,
      response_content_length = None, response_server = None, response_keep_alive = None\<rparr>"

definition send_response :: "server_response \<Rightarrow> server_session \<Rightarrow> server_session" where
  "send_response response s =
     s\<lparr>server_operations := server_operations s @ [Write_response response]\<rparr>"

definition on_recv_request ::
  "file_service \<Rightarrow> message_traits \<Rightarrow> error_code \<Rightarrow> http_request \<Rightarrow> server_session \<Rightarrow>
   server_session outcome" where
  "on_recv_request files traits errc request s =
     (if failed errc \<or> request_need_eof traits request
      then close_socket_then_complete errc Shutdown_receive s
      else let target_path = concat_target_path (root_path s) (target request);
               s1 = s\<lparr>exchanges := exchanges s @ [Received request]\<rparr>
           in and_then (path_exists files target_path) (\<lambda>found.
                if found
                then and_then (file_response_body files target_path) (\<lambda>response_body.
                       Inr (send_response (file_response request response_body) s1))
                else Inr (send_response (bad_request_response request) s1)))"

definition on_send_response ::
  "message_traits \<Rightarrow> server_response \<Rightarrow> error_code \<Rightarrow> server_session \<Rightarrow> server_session outcome" where
  "on_send_response traits response errc s =
     (let s1 = (if failed errc then s else s\<lparr>exchanges := exchanges s @ [Answered response]\<rparr>)
      in if failed errc \<or> response_need_eof traits response
         then close_socket_then_complete errc Shutdown_send s1
         else Inr (receive_request s1))"

section \<open>Runs\<close>

datatype server_input =
    Call_process_requests
  | Complete_operation nat error_code http_request

fun server_event ::
  "file_service \<Rightarrow> message_traits \<Rightarrow> server_input \<Rightarrow> server_session \<Rightarrow> server_session outcome option" where
  "server_event files traits Call_process_requests s =
     (if process_called s then None else Some (process_requests s))"
| "server_event files traits (Complete_operation k errc request) s =
     (if k < length (server_operations s)
      then let s1 = s\<lparr>server_operations := take k (server_operations s) @ drop (Suc k) (server_operations s)\<rparr>
           in Some (case server_operations s ! k of
                Read_request \<Rightarrow> on_recv_request files traits errc request s1
              | Write_response response \<Rightarrow> on_send_response traits response errc s1)
      else None)"

inductive server_step :: "file_service \<Rightarrow> message_traits \<Rightarrow> server_session \<Rightarrow> server_session \<Rightarrow> bool"
  for files :: file_service and traits :: message_traits where
  server_event: "server_event files traits i s = Some (Inr t) \<Longrightarrow> server_step files traits s t"

section \<open>The abstract server\<close>

text \<open>The answer to a request: the file, or the error response when there is no such path.\<close>

definition answer :: "file_service \<Rightarrow> string \<Rightarrow> http_request \<Rightarrow> server_response option" where
  "answer files root request =
     (case path_exists files (root @ target request) of
        Inr True \<Rightarrow> map_option (file_response request) (open_file files (root @ target request))
      | Inr False \<Rightarrow> Some (bad_request_response request)
      | Inl e \<Rightarrow> None)"

text \<open>Every request is followed by its answer; the last one may still be waiting for it.\<close>

fun alternating :: "(http_request \<Rightarrow> server_response option) \<Rightarrow> exchange list \<Rightarrow> bool" where
  "alternating ans [] \<longleftrightarrow> True"
| "alternating ans [Received request] \<longleftrightarrow> ans request \<noteq> None"
| "alternating ans (Received request # Answered response # es) \<longleftrightarrow>
     ans request = Some response \<and> alternating ans es"
| "alternating ans _ \<longleftrightarrow> False"

text \<open>The request that waits for its answer.\<close>

definition waiting :: "exchange list \<Rightarrow> http_request option" where
  "waiting es = (if es = [] then None
     else case last es of Received request \<Rightarrow> Some request | Answered response \<Rightarrow> None)"

definition server_inv :: "file_service \<Rightarrow> string \<Rightarrow> server_session \<Rightarrow> bool" where
  "server_inv files root s \<longleftrightarrow> root_path s = root \<and> alternating (answer files root) (exchanges s) \<and>
     (if process_called s \<and> \<not> completion s
      then (case waiting (exchanges s) of
              None \<Rightarrow> server_operations s = [Read_request]
            | Some request \<Rightarrow> \<exists>response. answer files root request = Some response \<and>
                server_operations s = [Write_response response])
      else server_operations s = [] \<and> (completion s \<longrightarrow> process_called s) \<and>
        (\<not> process_called s \<longrightarrow> exchanges s = []))"

lemma waiting_snoc [simp]:
  "waiting [] = None"
  "waiting (es @ [Received request]) = Some request"
  "waiting (es @ [Answered response]) = None"
  by (simp_all add: waiting_def)

lemma waiting_Cons: "es \<noteq> [] \<Longrightarrow> waiting (e # es) = waiting es"
  by (simp add: waiting_def)

lemma alternating_request:
  "alternating ans es \<Longrightarrow> waiting es = None \<Longrightarrow> ans request \<noteq> None \<Longrightarrow>
     alternating ans (es @ [Received request])"
proof (induction ans es rule: alternating.induct)
  case (3 ans requesta response es)
  then show ?case by (cases "es = []") (auto simp: waiting_Cons)
qed (auto simp: waiting_def)

lemma alternating_response:
  "alternating ans es \<Longrightarrow> waiting es = Some request \<Longrightarrow> ans request = Some response \<Longrightarrow>
     alternating ans (es @ [Answered response])"
proof (induction ans es rule: alternating.induct)
  case (3 ans requesta responsea es)
  then show ?case by (cases "es = []") (auto simp: waiting_Cons, simp add: waiting_def)
qed (auto simp: waiting_def)

lemmas server_handler_defs = on_recv_request_def on_send_response_def close_socket_then_complete_def
  receive_request_def send_response_def concat_target_path_def file_response_body_def process_requests_def

lemma on_recv_request_inv:
  assumes inv: "server_inv files root s" and ops: "server_operations s = [Read_request]"
    and run: "on_recv_request files traits errc request (s\<lparr>server_operations := []\<rparr>) = Inr t"
  shows "server_inv files root t"
proof -
  from inv ops have live: "process_called s" "\<not> completion s" "waiting (exchanges s) = None"
      "root_path s = root" "alternating (answer files root) (exchanges s)"
    by (auto simp: server_inv_def split: if_splits option.splits)
  show ?thesis
  proof (cases "failed errc \<or> request_need_eof traits request")
    case True
    then show ?thesis
      using run live by (auto simp: server_handler_defs server_inv_def)
  next
    case False
    let ?s1 = "s\<lparr>server_operations := [], exchanges := exchanges s @ [Received request]\<rparr>"
    from False run live(4) have step: "and_then (path_exists files (root @ target request)) (\<lambda>found.
        if found
        then and_then (file_response_body files (root @ target request)) (\<lambda>response_body.
               Inr (send_response (file_response request response_body) ?s1))
        else Inr (send_response (bad_request_response request) ?s1)) = Inr t"
      by (simp add: on_recv_request_def concat_target_path_def Let_def)
    obtain response where t: "t = send_response response ?s1"
      and ans: "answer files root request = Some response"
    proof (cases "path_exists files (root @ target request)")
      case (Inr found)
      then show ?thesis
        using step that
        by (cases found; cases "open_file files (root @ target request)")
          (auto simp: answer_def file_response_body_def)
    qed (use step in simp)
    show ?thesis
      using live ans alternating_request [OF live(5,3), of request]
      by (simp add: t server_inv_def send_response_def)
  qed
qed

lemma on_send_response_safe:
  assumes inv: "server_inv files root s" and ops: "server_operations s = [Write_response response]"
  shows "\<exists>t. on_send_response traits response errc (s\<lparr>server_operations := []\<rparr>) = Inr t \<and>
    server_inv files root t"
proof -
  from inv ops obtain request where live: "process_called s" "\<not> completion s"
      "waiting (exchanges s) = Some request" "answer files root request = Some response"
      "root_path s = root" "alternating (answer files root) (exchanges s)"
    by (auto simp: server_inv_def split: if_splits option.splits)
  show ?thesis
    using live alternating_response [OF live(6,3,4)]
    by (auto simp: server_handler_defs server_inv_def Let_def)
qed

lemma server_event_safe:
  assumes inv: "server_inv files root s" and ev: "server_event files traits i s = Some r"
  shows "(\<exists>t. r = Inr t \<and> server_inv files root t) \<or>
    (\<exists>(request::http_request) e. r = Inl e \<and> (path_exists files (root @ target request) = Inl e \<or>
        e = Assert_failed \<and> open_file files (root @ target request) = None))"
proof (cases i)
  case Call_process_requests
  then show ?thesis
    using inv ev by (auto simp: server_inv_def server_handler_defs split: if_splits)
next
  case (Complete_operation k errc request)
  then have k: "k < length (server_operations s)" using ev by (auto split: if_splits)
  then have "k = 0" and ops: "server_operations s = [Read_request] \<or>
      (\<exists>response. server_operations s = [Write_response response])"
    using inv by (auto simp: server_inv_def split: if_splits option.splits)
  from ops show ?thesis
  proof
    assume read: "server_operations s = [Read_request]"
    then have r: "r = on_recv_request files traits errc request (s\<lparr>server_operations := []\<rparr>)"
      using ev Complete_operation \<open>k = 0\<close> by simp
    show ?thesis
    proof (cases r)
      case (Inr t)
      then show ?thesis using r on_recv_request_inv [OF inv read, of traits errc request t] by simp
    next
      case (Inl e)
      have "root_path s = root" "\<not> completion s"
        using inv read by (auto simp: server_inv_def split: if_splits)
      then have "path_exists files (root @ target request) = Inl e \<or>
          e = Assert_failed \<and> open_file files (root @ target request) = None"
        using r Inl
        by (cases "path_exists files (root @ target request)")
          (auto simp: server_handler_defs Let_def split: if_splits option.splits)
      with Inl show ?thesis by blast
    qed
  next
    assume "\<exists>response. server_operations s = [Write_response response]"
    then obtain response where wr: "server_operations s = [Write_response response]" by blast
    then have "r = on_send_response traits response errc (s\<lparr>server_operations := []\<rparr>)"
      using ev Complete_operation \<open>k = 0\<close> by simp
    then show ?thesis using on_send_response_safe [OF inv wr] by auto
  qed
qed

lemma server_created_inv:
  "server_session_create is_dir root = Inr s \<Longrightarrow> server_inv files root s"
  by (auto simp: server_session_create_def outcome_simps server_inv_def)

lemma server_reachable_inv:
  assumes "(server_step files traits)\<^sup>*\<^sup>* s0 s" and "server_session_create is_dir root = Inr s0"
  shows "server_inv files root s"
  using assms(1)
proof (induction rule: rtranclp_induct)
  case base
  show ?case by (rule server_created_inv [OF assms(2)])
next
  case (step s t)
  then show ?case using server_event_safe [OF step.IH] by (fastforce elim: server_step.cases)
qed

section \<open>Properties\<close>


text \<open>
  Claim C12. The server answers in order: in every reachable state the requests taken up and the
  responses written alternate, and each response is the answer to the request before it: the file at
  the root followed by the target with status 200, or status 400 when there is no such path.
\<close>

theorem server_answers_in_order:
  assumes "server_session_create is_dir root = Inr s0" and "(server_step files traits)\<^sup>*\<^sup>* s0 s"
  shows "alternating (answer files root) (exchanges s)"
  using server_reachable_inv [OF assms(2,1)] by (simp add: server_inv_def)

fun run_server ::
  "file_service \<Rightarrow> message_traits \<Rightarrow> server_input list \<Rightarrow> server_session \<Rightarrow> server_session option" where
  "run_server files traits [] s = Some s"
| "run_server files traits (i # is) s =
     (case server_event files traits i s of Some (Inr t) \<Rightarrow> run_server files traits is t | _ \<Rightarrow> None)"

lemma run_server_steps: "run_server files traits is s = Some t \<Longrightarrow> (server_step files traits)\<^sup>*\<^sup>* s t"
  by (induction "is" arbitrary: s)
    (auto split: option.splits sum.splits intro: server_step.intros converse_rtranclp_into_rtranclp)

definition sample_files :: file_service where
  "sample_files = \<lparr>path_exists = (\<lambda>p. Inr (p = ''/srv/a'' \<or> p = ''/srv/'')),
     open_file = (\<lambda>p. if p = ''/srv/a'' then Some [1, 2] else None)\<rparr>"

definition sample_traits :: message_traits where
  "sample_traits = \<lparr>request_need_eof = (\<lambda>r. \<not> keep_alive r),
     response_need_eof = (\<lambda>r. response_content_length r = None)\<rparr>"

definition sample_get :: "string \<Rightarrow> http_request" where
  "sample_get t = \<lparr>version = 11, http_method = Get, target = t, keep_alive = True, host = ''h''\<rparr>"

definition sample_server :: server_session where
  "sample_server = \<lparr>root_path = ''/srv'', process_called = False, completion = False,
     server_operations = [], server_socket = [], exchanges = []\<rparr>"

lemmas sample_server_defs = sample_files_def sample_traits_def sample_get_def sample_server_def
  server_handler_defs file_response_def bad_request_response_def failed_def status_ok_def Let_def


theorem server_answers_in_order_witness:
  "\<exists>s::server_session. exchanges s = [Received (sample_get ''/a''), Answered (file_response (sample_get ''/a'') [1, 2]),
       Received (sample_get ''/b'')] \<and>
     alternating (answer sample_files ''/srv'') (exchanges s)"
proof -
  have create: "server_session_create (\<lambda>d. True) ''/srv'' = Inr sample_server"
    by (simp add: server_session_create_def sample_server_def)
  obtain s where run: "run_server sample_files sample_traits [Call_process_requests,
        Complete_operation 0 0 (sample_get ''/a''), Complete_operation 0 0 (sample_get ''/a''),
        Complete_operation 0 0 (sample_get ''/b'')] sample_server = Some s"
    and s: "exchanges s = [Received (sample_get ''/a''), Answered (file_response (sample_get ''/a'') [1, 2]),
       Received (sample_get ''/b'')]"
    by (simp add: sample_server_defs)
  show ?thesis
    using server_answers_in_order [OF create run_server_steps [OF run]] s by - (rule exI [of _ s], simp)
qed

section \<open>Targets that leave the root\<close>

text \<open>What a path names: \<^verbatim>\<open>.\<close> and empty elements are skipped and \<^verbatim>\<open>..\<close> goes up.\<close>

definition resolve_element :: "string list \<Rightarrow> string \<Rightarrow> string list" where
  "resolve_element p f =
     (if f = [] \<or> f = ''.'' then p else if f = ''..'' then butlast p else p @ [f])"

definition resolve :: "string \<Rightarrow> string list" where
  "resolve p = foldl resolve_element [] (split_on (CHR ''/'') p)"

lemma resolve_below:
  "''..'' \<notin> set fs \<Longrightarrow> \<exists>qs. foldl resolve_element p fs = p @ qs"
proof (induction fs arbitrary: p)
  case (Cons f fs)
  then have "\<exists>qs. resolve_element p f = p @ qs" by (auto simp: resolve_element_def)
  then obtain qs where "resolve_element p f = p @ qs" by blast
  with Cons.IH [of "p @ qs"] Cons.prems show ?case by auto
qed simp

text \<open>
  \<open>concat_target_path\<close> does not keep a request inside the root directory: a target without
  \<^verbatim>\<open>..\<close> that starts with a slash names a path below the root, but the target \<^verbatim>\<open>/../f\<close> names \<open>f\<close> beside
  the root, and the code has no check against it.
\<close>

theorem target_path_and_root:
  "resolve (concat_target_path root (''/../'' @ f)) =
     foldl resolve_element (butlast (resolve root)) (split_on (CHR ''/'') f) \<and>
   (''..'' \<in> set (split_on (CHR ''/'') f) \<or>
     (\<exists>qs. resolve (concat_target_path root (''/'' @ f)) = resolve root @ qs))"
proof
  have "concat_target_path root (''/../'' @ f) = root @ CHR ''/'' # ''..'' @ CHR ''/'' # f"
    by (simp add: concat_target_path_def)
  then show "resolve (concat_target_path root (''/../'' @ f)) =
      foldl resolve_element (butlast (resolve root)) (split_on (CHR ''/'') f)"
    by (simp only: resolve_def split_on_split) (simp add: resolve_element_def)
  show "''..'' \<in> set (split_on (CHR ''/'') f) \<or>
      (\<exists>qs. resolve (concat_target_path root (''/'' @ f)) = resolve root @ qs)"
    using resolve_below [of "split_on (CHR ''/'') f"]
    by (auto simp: resolve_def concat_target_path_def split_on_split)
qed

end
