(* ===== verification/Http_Exchange.thy ===== *)
theory Http_Exchange
  imports Client_Session Server_Session "HOL-Library.Sublist"
begin

text \<open>
  The client session (\<^verbatim>\<open>src/network/session.client.cpp\<close>) and the server session
  (\<^verbatim>\<open>src/network/session.server.cpp\<close>) at the two ends of a connection. The connection is the library's
  and the network's: what an end reads is a prefix of what the other end has sent, in order.
\<close>

section \<open>What the ends have sent and read\<close>

text \<open>Requests and responses leave before their write completes, so those in flight count as sent.\<close>

definition sent_requests :: "client_session \<Rightarrow> http_request list" where
  "sent_requests s = written s @
     (case operations s of [Async_write request index] \<Rightarrow> [request] | _ \<Rightarrow> [])"

fun taken_of :: "exchange list \<Rightarrow> http_request list" where
  "taken_of [] = []"
| "taken_of (Received request # es) = request # taken_of es"
| "taken_of (Answered response # es) = taken_of es"

fun answered_of :: "exchange list \<Rightarrow> server_response list" where
  "answered_of [] = []"
| "answered_of (Received request # es) = answered_of es"
| "answered_of (Answered response # es) = response # answered_of es"

definition taken_requests :: "server_session \<Rightarrow> http_request list" where
  "taken_requests t = taken_of (exchanges t)"

definition sent_responses :: "server_session \<Rightarrow> server_response list" where
  "sent_responses t = answered_of (exchanges t) @
     (case server_operations t of [Write_response response] \<Rightarrow> [response] | _ \<Rightarrow> [])"

section \<open>Each response answers its request\<close>

lemma alternating_answers:
  "alternating ans es \<Longrightarrow> list_all2 (\<lambda>r x. ans r = Some x) (take (length (answered_of es)) (taken_of es)) (answered_of es) \<and>
     (case waiting es of
        None \<Rightarrow> length (taken_of es) = length (answered_of es)
      | Some request \<Rightarrow> taken_of es = take (length (answered_of es)) (taken_of es) @ [request])"
proof (induction ans es rule: alternating.induct)
  case (3 ans request response es)
  then show ?case by (cases "es = []") (auto simp: waiting_Cons waiting_def split: option.splits)
qed (auto simp: waiting_def)

lemma answers_match:
  assumes inv: "server_inv files root t" and k: "k < length (sent_responses t)"
  shows "k < length (taken_requests t) \<and> answer files root (taken_requests t ! k) = Some (sent_responses t ! k)"
proof -
  let ?as = "answered_of (exchanges t)" and ?rs = "taken_of (exchanges t)"
  from inv have alt: "alternating (answer files root) (exchanges t)" by (simp add: server_inv_def)
  note a = alternating_answers [OF alt]
  have pairs: "list_all2 (\<lambda>r x. answer files root r = Some x) (take (length ?as) ?rs) ?as" using a by blast
  show ?thesis
  proof (cases "k < length ?as")
    case True
    then have "answer files root (take (length ?as) ?rs ! k) = Some (?as ! k)"
      by (rule list_all2_nthD2 [OF pairs])
    moreover have "length ?as \<le> length ?rs" using list_all2_lengthD [OF pairs] by simp
    ultimately show ?thesis using True by (simp add: taken_requests_def sent_responses_def nth_append)
  next
    case False
    with k obtain response where w: "server_operations t = [Write_response response]"
      by (auto simp: sent_responses_def split: list.splits server_operation.splits)
    then have kk: "k = length ?as" using k False by (simp add: sent_responses_def)
    from inv w obtain request where r: "waiting (exchanges t) = Some request" "answer files root request = Some response"
      by (auto simp: server_inv_def split: if_splits option.splits)
    with a have rs: "?rs = take (length ?as) ?rs @ [request]" by simp
    have l: "length (take (length ?as) ?rs) = length ?as" using list_all2_lengthD [OF pairs] by simp
    from rs l have "length ?rs = Suc (length ?as)" by (metis length_append_singleton)
    moreover from rs l have "?rs ! length ?as = request" by (metis nth_append_length)
    ultimately show ?thesis using kk r w by (simp add: taken_requests_def sent_responses_def)
  qed
qed

lemma answered_ok:
  "answer files root request = Some x \<Longrightarrow> response_status x = status_ok \<Longrightarrow>
   path_exists files (root @ target request) = Inr True \<and>
   (\<exists>bytes. response_file x = Some bytes \<and> open_file files (root @ target request) = Some bytes)"
  by (auto simp: answer_def file_response_def bad_request_response_def status_ok_def status_bad_request_def
      split: sum.splits bool.splits)

text \<open>Requests are sent in the order of the calls.\<close>

lemma sent_in_order:
  assumes inv: "session_inv s"
  shows "prefix (sent_requests s) (map fst (submitted s))"
proof -
  note i = session_invD [OF inv]
  have w: "written s = take (length (written s)) (map fst (submitted s))"
    using i(4) by (simp add: written_ok_def take_map)
  show ?thesis
  proof (cases "\<exists>request index. operations s = [Async_write request index]")
    case False
    then have "sent_requests s = written s"
      by (auto simp: sent_requests_def split: list.splits async_operation.splits)
    then show ?thesis using w by (metis take_is_prefix)
  next
    case True
    then obtain request index where o: "operations s = [Async_write request index]" by blast
    obtain p rest where front: "request_list s = (request, p) # rest" "active s"
      by (rule in_flight [OF inv, of 0]) (use o in auto)
    have n: "length (written s) = length (settled s)" using i(6) front o by (simp add: counts_ok_def)
    have "drop (length (written s)) (submitted s) = (request, p) # rest @ posted s"
      using i(3) front n by (simp add: backlog_ok_def)
    then have "map fst (submitted s) = map fst (take (length (written s)) (submitted s)) @ request # map fst (rest @ posted s)"
      by (metis append_take_drop_id fst_conv list.simps(9) map_append)
    moreover have "map fst (take (length (written s)) (submitted s)) = written s"
      using i(4) by (simp add: written_ok_def)
    ultimately have "map fst (submitted s) = sent_requests s @ map fst (rest @ posted s)"
      using o by (simp add: sent_requests_def)
    then show ?thesis by (rule prefixI)
  qed
qed

text \<open>
  Claim C5. What \<open>send_request_for\<close> hands its caller is the file: over a connection that delivers in
  order, if the k-th call gets bytes, they are the content of the file that the server finds under its
  root followed by the target of that call's request.
\<close>

theorem file_reaches_caller:
  assumes client: "session_step\<^sup>*\<^sup>* session_create s"
    and server: "server_session_create is_dir root = Inr t0" "(server_step files traits)\<^sup>*\<^sup>* t0 t"
    and requests: "prefix (taken_requests t) (sent_requests s)"
    and responses: "prefix (received s) (map wire (sent_responses t))"
    and status: "\<And>x. http_response.status (wire x) = response_status x"
    and content: "\<And>x bytes. response_file x = Some bytes \<Longrightarrow> body (wire x) = bytes"
    and k: "k < length (settled s)"
    and got: "send_request_for True (snd (settled s ! k)) = Settled_value bytes"
  shows "fst (settled s ! k) = snd (submitted s ! k) \<and>
    path_exists files (root @ target (fst (submitted s ! k))) = Inr True \<and>
    open_file files (root @ target (fst (submitted s ! k))) = Some bytes"
proof -
  have inv: "session_inv s" by (rule reachable_inv [OF client])
  have sinv: "server_inv files root t" by (rule server_reachable_inv [OF server(2,1)])
  from got obtain r where r: "snd (settled s ! k) = Settled_value r" "body r = bytes" "status r = status_ok"
    by (cases "snd (settled s ! k)") (auto split: if_splits)
  with session_invD(5) [OF inv] k have rec: "k < length (received s)" "received s ! k = r"
    by (auto simp: values_ok_def)
  from session_invD(2) [OF inv] have "map snd (submitted s) ! k = map fst (settled s) ! k"
    using k by (simp add: order_ok_def nth_append)
  then have promise: "fst (settled s ! k) = snd (submitted s ! k)" and ks: "k < length (submitted s)"
    using k session_invD(8) [OF inv] by auto
  from responses obtain more_read where m: "map wire (sent_responses t) = received s @ more_read"
    by (auto simp: prefix_def)
  from arg_cong [OF m, of length] rec have kr: "k < length (sent_responses t)" by simp
  from arg_cong [OF m, of "\<lambda>xs. xs ! k"] rec kr have wr: "wire (sent_responses t ! k) = r"
    by (simp add: nth_append)
  from answers_match [OF sinv kr] have kt: "k < length (taken_requests t)"
    and ans: "answer files root (taken_requests t ! k) = Some (sent_responses t ! k)" by auto
  from prefix_order.order_trans [OF requests sent_in_order [OF inv]] kt ks
  have tk: "taken_requests t ! k = fst (submitted s ! k)"
    by (metis nth_append nth_map prefix_def)
  from wr r(3) status [of "sent_responses t ! k"] have ok: "response_status (sent_responses t ! k) = status_ok" by simp
  from answered_ok [OF ans ok] show ?thesis using promise tk content [of "sent_responses t ! k"] wr r(2) by auto
qed

definition sample_wire :: "server_response \<Rightarrow> http_response" where
  "sample_wire x = \<lparr>status = response_status x, reason = [],
     body = (case response_file x of None \<Rightarrow> [] | Some bytes \<Rightarrow> bytes)\<rparr>"

lemma file_reaches_caller_witness:
  "\<exists>s::client_session. send_request_for True (snd (settled s ! 0)) = Settled_value [1, 2] \<and>
     open_file sample_files (''/srv'' @ target (fst (submitted s ! 0))) = Some [1, 2]"
proof -
  let ?es = "[Call_send_request (sample_get ''/a'') 0, Run_posted, Complete 0 0 sample_response,
    Complete 0 0 (sample_wire (file_response (sample_get ''/a'') [1, 2]))]"
  have create: "server_session_create (\<lambda>d. True) ''/srv'' = Inr sample_server"
    by (simp add: server_session_create_def sample_server_def)
  obtain t where trun: "run_server sample_files sample_traits [Call_process_requests,
        Complete_operation 0 0 (sample_get ''/a'')] sample_server = Some t"
    and t: "taken_requests t = [sample_get ''/a'']" "sent_responses t = [file_response (sample_get ''/a'') [1, 2]]"
    by (simp add: sample_server_defs taken_requests_def sent_responses_def)
  obtain s where srun: "run_events ?es session_create = Some s"
    and s: "settled s = [(0, Settled_value (sample_wire (file_response (sample_get ''/a'') [1, 2])))]"
      "submitted s = [(sample_get ''/a'', 0)]" "sent_requests s = [sample_get ''/a'']"
      "received s = [sample_wire (file_response (sample_get ''/a'') [1, 2])]"
    by (simp add: session_create_def handler_defs Let_def failed_def sample_wire_def file_response_def status_ok_def
        sent_requests_def sample_get_def)
  have got: "send_request_for True (snd (settled s ! 0)) = Settled_value [1, 2]"
    by (simp add: s sample_wire_def file_response_def)
  from file_reaches_caller [OF run_events_reach [OF srun] create run_server_steps [OF trun], of sample_wire 0 "[1, 2]"]
  have "open_file sample_files (''/srv'' @ target (fst (submitted s ! 0))) = Some [1, 2]"
    using got by (simp add: t s sample_wire_def)
  with got show ?thesis by blast
qed

end
