(* ===== verification/Connector.thy ===== *)
theory Connector
  imports Net_Http
begin

text \<open>
  \<^verbatim>\<open>src/network/connector.h\<close> and \<^verbatim>\<open>connector.cpp\<close>: the TCP connector. Requests for a connection are
  queued on a strand; the front of the queue is resolved, its promise moves into the pending
  \<open>async_connect\<close>, and the next one is resolved. A failure settles every queued promise with an
  exception and cancels the resolver, but leaves the queue as it is.
\<close>

section \<open>State\<close>

record connect_token =
  token_host :: string
  token_service :: string
  token_socket :: promise

text \<open>Closures on the strand: a queued call, or the cancellation a failed connect posts.\<close>

datatype strand_task = Queue_token connect_token | Cancel_with error_code

record connector =
  connect_list :: "connect_token list"
  resolving :: "(string \<times> string) list" \<comment> \<open>resolves in flight\<close>
  connecting :: "promise list" \<comment> \<open>promises moved into a pending connect\<close>
  connect_sequence :: "strand_task list"
  resolver_cancels :: nat
  connect_issued :: "promise list"
  connect_settled :: "(promise \<times> socket settlement) list"

definition connector_create :: connector where
  "connector_create = \<lparr>connect_list = [], resolving = [], connecting = [], connect_sequence = [],
     resolver_cancels = 0, connect_issued = [], connect_settled = []\<rparr>"

section \<open>Operations\<close>

text \<open>Settling a promise a second time throws (\<open>PromiseAlreadySatisfied\<close>, a logic error).\<close>

definition settle :: "promise \<Rightarrow> socket settlement \<Rightarrow> connector \<Rightarrow> connector outcome" where
  "settle p v s =
     (if p \<in> fst ` set (connect_settled s) then Inl (Throw Logic_error)
      else Inr (s\<lparr>connect_settled := connect_settled s @ [(p, v)]\<rparr>))"

fun settle_all :: "connect_token list \<Rightarrow> socket settlement \<Rightarrow> connector \<Rightarrow> connector outcome" where
  "settle_all [] v s = Inr s"
| "settle_all (connect_token # tokens) v s =
     and_then (settle (token_socket connect_token) v s) (\<lambda>s1. settle_all tokens v s1)"

definition fail_socket_then_cancel ::
  "(error_code \<Rightarrow> string) \<Rightarrow> error_code \<Rightarrow> connector \<Rightarrow> connector outcome" where
  "fail_socket_then_cancel message errc s =
     (let s1 = s\<lparr>resolver_cancels := resolver_cancels s + 1\<rparr>
      in settle_all (connect_list s1) (Settled_exception (Runtime_error (message errc), [])) s1)"

definition resolve_front_endpoint :: "connector \<Rightarrow> connector outcome" where
  "resolve_front_endpoint s =
     (case connect_list s of
        [] \<Rightarrow> Inl Undefined_behaviour
      | token # _ \<Rightarrow> Inr (s\<lparr>resolving := resolving s @ [(token_host token, token_service token)]\<rparr>))"

definition on_resolve :: "(error_code \<Rightarrow> string) \<Rightarrow> error_code \<Rightarrow> connector \<Rightarrow> connector outcome" where
  "on_resolve message errc s =
     (if failed errc then fail_socket_then_cancel message errc s
      else case connect_list s of
        [] \<Rightarrow> Inl Undefined_behaviour
      | token # tokens \<Rightarrow>
          let s1 = s\<lparr>connecting := connecting s @ [token_socket token], connect_list := tokens\<rparr>
          in if connect_list s1 \<noteq> [] then resolve_front_endpoint s1 else Inr s1)"

definition on_connect ::
  "(error_code \<Rightarrow> string) \<Rightarrow> promise \<Rightarrow> error_code \<Rightarrow> socket \<Rightarrow> connector \<Rightarrow> connector outcome" where
  "on_connect message promise errc sock s =
     (if failed errc
      then and_then (settle promise (Settled_exception (Runtime_error (message errc), [])) s)
             (\<lambda>s1. Inr (s1\<lparr>connect_sequence := connect_sequence s1 @ [Cancel_with errc]\<rparr>))
      else settle promise (Settled_value sock) s)"

definition connect_socket :: "string \<Rightarrow> string \<Rightarrow> promise \<Rightarrow> connector \<Rightarrow> connector" where
  "connect_socket host_name service_name promise s =
     s\<lparr>connect_sequence := connect_sequence s @
          [Queue_token \<lparr>token_host = host_name, token_service = service_name, token_socket = promise\<rparr>],
       connect_issued := connect_issued s @ [promise]\<rparr>"

definition connect_socket_posted :: "connect_token \<Rightarrow> connector \<Rightarrow> connector outcome" where
  "connect_socket_posted token s =
     (let s1 = s\<lparr>connect_list := connect_list s @ [token]\<rparr>
      in if length (connect_list s1) = 1 then resolve_front_endpoint s1 else Inr s1)"

text \<open>\<open>establish_session\<close> makes the session from the socket when there is one.\<close>

fun establish_session :: "(socket \<Rightarrow> 'session) \<Rightarrow> socket settlement \<Rightarrow> 'session settlement" where
  "establish_session create_session (Settled_value sock) = Settled_value (create_session sock)"
| "establish_session create_session (Settled_exception e) = Settled_exception e"

section \<open>Runs\<close>

datatype connector_input =
    Call_connect string string promise
  | Run_strand
  | Resolved nat error_code
  | Connected nat error_code socket

fun connector_event ::
  "(error_code \<Rightarrow> string) \<Rightarrow> connector_input \<Rightarrow> connector \<Rightarrow> connector outcome option" where
  "connector_event message (Call_connect host_name service_name promise) s =
     (if promise \<in> set (connect_issued s) then None
      else Some (Inr (connect_socket host_name service_name promise s)))"
| "connector_event message Run_strand s =
     (case connect_sequence s of
        [] \<Rightarrow> None
      | Queue_token token # rest \<Rightarrow> Some (connect_socket_posted token (s\<lparr>connect_sequence := rest\<rparr>))
      | Cancel_with errc # rest \<Rightarrow>
          Some (fail_socket_then_cancel message errc (s\<lparr>connect_sequence := rest\<rparr>)))"
| "connector_event message (Resolved k errc) s =
     (if k < length (resolving s)
      then Some (on_resolve message errc (s\<lparr>resolving := take k (resolving s) @ drop (Suc k) (resolving s)\<rparr>))
      else None)"
| "connector_event message (Connected k errc sock) s =
     (if k < length (connecting s)
      then Some (on_connect message (connecting s ! k) errc sock
             (s\<lparr>connecting := take k (connecting s) @ drop (Suc k) (connecting s)\<rparr>))
      else None)"

text \<open>The inputs in which the network reports no error.\<close>

fun smooth :: "connector_input \<Rightarrow> bool" where
  "smooth (Resolved k errc) \<longleftrightarrow> \<not> failed errc"
| "smooth (Connected k errc sock) \<longleftrightarrow> \<not> failed errc"
| "smooth _ \<longleftrightarrow> True"

inductive smooth_step :: "connector \<Rightarrow> connector \<Rightarrow> bool" where
  smooth_event: "smooth i \<Longrightarrow> connector_event message i s = Some (Inr t) \<Longrightarrow> smooth_step s t"

inductive connector_step :: "(error_code \<Rightarrow> string) \<Rightarrow> connector \<Rightarrow> connector \<Rightarrow> bool"
  for message :: "error_code \<Rightarrow> string" where
  any_event: "connector_event message i s = Some (Inr t) \<Longrightarrow> connector_step message s t"

section \<open>Runs without a network error\<close>

fun task_promises :: "strand_task \<Rightarrow> promise list" where
  "task_promises (Queue_token token) = [token_socket token]"
| "task_promises (Cancel_with errc) = []"

definition connector_settled :: "connector \<Rightarrow> promise list" where
  "connector_settled s = map fst (connect_settled s)"

definition connector_held :: "connector \<Rightarrow> promise list" where
  "connector_held s = connecting s @ map token_socket (connect_list s) @
     concat (map task_promises (connect_sequence s))"

lemmas connector_ledger_defs = connector_settled_def connector_held_def

lemmas connector_op_defs = on_resolve_def on_connect_def connect_socket_def connect_socket_posted_def
  resolve_front_endpoint_def settle_def

text \<open>No cancellation is posted, and one resolve is in flight exactly when the queue is not empty.\<close>

definition smooth_inv :: "connector \<Rightarrow> bool" where
  "smooth_inv s \<longleftrightarrow> mset (connect_issued s) = mset (connector_settled s) + mset (connector_held s) \<and>
     distinct (connect_issued s) \<and>
     (case connect_list s of [] \<Rightarrow> resolving s = []
      | token # _ \<Rightarrow> resolving s = [(token_host token, token_service token)]) \<and>
     (\<forall>task\<in>set (connect_sequence s). \<exists>token. task = Queue_token token)"

lemma smooth_event_safe:
  assumes inv: "smooth_inv s" and sm: "smooth i" and ev: "connector_event message i s = Some r"
  shows "\<exists>t. r = Inr t \<and> smooth_inv t"
proof (cases i)
  case (Call_connect host_name service_name promise)
  then have "r = Inr (connect_socket host_name service_name promise s)" and "promise \<notin> set (connect_issued s)"
    using ev by (auto split: if_splits)
  then show ?thesis
    using inv by (cases "connect_list s") (auto simp: smooth_inv_def connect_socket_def connector_ledger_defs)
next
  case Run_strand
  then obtain token rest where task: "connect_sequence s = Queue_token token # rest"
      and r: "r = connect_socket_posted token (s\<lparr>connect_sequence := rest\<rparr>)"
    using inv ev by (auto simp: smooth_inv_def split: list.splits strand_task.splits)
  then show ?thesis
    using inv by (cases "connect_list s")
      (auto simp: smooth_inv_def connect_socket_posted_def resolve_front_endpoint_def
        connector_ledger_defs Let_def)
next
  case (Resolved k errc)
  then obtain token tokens where front: "connect_list s = token # tokens" "k = 0"
      "resolving s = [(token_host token, token_service token)]"
    using inv ev by (auto simp: smooth_inv_def split: if_splits list.splits)
  then show ?thesis
    using inv ev sm Resolved by (cases tokens)
      (auto simp: smooth_inv_def on_resolve_def resolve_front_endpoint_def connector_ledger_defs Let_def)
next
  case (Connected k errc sock)
  then have k: "k < length (connecting s)" using ev by (auto split: if_splits)
  have "distinct (connector_settled s @ connector_held s)"
    using inv mset_eq_imp_distinct_iff [of "connect_issued s" "connector_settled s @ connector_held s"]
    by (simp add: smooth_inv_def)
  then have "set (connector_settled s) \<inter> set (connector_held s) = {}" by simp
  moreover have "connecting s ! k \<in> set (connector_held s)"
    using nth_mem [OF k] by (simp add: connector_held_def)
  ultimately have new: "connecting s ! k \<notin> fst ` set (connect_settled s)"
    unfolding connector_settled_def by (metis disjoint_iff set_map)
  then show ?thesis
    using inv ev sm Connected k mset_remove_nth [OF k]
    by (cases "connect_list s") (auto simp: smooth_inv_def on_connect_def settle_def connector_ledger_defs)
qed

lemma smooth_reachable: "smooth_step\<^sup>*\<^sup>* connector_create s \<Longrightarrow> smooth_inv s"
proof (induction rule: rtranclp_induct)
  case base
  show ?case by (simp add: smooth_inv_def connector_create_def connector_ledger_defs)
next
  case (step s t)
  then show ?case using smooth_event_safe by (auto elim!: smooth_step.cases)
qed

definition sound_smooth_step :: "connector \<Rightarrow> connector \<Rightarrow> bool" where
  "sound_smooth_step s t \<longleftrightarrow> smooth_inv s \<and> smooth_step s t"

interpretation connector_ledger: promise_ledger sound_smooth_step connect_issued connector_settled connector_held
proof
  fix s t assume "sound_smooth_step s t"
  then obtain i message where "smooth_inv s" "smooth i" "connector_event message i s = Some (Inr t)"
    by (auto simp: sound_smooth_step_def elim: smooth_step.cases)
  then have "smooth_inv t" using smooth_event_safe by blast
  then show "mset (connect_issued t) = mset (connector_settled t) + mset (connector_held t)"
    by (simp add: smooth_inv_def)
qed

lemma smooth_sound_run:
  "smooth_step\<^sup>*\<^sup>* connector_create s \<Longrightarrow> sound_smooth_step\<^sup>*\<^sup>* connector_create s"
proof (induction rule: rtranclp_induct)
  case (step s t)
  then have "sound_smooth_step s t" by (simp add: sound_smooth_step_def smooth_reachable)
  with step.IH show ?case by (rule rtranclp.rtrancl_into_rtrancl)
qed simp

text \<open>
  Claim C15. While the network reports no error, the connector never fails an operation, resolves one
  host at a time (the front of the queue, whenever the queue is not empty), and every promise handed
  out is either settled, once, or still held by a closure, the queue or a pending connect.
\<close>

theorem connector_without_errors:
  assumes "smooth_step\<^sup>*\<^sup>* connector_create s" and "smooth i"
  shows "connector_event message i s \<noteq> Some (Inl f) \<and>
    resolving s = map (\<lambda>token. (token_host token, token_service token)) (take 1 (connect_list s)) \<and>
    distinct (map fst (connect_settled s)) \<and>
    set (connect_issued s) = fst ` set (connect_settled s) \<union> set (connector_held s)"
proof -
  note inv = smooth_reachable [OF assms(1)]
  have "connector_event message i s \<noteq> Some (Inl f)"
    using smooth_event_safe [OF inv assms(2)] by fastforce
  moreover have "resolving s = map (\<lambda>token. (token_host token, token_service token)) (take 1 (connect_list s))"
    using inv by (auto simp: smooth_inv_def split: list.splits)
  moreover have "distinct (connector_settled s) \<and> set (connect_issued s) = set (connector_settled s) \<union> set (connector_held s)"
    using connector_ledger.settled_once [OF smooth_sound_run [OF assms(1)]] inv
    by (simp add: connector_create_def connector_ledger_defs smooth_inv_def)
  ultimately show ?thesis by (simp add: connector_settled_def)
qed


fun run_connector :: "(error_code \<Rightarrow> string) \<Rightarrow> connector_input list \<Rightarrow> connector \<Rightarrow> connector option" where
  "run_connector message [] s = Some s"
| "run_connector message (i # is) s =
     (case connector_event message i s of Some (Inr t) \<Rightarrow> run_connector message is t | _ \<Rightarrow> None)"

lemma run_connector_smooth:
  "run_connector message is s = Some t \<Longrightarrow> list_all smooth is \<Longrightarrow> smooth_step\<^sup>*\<^sup>* s t"
  by (induction "is" arbitrary: s)
    (auto split: option.splits sum.splits intro: smooth_event converse_rtranclp_into_rtranclp)

lemma run_connector_steps: "run_connector message is s = Some t \<Longrightarrow> (connector_step message)\<^sup>*\<^sup>* s t"
  by (induction "is" arbitrary: s)
    (auto split: option.splits sum.splits intro: any_event converse_rtranclp_into_rtranclp)

definition sample_calls :: "connector_input list" where
  "sample_calls = [Call_connect ''a'' ''80'' 0, Call_connect ''b'' ''80'' 1, Run_strand, Run_strand]"

lemmas connector_run_defs = sample_calls_def connector_create_def connector_op_defs failed_def Let_def
  fail_socket_then_cancel_def

text \<open>Two calls are queued and the first is being resolved.\<close>

lemma sample_calls_run:
  obtains s where "run_connector message sample_calls connector_create = Some s"
    and "smooth_step\<^sup>*\<^sup>* connector_create s"
    and "map token_socket (connect_list s) = [0, 1]" and "resolving s = [(''a'', ''80'')]"
    and "connect_issued s = [0, 1]" and "connect_settled s = []" and "connecting s = []"
    and "connect_sequence s = []"
proof -
  have sm: "list_all smooth sample_calls" by (simp add: sample_calls_def)
  obtain s where run: "run_connector message sample_calls connector_create = Some s"
    and s: "map token_socket (connect_list s) = [0, 1]" "resolving s = [(''a'', ''80'')]"
    "connect_issued s = [0, 1]" "connect_settled s = []" "connecting s = []" "connect_sequence s = []"
    by (simp add: connector_run_defs)
  show ?thesis by (rule that [OF run run_connector_smooth [OF run sm] s])
qed

theorem connector_without_errors_witness:
  "\<exists>s::connector. set (connect_issued s) = {0, 1} \<and>
     resolving s = map (\<lambda>token. (token_host token, token_service token)) (take 1 (connect_list s)) \<and>
     set (connect_issued s) = fst ` set (connect_settled s) \<union> set (connector_held s)"
proof -
  obtain s where run: "smooth_step\<^sup>*\<^sup>* connector_create s" and s: "connect_issued s = [0, 1]"
    by (rule sample_calls_run)
  show ?thesis
    using connector_without_errors [OF run, of Run_strand "\<lambda>_. []" Undefined_behaviour] s
    by - (rule exI [of _ s], simp)
qed

section \<open>Runs with a network error\<close>

lemma settle_all_Inr:
  "settle_all tokens v s = Inr t \<Longrightarrow>
     connect_settled t = connect_settled s @ map (\<lambda>token. (token_socket token, v)) tokens \<and>
     connect_list t = connect_list s \<and> resolving t = resolving s \<and> connecting t = connecting s \<and>
     connect_sequence t = connect_sequence s \<and> connect_issued t = connect_issued s"
  by (induction tokens arbitrary: s) (auto simp: outcome_simps settle_def split: if_splits)

lemma fail_socket_then_cancel_Inr:
  assumes "fail_socket_then_cancel message errc s = Inr t"
  shows "connect_settled t = connect_settled s @ map (\<lambda>token.
      (token_socket token, Settled_exception (Runtime_error (message errc), []))) (connect_list s)"
    and "connect_list t = connect_list s" and "resolving t = resolving s" and "connecting t = connecting s"
    and "connect_issued t = connect_issued s"
  using assms settle_all_Inr [of _ _ _ t] by (auto simp: fail_socket_then_cancel_def Let_def)

text \<open>The promises that have been given a socket.\<close>

definition sockets_of :: "connector \<Rightarrow> promise set" where
  "sockets_of s = {p. \<exists>v. (p, Settled_value v) \<in> set (connect_settled s)}"

lemma sockets_of_fail: "fail_socket_then_cancel message errc s = Inr t \<Longrightarrow> sockets_of t = sockets_of s"
  by (auto simp: sockets_of_def dest!: fail_socket_then_cancel_Inr(1))

lemma sockets_of_same: "connect_settled t = connect_settled s \<Longrightarrow> sockets_of t = sockets_of s"
  by (simp add: sockets_of_def)

text \<open>The state after a failed resolve, and all that can follow it.\<close>

definition wedged :: "connector \<Rightarrow> connector \<Rightarrow> bool" where
  "wedged t u \<longleftrightarrow> resolving u = [] \<and> connect_list u \<noteq> [] \<and> set (connecting u) \<subseteq> set (connecting t) \<and>
     sockets_of u \<subseteq> sockets_of t \<union> set (connecting t)"

lemma wedged_step:
  assumes w: "wedged t s" and "connector_step message s u"
  shows "wedged t u"
  using assms(2)
proof cases
  case (any_event i)
  show ?thesis
  proof (cases i)
    case (Call_connect host_name service_name promise)
    then have "u = connect_socket host_name service_name promise s"
      using any_event by (auto split: if_splits)
    with w show ?thesis
      by (simp add: wedged_def connect_socket_def sockets_of_same [of u s] sockets_of_def)
  next
    case Run_strand
    then consider token rest where "u = s\<lparr>connect_sequence := rest, connect_list := connect_list s @ [token]\<rparr>"
      | errc rest where "fail_socket_then_cancel message errc (s\<lparr>connect_sequence := rest\<rparr>) = Inr u"
      using any_event w
      by (auto simp: wedged_def connect_socket_posted_def Let_def split: list.splits strand_task.splits if_splits)
    then show ?thesis
    proof cases
      case (1 token rest)
      with w show ?thesis by (simp add: wedged_def sockets_of_def)
    next
      case (2 errc rest)
      show ?thesis
        using w fail_socket_then_cancel_Inr [OF 2] sockets_of_fail [OF 2]
        by (simp add: wedged_def sockets_of_same [of "s\<lparr>connect_sequence := rest\<rparr>" s])
    qed
  next
    case (Resolved k errc)
    with any_event w show ?thesis by (simp add: wedged_def)
  next
    case (Connected k errc sock)
    then have k: "k < length (connecting s)" and run: "on_connect message (connecting s ! k) errc sock
        (s\<lparr>connecting := take k (connecting s) @ drop (Suc k) (connecting s)\<rparr>) = Inr u"
      using any_event by (auto split: if_splits)
    have "set (take k (connecting s) @ drop (Suc k) (connecting s)) \<subseteq> set (connecting s)"
      by (auto dest: in_set_takeD in_set_dropD)
    then have "set (connecting u) \<subseteq> set (connecting s)" "resolving u = resolving s"
        "connect_list u = connect_list s"
      using run by (auto simp: on_connect_def settle_def outcome_simps split: if_splits)
    moreover have "sockets_of u \<subseteq> insert (connecting s ! k) (sockets_of s)"
      using run by (auto simp: sockets_of_def on_connect_def settle_def outcome_simps split: if_splits)
    ultimately show ?thesis
      using w nth_mem [OF k] unfolding wedged_def by auto
  qed
qed

lemma wedged_run: "(connector_step message)\<^sup>*\<^sup>* s u \<Longrightarrow> wedged t s \<Longrightarrow> wedged t u"
  by (induction rule: rtranclp_induct) (auto intro: wedged_step)



text \<open>
  The second failure reported while requests are queued throws: the promises of the queue
  were settled by the first failure and are still queued.
\<close>

theorem second_failure_throws:
  assumes "fail_socket_then_cancel message errc s = Inr t" and "connect_list s \<noteq> []"
  shows "fail_socket_then_cancel message errc' t = Inl (Throw Logic_error)"
proof -
  obtain token tokens where front: "connect_list s = token # tokens"
    using assms(2) by (cases "connect_list s") auto
  then have "token_socket token \<in> fst ` set (connect_settled t)" "connect_list t = token # tokens"
    using fail_socket_then_cancel_Inr [OF assms(1)] by auto
  then show ?thesis
    by (simp add: fail_socket_then_cancel_def settle_def Let_def)
qed

theorem second_failure_throws_witness:
  "\<exists>s t::connector. fail_socket_then_cancel (\<lambda>_. ''e'') 7 s = Inr t \<and>
     fail_socket_then_cancel (\<lambda>_. ''e'') 9 t = Inl (Throw Logic_error)"
proof -
  let ?s = "connector_create\<lparr>connect_list := [\<lparr>token_host = ''a'', token_service = ''80'', token_socket = 0\<rparr>]\<rparr>"
  have "\<exists>t. fail_socket_then_cancel (\<lambda>_. ''e'') 7 ?s = Inr t"
    by (simp add: connector_run_defs)
  then obtain t where t: "fail_socket_then_cancel (\<lambda>_. ''e'') 7 ?s = Inr t" by blast
  show ?thesis
    using second_failure_throws [OF t, of 9] t by (intro exI [of _ ?s] exI [of _ t]) simp
qed

end
