(* ===== verification/Acceptor.thy ===== *)
theory Acceptor
  imports Net_Http
begin

text \<open>
  \<^verbatim>\<open>src/network/acceptor.h\<close> and \<^verbatim>\<open>acceptor.cpp\<close>: the TCP acceptor. Each call of \<open>accept_socket\<close> starts one
  accept with a promise of its own; a failed accept settles its promise and closes the acceptor.
\<close>

record acceptor =
  accepting :: "promise list" \<comment> \<open>accepts in flight\<close>
  acceptor_open :: bool
  acceptor_cancels :: nat
  accept_issued :: "promise list"
  accept_settled :: "(promise \<times> socket settlement) list"

definition acceptor_create :: acceptor where
  "acceptor_create = \<lparr>accepting = [], acceptor_open = True, acceptor_cancels = 0, accept_issued = [],
     accept_settled = []\<rparr>"

definition close :: "error_code option \<Rightarrow> bool \<Rightarrow> acceptor \<Rightarrow> acceptor" where
  "close error cancel s =
     (if cancel then s\<lparr>acceptor_cancels := acceptor_cancels s + 1\<rparr> else s\<lparr>acceptor_open := False\<rparr>)"

definition accept_settle :: "promise \<Rightarrow> socket settlement \<Rightarrow> acceptor \<Rightarrow> acceptor outcome" where
  "accept_settle p v s =
     (if p \<in> fst ` set (accept_settled s) then Inl (Throw Logic_error)
      else Inr (s\<lparr>accept_settled := accept_settled s @ [(p, v)]\<rparr>))"

definition on_accept :: "promise \<Rightarrow> error_code \<Rightarrow> socket \<Rightarrow> acceptor \<Rightarrow> acceptor outcome" where
  "on_accept promise error sock s =
     (if failed error
      then and_then (accept_settle promise (Settled_exception (Runtime_error ''acceptor error'', [])) s)
             (\<lambda>s1. Inr (close (Some error) False s1))
      else accept_settle promise (Settled_value sock) s)"

definition accept_socket :: "promise \<Rightarrow> acceptor \<Rightarrow> acceptor" where
  "accept_socket promise s =
     s\<lparr>accepting := accepting s @ [promise], accept_issued := accept_issued s @ [promise]\<rparr>"

text \<open>\<open>listen_session\<close> makes the session from the socket when there is one.\<close>

fun listen_session :: "(socket \<Rightarrow> 'session) \<Rightarrow> socket settlement \<Rightarrow> 'session settlement" where
  "listen_session create_session (Settled_value sock) = Settled_value (create_session sock)"
| "listen_session create_session (Settled_exception e) = Settled_exception e"

datatype acceptor_input = Call_accept promise | Accepted nat error_code socket | Call_close bool

fun acceptor_event :: "acceptor_input \<Rightarrow> acceptor \<Rightarrow> acceptor outcome option" where
  "acceptor_event (Call_accept promise) s =
     (if promise \<in> set (accept_issued s) then None else Some (Inr (accept_socket promise s)))"
| "acceptor_event (Accepted k error sock) s =
     (if k < length (accepting s)
      then Some (on_accept (accepting s ! k) error sock
             (s\<lparr>accepting := take k (accepting s) @ drop (Suc k) (accepting s)\<rparr>))
      else None)"
| "acceptor_event (Call_close cancel) s = Some (Inr (close None cancel s))"

inductive acceptor_step :: "acceptor \<Rightarrow> acceptor \<Rightarrow> bool" where
  acceptor_event: "acceptor_event i s = Some (Inr t) \<Longrightarrow> acceptor_step s t"

definition accept_settled_list :: "acceptor \<Rightarrow> promise list" where
  "accept_settled_list s = map fst (accept_settled s)"

lemma on_accept_Inr:
  assumes "on_accept p error sock s = Inr t"
  shows "accept_settled_list t = accept_settled_list s @ [p] \<and> accepting t = accepting s \<and>
    accept_issued t = accept_issued s \<and> acceptor_open t = (acceptor_open s \<and> \<not> failed error)"
  using assms
  by (auto simp: on_accept_def accept_settle_def close_def accept_settled_list_def outcome_simps split: if_splits)

lemma acceptor_step_ledger:
  assumes "acceptor_step s t"
    and "mset (accept_issued s) = mset (accept_settled_list s) + mset (accepting s)"
  shows "mset (accept_issued t) = mset (accept_settled_list t) + mset (accepting t)"
  using assms(1)
proof cases
  case (acceptor_event i)
  then show ?thesis
  proof (cases i)
    case (Accepted k error sock)
    with acceptor_event have k: "k < length (accepting s)" and run: "on_accept (accepting s ! k) error sock
        (s\<lparr>accepting := take k (accepting s) @ drop (Suc k) (accepting s)\<rparr>) = Inr t"
      by (auto split: if_splits)
    from on_accept_Inr [OF run] assms(2) mset_remove_nth [OF k] show ?thesis
      by (simp add: accept_settled_list_def)
  qed (use assms(2) in \<open>auto simp: accept_socket_def close_def accept_settled_list_def split: if_splits\<close>)
qed

interpretation acceptor_ledger: promise_ledger acceptor_step accept_issued accept_settled_list accepting
  by unfold_locales (rule acceptor_step_ledger)

lemma acceptor_issued_distinct: "acceptor_step\<^sup>*\<^sup>* acceptor_create s \<Longrightarrow> distinct (accept_issued s)"
proof (induction rule: rtranclp_induct)
  case (step s t)
  from step.hyps(2) obtain i where "acceptor_event i s = Some (Inr t)" by (auto elim: acceptor_step.cases)
  with step.IH show ?case
    by (cases i) (auto simp: accept_socket_def close_def dest!: on_accept_Inr split: if_splits)
qed (simp add: acceptor_create_def)

text \<open>
  Every promise of \<open>accept_socket\<close> is settled at most once and is settled or still waiting
  for its accept; no completion of an accept throws, and a failed one leaves the acceptor closed.
\<close>

theorem acceptor_settles_once:
  assumes "acceptor_step\<^sup>*\<^sup>* acceptor_create s" and "k < length (accepting s)"
  shows "distinct (map fst (accept_settled s)) \<and>
    set (accept_issued s) = fst ` set (accept_settled s) \<union> set (accepting s) \<and>
    (\<exists>t. acceptor_event (Accepted k error sock) s = Some (Inr t) \<and>
      acceptor_open t = (acceptor_open s \<and> \<not> failed error))"
proof -
  have empty: "accept_issued acceptor_create = []" "accept_settled_list acceptor_create = []"
      "accepting acceptor_create = []"
    by (simp_all add: acceptor_create_def accept_settled_list_def)
  note once = acceptor_ledger.settled_once [OF assms(1) empty acceptor_issued_distinct [OF assms(1)]]
  have "accepting s ! k \<notin> fst ` set (accept_settled s)"
    using once(2) nth_mem [OF assms(2)] by (auto simp: accept_settled_list_def)
  then have "\<exists>t. acceptor_event (Accepted k error sock) s = Some (Inr t)"
    using assms(2) by (simp add: on_accept_def accept_settle_def)
  then obtain t where t: "acceptor_event (Accepted k error sock) s = Some (Inr t)" by blast
  then have "on_accept (accepting s ! k) error sock
      (s\<lparr>accepting := take k (accepting s) @ drop (Suc k) (accepting s)\<rparr>) = Inr t"
    using assms(2) by simp
  from on_accept_Inr [OF this] t once show ?thesis
    by (simp add: accept_settled_list_def)
qed

theorem acceptor_settles_once_witness:
  "\<forall>sock. \<exists>s t::acceptor. acceptor_event (Accepted 0 3 sock) s = Some (Inr t) \<and>
     acceptor_open t = (acceptor_open s \<and> \<not> failed 3)"
proof -
  let ?s = "accept_socket 0 acceptor_create"
  have "acceptor_step acceptor_create ?s"
    by (rule acceptor_step.acceptor_event [of "Call_accept 0"]) (simp add: acceptor_create_def)
  then have run: "acceptor_step\<^sup>*\<^sup>* acceptor_create ?s" by simp
  have "0 < length (accepting ?s)" by (simp add: accept_socket_def acceptor_create_def)
  from acceptor_settles_once [OF run this, of 3] show ?thesis
    by blast
qed

end
