(* ===== verification/Server_App.thy ===== *)
theory Server_App
  imports Core_Verify Promises
begin

text \<open>
  The server program, \<^verbatim>\<open>src/server/server.hpp\<close>, \<^verbatim>\<open>app.cpp\<close> and \<^verbatim>\<open>app.option.cpp\<close>: the elements of the
  configuration with their manual switches, the launch options, and the table of running sessions
  that \<open>establish_sessions\<close> keeps.
\<close>

section \<open>Configuration elements\<close>

datatype element =
    Bandwidth_download_rate | Bandwidth_upload_rate | Bandwidth_limit
  | Bandwidth_limit_period_span | Bandwidth_limit_period_offset | Last_element

text \<open>\<open>boost::logic::tribool\<close>: only \<open>Tri_true\<close> passes an \<open>if\<close>, and the negation of indeterminate is indeterminate.\<close>

datatype tribool = Tri_true | Tri_false | Tri_indeterminate

fun tri_holds :: "tribool \<Rightarrow> bool" where
  "tri_holds t \<longleftrightarrow> t = Tri_true"

fun tri_not :: "tribool \<Rightarrow> tribool" where
  "tri_not Tri_true = Tri_false"
| "tri_not Tri_false = Tri_true"
| "tri_not Tri_indeterminate = Tri_indeterminate"

datatype config_value = Bool_value bool | Int_value int

type_synonym element_enabler = "(element \<times> (tribool \<times> string)) list"

definition element_manual_enabler :: element_enabler where
  "element_manual_enabler =
     [(Bandwidth_limit, (Tri_indeterminate, ''Net.Bandwidth.Fluctuate'')),
      (Bandwidth_limit_period_span, (Tri_indeterminate, ''Net.Bandwidth.Period.Span'')),
      (Bandwidth_limit_period_offset, (Tri_indeterminate, ''Net.Bandwidth.Period.Offset'')),
      (Bandwidth_download_rate, (Tri_indeterminate, ''Net.Bandwidth.Limit.Download'')),
      (Bandwidth_upload_rate, (Tri_indeterminate, ''Net.Bandwidth.Limit.Upload''))]"

text \<open>The two instances of \<open>net::config_entry\<close> the code uses; both can throw.\<close>

record config_source =
  bool_entry :: "string \<Rightarrow> bool outcome"
  int_entry :: "string \<Rightarrow> int outcome"

definition load_element :: "config_source \<Rightarrow> element_enabler \<Rightarrow> element \<Rightarrow> config_value outcome" where
  "load_element config enabler type =
     (case map_of enabler type of
        None \<Rightarrow> Inl (Throw Out_of_range_error)
      | Some (enabled, entry_name) \<Rightarrow>
          case type of
            Bandwidth_limit \<Rightarrow>
              if tri_holds enabled
              then and_then (bool_entry config entry_name) (\<lambda>b. Inr (Bool_value b))
              else Inr (Bool_value False)
          | Last_element \<Rightarrow> Inl (Throw Not_implemented_error)
          | _ \<Rightarrow>
              if tri_holds (tri_not enabled) then Inr (Bool_value False)
              else and_then (int_entry config entry_name) (\<lambda>n. Inr (Int_value n)))"

definition enable_element :: "element \<Rightarrow> bool \<Rightarrow> element_enabler \<Rightarrow> (bool \<times> element_enabler) outcome" where
  "enable_element type enable enabler =
     (let enabler_exist = map_of enabler type \<noteq> None
      in case map_of enabler type of
           None \<Rightarrow> Inl (Throw Out_of_range_error)
         | Some (enabled, entry_name) \<Rightarrow>
             Inr (enabler_exist,
                  map (\<lambda>(e, v). if e = type then (e, ((if enable then Tri_true else Tri_false), snd v)) else (e, v))
                    enabler))"

section \<open>Launch options\<close>

text \<open>The options after parsing: which of \<^verbatim>\<open>help\<close>, \<^verbatim>\<open>limit\<close> were given and the config directory.\<close>

record launch_options =
  option_help :: bool
  option_config :: "string option"
  option_limit :: bool

text \<open>The effect of the options: the directory handed to \<open>add_config_path\<close>, and leaving the program.\<close>

datatype launch = Exit_success "string list" | Launch "string list" element_enabler

definition parse_options :: "element_enabler \<Rightarrow> launch_options \<Rightarrow> launch outcome" where
  "parse_options enabler options =
     (let config_paths = (case option_config options of None \<Rightarrow> [] | Some config \<Rightarrow> [config])
      in if option_help options then Inr (Exit_success config_paths)
         else if option_limit options
         then and_then (enable_element Bandwidth_limit True enabler)
                (\<lambda>(enabler_exist, enabler1). Inr (Launch config_paths enabler1))
         else Inr (Launch config_paths enabler))"

section \<open>The session table\<close>

text \<open>A remote endpoint.\<close>

datatype client = Client (client_address: int) (client_port: int)

text \<open>
  A procedure of \<open>procedure_list\<close>: waiting for the serial executor with its session, serving, waiting
  for the serial executor after its session completed, or finished.
\<close>

datatype procedure =
    Created client | Serving client | Completed client | Succeeded | Thrown exn

record app_server =
  session_map :: "(client \<times> nat) list" \<comment> \<open>the sessions by endpoint; the number is the procedure\<close>
  schedule_worker :: bool
  acceptor_cancellation :: nat \<comment> \<open>posts of the baton\<close>
  procedure_list :: "procedure list"

definition app_server_create :: "(string \<Rightarrow> bool) \<Rightarrow> string \<Rightarrow> app_server outcome" where
  "app_server_create is_dir directory =
     (if is_dir directory
      then Inr \<lparr>session_map = [], schedule_worker = False, acceptor_cancellation = 0, procedure_list = []\<rparr>
      else Inl (Throw Server_directory_error))"

definition limit_enabled :: "config_source \<Rightarrow> element_enabler \<Rightarrow> bool outcome" where
  "limit_enabled config enabler =
     and_then (load_element config enabler Bandwidth_limit)
       (\<lambda>v. case v of Bool_value b \<Rightarrow> Inr b | Int_value n \<Rightarrow> Inl (Throw Logic_error))"

text \<open>The first continuation: enter the session in the table and start it.\<close>

definition enter_session ::
  "config_source \<Rightarrow> element_enabler \<Rightarrow> nat \<Rightarrow> client \<Rightarrow> app_server \<Rightarrow> app_server" where
  "enter_session config enabler k endpoint s =
     (case (if session_map s = [] then limit_enabled config enabler else Inr False) of
        Inl (Throw e) \<Rightarrow> s\<lparr>procedure_list := (procedure_list s)[k := Thrown e]\<rparr>
      | Inl _ \<Rightarrow> s\<lparr>procedure_list := (procedure_list s)[k := Thrown Logic_error]\<rparr>
      | Inr limit \<Rightarrow>
          let s1 = (if limit then s\<lparr>schedule_worker := True\<rparr> else s);
              success = (map_of (session_map s1) endpoint = None)
          in if \<not> success
             then s1\<lparr>acceptor_cancellation := acceptor_cancellation s1 + 1,
                     procedure_list := (procedure_list s1)[k := Thrown Session_map_error]\<rparr>
             else s1\<lparr>session_map := session_map s1 @ [(endpoint, k)],
                     procedure_list := (procedure_list s1)[k := Serving endpoint]\<rparr>)"

text \<open>The second continuation: erase the session by the iterator of its entry.\<close>

definition erase_session :: "nat \<Rightarrow> client \<Rightarrow> app_server \<Rightarrow> app_server" where
  "erase_session k endpoint s =
     (let s1 = s\<lparr>session_map := filter (\<lambda>(e, _). e \<noteq> endpoint) (session_map s),
                procedure_list := (procedure_list s)[k := Succeeded]\<rparr>
      in if session_map s1 = [] \<and> schedule_worker s1 then s1\<lparr>schedule_worker := False\<rparr> else s1)"

datatype app_input =
    Accept_done "exn + client"
  | Serial_executor nat
  | Session_done nat
  | Signal

fun app_event :: "config_source \<Rightarrow> element_enabler \<Rightarrow> app_input \<Rightarrow> app_server \<Rightarrow> app_server option" where
  "app_event config enabler (Accept_done result) s =
     (if acceptor_cancellation s > 0 then None
      else Some (s\<lparr>procedure_list := procedure_list s @
             [case result of Inl e \<Rightarrow> Thrown e | Inr endpoint \<Rightarrow> Created endpoint]\<rparr>))"
| "app_event config enabler (Serial_executor k) s =
     (if k < length (procedure_list s)
      then case procedure_list s ! k of
             Created endpoint \<Rightarrow> Some (enter_session config enabler k endpoint s)
           | Completed endpoint \<Rightarrow> Some (erase_session k endpoint s)
           | _ \<Rightarrow> None
      else None)"
| "app_event config enabler (Session_done k) s =
     (if k < length (procedure_list s)
      then case procedure_list s ! k of
             Serving endpoint \<Rightarrow> Some (s\<lparr>procedure_list := (procedure_list s)[k := Completed endpoint]\<rparr>)
           | _ \<Rightarrow> None
      else None)"
| "app_event config enabler Signal s = Some (s\<lparr>acceptor_cancellation := acceptor_cancellation s + 1\<rparr>)"

inductive app_step :: "config_source \<Rightarrow> element_enabler \<Rightarrow> app_server \<Rightarrow> app_server \<Rightarrow> bool"
  for config :: config_source and enabler :: element_enabler where
  app_event: "app_event config enabler i s = Some t \<Longrightarrow> app_step config enabler s t"

text \<open>What \<open>collectAll\<close> counts once the loop has ended.\<close>

definition success_count :: "app_server \<Rightarrow> nat" where
  "success_count s = length (filter (\<lambda>p. p = Succeeded) (procedure_list s))"

text \<open>
  The table holds the procedures that serve or wait to be erased, under their endpoints, and the
  schedule worker is there only while the table is not empty.
\<close>

definition table_inv :: "app_server \<Rightarrow> bool" where
  "table_inv s \<longleftrightarrow> distinct (map fst (session_map s)) \<and>
     (\<forall>endpoint k. (endpoint, k) \<in> set (session_map s) \<longleftrightarrow>
        k < length (procedure_list s) \<and> procedure_list s ! k \<in> {Serving endpoint, Completed endpoint}) \<and>
     (schedule_worker s \<longrightarrow> session_map s \<noteq> [])"

lemma table_inv_same_procedure:
  assumes "table_inv s" and "k < length (procedure_list s)" and "\<nexists>e. procedure_list s ! k \<in> {Serving e, Completed e}"
    and "\<nexists>e. p \<in> {Serving e, Completed e}"
    and "session_map t = session_map s" and "procedure_list t = (procedure_list s)[k := p]"
    and "schedule_worker t \<longrightarrow> session_map s \<noteq> []"
  shows "table_inv t"
  using assms by (auto simp: table_inv_def nth_list_update)

lemma enter_session_inv:
  assumes inv: "table_inv s" and k: "k < length (procedure_list s)" "procedure_list s ! k = Created endpoint"
  shows "table_inv (enter_session config enabler k endpoint s)"
proof (cases "if session_map s = [] then limit_enabled config enabler else Inr False")
  case (Inl e)
  then have "\<exists>x. enter_session config enabler k endpoint s =
      s\<lparr>procedure_list := (procedure_list s)[k := Thrown x]\<rparr>"
    by (cases e) (auto simp: enter_session_def)
  then obtain x where "enter_session config enabler k endpoint s =
      s\<lparr>procedure_list := (procedure_list s)[k := Thrown x]\<rparr>" by blast
  moreover have "schedule_worker s \<longrightarrow> session_map s \<noteq> []" using inv by (simp add: table_inv_def)
  ultimately show ?thesis
    by (intro table_inv_same_procedure [OF inv k(1), of "Thrown x"]) (simp_all add: k(2))
next
  case (Inr limit)
  show ?thesis
  proof (cases "map_of (session_map s) endpoint")
    case None
    then have "endpoint \<notin> fst ` set (session_map s)" by (simp add: map_of_eq_None_iff)
    with Inr None inv k show ?thesis
      by (auto simp: enter_session_def table_inv_def Let_def nth_list_update) 
  next
    case (Some j)
    then have "\<not> limit" "session_map s \<noteq> []" using Inr by (auto split: if_splits)
    with Inr Some show ?thesis
      by (intro table_inv_same_procedure [OF inv k(1), of "Thrown Session_map_error"])
        (simp_all add: k(2) enter_session_def Let_def)
  qed
qed

lemma erase_session_inv:
  assumes inv: "table_inv s" and k: "k < length (procedure_list s)" "procedure_list s ! k = Completed endpoint"
  shows "table_inv (erase_session k endpoint s)"
proof -
  have keys: "distinct (map fst (filter (\<lambda>(e, _). e \<noteq> endpoint) (session_map s)))"
    using inv by (simp add: table_inv_def distinct_map_filter)
  have entry: "(endpoint, k) \<in> set (session_map s)"
    using inv k by (simp add: table_inv_def)
  have "j = k" if "(endpoint, j) \<in> set (session_map s)" for j
    using that entry inv by (meson eq_key_imp_eq_value table_inv_def)
  then have "(e, j) \<in> set (filter (\<lambda>(e, _). e \<noteq> endpoint) (session_map s)) \<longleftrightarrow>
      j < length ((procedure_list s)[k := Succeeded]) \<and>
      (procedure_list s)[k := Succeeded] ! j \<in> {Serving e, Completed e}" for e j
    using inv k by (auto simp: table_inv_def nth_list_update)
  moreover have "session_map (erase_session k endpoint s) = filter (\<lambda>(e, _). e \<noteq> endpoint) (session_map s)"
      "procedure_list (erase_session k endpoint s) = (procedure_list s)[k := Succeeded]"
      "schedule_worker (erase_session k endpoint s) \<longrightarrow> session_map (erase_session k endpoint s) \<noteq> []"
    by (auto simp: erase_session_def Let_def)
  ultimately show ?thesis
    using keys unfolding table_inv_def by presburger
qed

lemma app_step_inv:
  assumes inv: "table_inv s" and "app_step config enabler s t"
  shows "table_inv t"
  using assms(2)
proof cases
  case (app_event i)
  show ?thesis
  proof (cases i)
    case (Accept_done result)
    then obtain p where "t = s\<lparr>procedure_list := procedure_list s @ [p]\<rparr>" "\<nexists>e. p \<in> {Serving e, Completed e}"
      using app_event by (auto split: if_splits sum.splits)
    with inv show ?thesis
      by (auto simp: table_inv_def nth_append less_Suc_eq)
  next
    case (Serial_executor k)
    with app_event enter_session_inv [OF inv] erase_session_inv [OF inv] show ?thesis
      by (auto split: if_splits procedure.splits)
  next
    case (Session_done k)
    then obtain endpoint where "k < length (procedure_list s)" "procedure_list s ! k = Serving endpoint"
        "t = s\<lparr>procedure_list := (procedure_list s)[k := Completed endpoint]\<rparr>"
      using app_event by (auto split: if_splits procedure.splits)
    with inv show ?thesis
      by (auto simp: table_inv_def nth_list_update)
  next
    case Signal
    with app_event inv show ?thesis by (auto simp: table_inv_def)
  qed
qed

lemma app_reachable_inv:
  assumes "(app_step config enabler)\<^sup>*\<^sup>* s0 s" and "app_server_create is_dir directory = Inr s0"
  shows "table_inv s"
  using assms(1)
proof (induction rule: rtranclp_induct)
  case base
  show ?case using assms(2) by (auto simp: app_server_create_def table_inv_def split: if_splits)
qed (rule app_step_inv)


definition sample_config :: config_source where
  "sample_config = \<lparr>bool_entry = (\<lambda>_. Inr True), int_entry = (\<lambda>_. Inr 5)\<rparr>"

definition sample_app :: app_server where
  "sample_app = \<lparr>session_map = [], schedule_worker = False, acceptor_cancellation = 0, procedure_list = []\<rparr>"


text \<open>
  Switching an element on makes \<open>load_element\<close> read its configuration entry and switching it
  off makes it answer false without reading one; the other elements keep their answers, and the
  element without an entry is out of range for both operations.
\<close>

theorem enable_then_load:
  assumes "type \<noteq> Last_element"
  shows "(\<exists>enabler. enable_element type enable element_manual_enabler = Inr (True, enabler) \<and>
      (enable \<or> load_element config enabler type = Inr (Bool_value False)) \<and>
      load_element config enabler other =
        (if other = type then load_element config enabler type
         else load_element config element_manual_enabler other)) \<and>
    load_element config element_manual_enabler Last_element = Inl (Throw Out_of_range_error)"
  using assms
  by (cases type; cases other)
    (simp_all add: enable_element_def load_element_def element_manual_enabler_def)

theorem enable_then_load_witness:
  "\<exists>enabler. enable_element Bandwidth_limit True element_manual_enabler = Inr (True, enabler) \<and>
     load_element sample_config enabler Bandwidth_upload_rate =
       load_element sample_config element_manual_enabler Bandwidth_upload_rate"
  using enable_then_load [of Bandwidth_limit True sample_config Bandwidth_upload_rate] by auto

end
