(* ===== verification/Documents.thy ===== *)
theory Documents
  imports Prelude
begin

text \<open>
  The interfaces of the two document libraries the program uses. An XML document (tinyxml2) is a
  record of functions on its elements; a JSON value (nlohmann) is known by what \<open>operator[]\<close> and
  \<open>get\<close> do, with their documented laws as the locale \<open>json_library\<close>. A concrete instance of each
  stands at the end of its section.
\<close>

section \<open>XML elements\<close>

record 'e dom =
  element_name :: "'e \<Rightarrow> string"
  child_elements :: "'e \<Rightarrow> 'e list"
  later_siblings :: "'e \<Rightarrow> 'e list"
  attribute :: "'e \<Rightarrow> string \<Rightarrow> string option"
  get_text :: "'e \<Rightarrow> string option"

definition first_child_element :: "'e dom \<Rightarrow> string \<Rightarrow> 'e \<Rightarrow> 'e option" where
  "first_child_element d name e = List.find (\<lambda>c. element_name d c = name) (child_elements d e)"

text \<open>A document as a tree; an element is a position, the element with its later siblings.\<close>

datatype xml = Xml string "(string \<times> string) list" "string option" "xml list"

fun suffixes_from :: "xml list \<Rightarrow> xml list list" where
  "suffixes_from [] = []"
| "suffixes_from (x # xs) = (x # xs) # suffixes_from xs"

fun xml_name :: "xml \<Rightarrow> string" where "xml_name (Xml n as t cs) = n"
fun xml_attributes :: "xml \<Rightarrow> (string \<times> string) list" where "xml_attributes (Xml n as t cs) = as"
fun xml_text :: "xml \<Rightarrow> string option" where "xml_text (Xml n as t cs) = t"
fun xml_children :: "xml \<Rightarrow> xml list" where "xml_children (Xml n as t cs) = cs"

definition tree_dom :: "xml list dom" where
  "tree_dom = \<lparr>element_name = (\<lambda>p. xml_name (hd p)),
     child_elements = (\<lambda>p. suffixes_from (xml_children (hd p))),
     later_siblings = (\<lambda>p. suffixes_from (tl p)),
     attribute = (\<lambda>p name. map_of (xml_attributes (hd p)) name),
     get_text = (\<lambda>p. xml_text (hd p))\<rparr>"

section \<open>JSON values\<close>

text \<open>
  Indexing a mutable value by a field name gives the field and the way a change of the field changes
  the value: a null value becomes an object and a missing field is created.
\<close>

type_synonym 'j indexer = "string \<Rightarrow> 'j \<Rightarrow> ('j \<times> ('j \<Rightarrow> 'j)) outcome"

definition type_error :: fault where
  "type_error = Throw (Runtime_error ''type_error'')"

locale json_library =
  fixes index :: "'j indexer"
    and get_string :: "'j \<Rightarrow> string outcome"
    and get_field :: "'j \<Rightarrow> string \<Rightarrow> 'j option"
  assumes index_update: "index name v = Inr (w, put_back) \<Longrightarrow>
      get_field (put_back u) n = (if n = name then Some u else get_field v n)"
    and index_found: "index name v = Inr (w, put_back) \<Longrightarrow> get_field v name = Some u \<Longrightarrow> w = u"
    and index_missing: "index name v = Inr (w, put_back) \<Longrightarrow> get_field v name = None \<Longrightarrow>
      get_field w n = None \<and> get_string w = Inl type_error"
    and index_object: "index name v = Inr (w, put_back) \<Longrightarrow>
      get_string v = Inl type_error \<and> get_string (put_back u) = Inl type_error"
    and index_error: "index name v = Inl e \<Longrightarrow> e = type_error \<and> get_field v n = None"

datatype json =
    Json_null | Json_boolean bool | Json_number int | Json_string string | Json_array "json list"
  | Json_object "(string \<times> json) list"

fun put :: "string \<Rightarrow> json \<Rightarrow> (string \<times> json) list \<Rightarrow> (string \<times> json) list" where
  "put name v [] = [(name, v)]"
| "put name v ((n, w) # entries) = (if n = name then (n, v) # entries else (n, w) # put name v entries)"

definition json_field :: "string \<Rightarrow> (string \<times> json) list \<Rightarrow> json" where
  "json_field name entries = (case map_of entries name of None \<Rightarrow> Json_null | Some v \<Rightarrow> v)"

definition json_index :: "json indexer" where
  "json_index name v =
     (case v of
        Json_null \<Rightarrow> Inr (Json_null, \<lambda>u. Json_object [(name, u)])
      | Json_object entries \<Rightarrow> Inr (json_field name entries, \<lambda>u. Json_object (put name u entries))
      | _ \<Rightarrow> Inl type_error)"

definition json_string :: "json \<Rightarrow> string outcome" where
  "json_string v = (case v of Json_string s \<Rightarrow> Inr s | _ \<Rightarrow> Inl type_error)"

definition json_get_field :: "json \<Rightarrow> string \<Rightarrow> json option" where
  "json_get_field v name = (case v of Json_object entries \<Rightarrow> map_of entries name | _ \<Rightarrow> None)"

lemma map_of_put: "map_of (put name v entries) n = (if n = name then Some v else map_of entries n)"
  by (induction entries) auto

interpretation json_tree: json_library json_index json_string json_get_field
  by unfold_locales
    (auto simp: json_index_def json_string_def json_get_field_def json_field_def map_of_put
      split: json.splits if_splits option.splits)

end
