(* ===== verification/Net_Config.thy ===== *)
theory Net_Config
  imports Documents
begin

text \<open>
  \<^verbatim>\<open>src/network/net.cpp\<close>: the configuration directory and its lazy choice, the JSON configuration with
  the mutating lookup of \<^verbatim>\<open>nlohmann::json\<close>, the XML lookup, and the pool of threads that run an
  \<open>io_context\<close> until its deleter joins them.
\<close>

section \<open>The configuration directory\<close>

record config_store =
  workset_paths :: "string list"
  config_paths :: "(string \<times> string) option" \<comment> \<open>the lazy pair of \<^verbatim>\<open>config.xml\<close> and \<^verbatim>\<open>config.json\<close>\<close>

definition config_store_create :: "string \<Rightarrow> string \<Rightarrow> config_store" where
  "config_store_create current_path net_config_dir =
     \<lparr>workset_paths = [current_path, net_config_dir], config_paths = None\<rparr>"

definition add_config_path :: "(string \<Rightarrow> bool) \<Rightarrow> string \<Rightarrow> config_store \<Rightarrow> config_store" where
  "add_config_path is_dir path s =
     (if is_dir path then s\<lparr>workset_paths := workset_paths s @ [path]\<rparr> else s)"

text \<open>
  The function is \<open>noexcept\<close>; its first call searches the directories from the last to the first.
\<close>

definition find_config_dir :: "(string \<Rightarrow> bool) \<Rightarrow> string list \<Rightarrow> string option" where
  "find_config_dir is_dir paths = List.find is_dir (rev paths)"

definition config_path :: "(string \<Rightarrow> bool) \<Rightarrow> bool \<Rightarrow> config_store \<Rightarrow> (string \<times> config_store) outcome" where
  "config_path is_dir json s =
     (case config_paths s of
        Some (xml_path, json_path) \<Rightarrow> Inr (if json then json_path else xml_path, s)
      | None \<Rightarrow>
          (case find_config_dir is_dir (workset_paths s) of
             None \<Rightarrow> Inl Assert_failed
           | Some config_dir \<Rightarrow>
               let xml_path = config_dir @ ''/config.xml''; json_path = config_dir @ ''/config.json''
               in Inr (if json then json_path else xml_path, s\<lparr>config_paths := Some (xml_path, json_path)\<rparr>)))"

text \<open>Calls that add directories, in their order.\<close>

definition add_all :: "(string \<Rightarrow> bool) \<Rightarrow> string list \<Rightarrow> config_store \<Rightarrow> config_store" where
  "add_all is_dir ps s = foldl (\<lambda>s p. add_config_path is_dir p s) s ps"

lemma add_all_paths: "workset_paths (add_all is_dir ps s) = workset_paths s @ filter is_dir ps"
  by (induction ps arbitrary: s) (auto simp: add_all_def add_config_path_def)

lemma add_all_frozen: "config_paths (add_all is_dir ps s) = config_paths s"
  by (induction ps arbitrary: s) (auto simp: add_all_def add_config_path_def)

lemma find_last: "is_dir d \<Longrightarrow> find_config_dir is_dir (ps @ [d]) = Some d"
  by (simp add: find_config_dir_def)

text \<open>
  The configuration directory is the last valid directory added before the configuration is
  first used, and directories added later change nothing.
\<close>

theorem config_path_last_directory:
  assumes "is_dir d" and "filter is_dir later = []"
    and "s = add_all is_dir (earlier @ [d] @ later) (config_store_create current_path net_config_dir)"
  shows "\<exists>t. config_path is_dir True s = Inr (d @ ''/config.json'', t) \<and>
    (\<exists>u. config_path is_dir json (add_all is_dir added t) =
      Inr (d @ (if json then ''/config.json'' else ''/config.xml''), u))"
proof -
  have "workset_paths s = ([current_path, net_config_dir] @ filter is_dir earlier) @ [d]"
    using assms by (simp add: add_all_paths config_store_create_def)
  then have "find_config_dir is_dir (workset_paths s) = Some d"
    using find_last [of is_dir d, OF assms(1)] by metis
  moreover have "config_paths s = None"
    using assms(3) by (simp add: add_all_frozen config_store_create_def)
  ultimately show ?thesis
    by (simp add: config_path_def add_all_frozen Let_def)
qed

theorem config_path_last_directory_witness:
  "\<exists>t. config_path (\<lambda>p. p \<noteq> ''x'') True
       (add_all (\<lambda>p. p \<noteq> ''x'') [''a'', ''b'', ''x''] (config_store_create ''cwd'' ''etc'')) =
       Inr (''b/config.json'', t)"
  using config_path_last_directory [of "\<lambda>p. p \<noteq> ''x''" "''b''" "[''x'']"
      "add_all (\<lambda>p. p \<noteq> ''x'') [''a'', ''b'', ''x''] (config_store_create ''cwd'' ''etc'')" "[''a'']" "''cwd''" "''etc''" True "[]"]
  by auto

section \<open>The JSON configuration\<close>

text \<open>
  The reference that the chain of \<open>operator[]\<close> returns is a path into the document, so following a
  path gives the value and the document it leaves.
\<close>

fun json_walk :: "'j indexer \<Rightarrow> string list \<Rightarrow> 'j \<Rightarrow> ('j \<times> 'j) outcome" where
  "json_walk index [] v = Inr (v, v)"
| "json_walk index (name # names) v =
     and_then (index name v) (\<lambda>(child, put_back).
       and_then (json_walk index names child) (\<lambda>(entry, w). Inr (entry, put_back w)))"

text \<open>
  The document is read once: the stream must be good (an assertion), and a parse error is rethrown
  with a message. Afterwards it is the cached document, as the lookups have left it.
\<close>

record 'j json_cache =
  config_json :: "'j option"

definition load_json :: "bool \<Rightarrow> 'j outcome \<Rightarrow> 'j outcome" where
  "load_json good parsed =
     assert_that good
       (case parsed of
          Inr v \<Rightarrow> Inr v
        | Inl e \<Rightarrow> Inl (Throw (Config_error ''invalid json config'')))"

definition config_json_entry ::
  "'j indexer \<Rightarrow> 'j outcome \<Rightarrow> string list \<Rightarrow> 'j json_cache \<Rightarrow> 'j outcome \<times> 'j json_cache" where
  "config_json_entry index loaded entry_path c =
     (case (case config_json c of Some doc \<Rightarrow> Inr doc | None \<Rightarrow> loaded) of
        Inl e \<Rightarrow> (Inl e, c)
      | Inr doc \<Rightarrow>
          if entry_path = [] then (Inl Undefined_behaviour, c\<lparr>config_json := Some doc\<rparr>)
          else case json_walk index entry_path doc of
            Inl e \<Rightarrow> (Inl e, c\<lparr>config_json := Some doc\<rparr>)
          | Inr (entry, doc1) \<Rightarrow> (Inr entry, c\<lparr>config_json := Some doc1\<rparr>))"

text \<open>\<open>absl::StrSplit\<close> with \<open>SkipWhitespace\<close> drops the pieces that are empty or blank.\<close>

definition blank :: "string \<Rightarrow> bool" where
  "blank piece \<longleftrightarrow> list_all (\<lambda>c. c \<in> {CHR '' '', CHR 0x09, CHR 0x0A, CHR 0x0B, CHR 0x0C, CHR 0x0D}) piece"

definition entry_path_of :: "string \<Rightarrow> string list" where
  "entry_path_of entry_name = filter (\<lambda>piece. \<not> blank piece) (split_on (CHR ''.'') entry_name)"

text \<open>\<open>config_entry\<close> at \<open>std::string\<close>.\<close>

definition config_entry ::
  "'j indexer \<Rightarrow> ('j \<Rightarrow> string outcome) \<Rightarrow> 'j outcome \<Rightarrow> string \<Rightarrow> 'j json_cache \<Rightarrow>
   string outcome \<times> 'j json_cache" where
  "config_entry index get_string loaded entry_name c =
     (let (r, c1) = config_json_entry index loaded (entry_path_of entry_name) c
      in (and_then r get_string, c1))"

text \<open>A sequence of lookups, each on the document the earlier ones have left.\<close>

fun lookup_all ::
  "'j indexer \<Rightarrow> ('j \<Rightarrow> string outcome) \<Rightarrow> 'j outcome \<Rightarrow> string list \<Rightarrow> 'j json_cache \<Rightarrow> string outcome list" where
  "lookup_all index get_string loaded [] c = []"
| "lookup_all index get_string loaded (m # ms) c =
     (let (r, c1) = config_entry index get_string loaded m c
      in r # lookup_all index get_string loaded ms c1)"

text \<open>The abstract configuration: a fixed document and the strings found in it.\<close>

fun string_at ::
  "('j \<Rightarrow> string outcome) \<Rightarrow> ('j \<Rightarrow> string \<Rightarrow> 'j option) \<Rightarrow> string list \<Rightarrow> 'j \<Rightarrow> string outcome" where
  "string_at get_string get_field [] v = get_string v"
| "string_at get_string get_field (name # names) v =
     (case get_field v name of None \<Rightarrow> Inl type_error | Some w \<Rightarrow> string_at get_string get_field names w)"

definition entry_of ::
  "('j \<Rightarrow> string outcome) \<Rightarrow> ('j \<Rightarrow> string \<Rightarrow> 'j option) \<Rightarrow> 'j \<Rightarrow> string \<Rightarrow> string outcome" where
  "entry_of get_string get_field doc m =
     (if entry_path_of m = [] then Inl Undefined_behaviour
      else string_at get_string get_field (entry_path_of m) doc)"

context json_library
begin

abbreviation strings :: "string list \<Rightarrow> 'j \<Rightarrow> string outcome" where
  "strings \<equiv> string_at get_string get_field"

lemma strings_null: "(\<And>n. get_field w n = None) \<Longrightarrow> get_string w = Inl type_error \<Longrightarrow> strings ps w = Inl type_error"
  by (cases ps) auto

lemma strings_child:
  "index name v = Inr (child, put_back) \<Longrightarrow> strings (name # qs) v = strings qs child"
  using index_found index_missing strings_null by (cases "get_field v name") fastforce+

text \<open>A lookup creates null fields and objects only: every path finds the string it found before.\<close>

lemma json_walk_strings: "json_walk index names v = Inr (w, v') \<Longrightarrow> strings ps v' = strings ps v"
proof (induction names arbitrary: v w v' ps)
  case (Cons name names)
  then obtain child put_back w1 where ix: "index name v = Inr (child, put_back)"
    and step: "json_walk index names child = Inr (w, w1)" and v': "v' = put_back w1"
    by (auto simp: outcome_simps)
  show ?case
  proof (cases ps)
    case Nil
    with v' index_object [OF ix] show ?thesis by simp
  next
    case (Cons q qs)
    show ?thesis
    proof (cases "q = name")
      case True
      with Cons v' index_update [OF ix] show ?thesis
        using Cons.IH [OF step, of qs] strings_child [OF ix, of qs] by simp
    next
      case False
      with Cons v' index_update [OF ix] show ?thesis by simp
    qed
  qed
qed simp

lemma json_walk_value: "json_walk index names v = Inr (w, v') \<Longrightarrow> get_string w = strings names v"
proof (induction names arbitrary: v v')
  case (Cons name names)
  then obtain child put_back w1 where "index name v = Inr (child, put_back)"
    and step: "json_walk index names child = Inr (w, w1)"
    by (auto simp: outcome_simps)
  then show ?case
    using Cons.IH [OF step] strings_child by metis
qed simp

lemma json_walk_error: "json_walk index names v = Inl e \<Longrightarrow> e = type_error \<and> strings names v = Inl type_error"
proof (induction names arbitrary: v)
  case (Cons name names)
  show ?case
  proof (cases "index name v")
    case (Inl e')
    with Cons.prems index_error [OF Inl] show ?thesis by simp
  next
    case (Inr r)
    then obtain child put_back where ix: "index name v = Inr (child, put_back)" by (cases r) auto
    with Cons.prems have "json_walk index names child = Inl e"
      by (auto simp: and_then_def split: sum.splits)
    from Cons.IH [OF this] show ?thesis using strings_child [OF ix] by simp
  qed
qed simp

definition same_strings :: "'j \<Rightarrow> 'j \<Rightarrow> bool" where
  "same_strings d e \<longleftrightarrow> (\<forall>ps. strings ps d = strings ps e)"

lemma config_entry_step:
  assumes "case config_json c of Some d \<Rightarrow> same_strings d doc | None \<Rightarrow> True"
  shows "fst (config_entry index get_string (Inr doc) m c) = entry_of get_string get_field doc m \<and>
    (\<exists>d. config_json (snd (config_entry index get_string (Inr doc) m c)) = Some d \<and> same_strings d doc)"
proof -
  obtain d where d: "(case config_json c of Some d \<Rightarrow> Inr d | None \<Rightarrow> Inr doc) = (Inr d :: 'j outcome)"
    and same: "same_strings d doc"
    using assms by (cases "config_json c") (auto simp: same_strings_def)
  show ?thesis
  proof (cases "entry_path_of m = []")
    case True
    with d same show ?thesis by (simp add: config_entry_def config_json_entry_def entry_of_def)
  next
    case False
    then have spec: "entry_of get_string get_field doc m = strings (entry_path_of m) d"
      using same by (simp add: entry_of_def same_strings_def)
    show ?thesis
    proof (cases "json_walk index (entry_path_of m) d")
      case (Inl e)
      with False d same spec json_walk_error [OF Inl] show ?thesis
        by (simp add: config_entry_def config_json_entry_def)
    next
      case (Inr r)
      then obtain w d1 where walk: "json_walk index (entry_path_of m) d = Inr (w, d1)" by (cases r) auto
      have "same_strings d1 doc"
        using json_walk_strings [OF walk] same by (simp add: same_strings_def)
      with walk False d spec json_walk_value [OF walk] show ?thesis
        by (simp add: config_entry_def config_json_entry_def)
    qed
  qed
qed

lemma lookup_all_strings:
  "case config_json c of Some d \<Rightarrow> same_strings d doc | None \<Rightarrow> True \<Longrightarrow>
     lookup_all index get_string (Inr doc) ms c = map (entry_of get_string get_field doc) ms"
proof (induction ms arbitrary: c)
  case (Cons m ms)
  from config_entry_step [OF Cons.prems, of m] obtain d where
    "fst (config_entry index get_string (Inr doc) m c) = entry_of get_string get_field doc m"
    "config_json (snd (config_entry index get_string (Inr doc) m c)) = Some d" "same_strings d doc" by auto
  with Cons.IH [of "snd (config_entry index get_string (Inr doc) m c)"] show ?case
    by (simp add: split_beta)
qed simp

end

text \<open>
  Claim C18. Although every lookup goes through the inserting \<open>operator[]\<close> and changes the cached
  document, no sequence of string lookups can observe it: each one answers as it would on the document
  of the file, in any order and after any failed lookup.
\<close>

theorem config_lookups_independent:
  assumes "json_library index get_string get_field"
  shows "lookup_all index get_string (load_json True (Inr doc)) ms \<lparr>config_json = None\<rparr> =
    map (entry_of get_string get_field doc) ms"
  using json_library.lookup_all_strings [OF assms, where c = "\<lparr>config_json = None\<rparr>" and doc = doc and ms = ms]
  by (simp add: load_json_def)

text \<open>A failed lookup of \<^verbatim>\<open>a.b\<close> leaves \<^verbatim>\<open>a\<close> an object; a later lookup of \<^verbatim>\<open>c\<close> is as before.\<close>

theorem config_lookups_independent_witness:
  "lookup_all json_index json_string (load_json True (Inr (Json_object [(''c'', Json_string ''x'')])))
     [''a.b'', ''c'', ''a''] \<lparr>config_json = None\<rparr> = [Inl type_error, Inr ''x'', Inl type_error]"
  using config_lookups_independent [OF json_tree.json_library_axioms,
      of "Json_object [(''c'', Json_string ''x'')]" "[''a.b'', ''c'', ''a'']"]
  by (simp add: entry_of_def entry_path_of_def blank_def json_get_field_def json_string_def)

section \<open>The XML configuration\<close>

fun xml_walk :: "'e dom \<Rightarrow> string list \<Rightarrow> 'e option \<Rightarrow> 'e option outcome" where
  "xml_walk d [] config_node = Inr config_node"
| "xml_walk d (node_name # names) config_node =
     (case config_node of
        None \<Rightarrow> Inl Assert_failed
      | Some node \<Rightarrow> xml_walk d names (first_child_element d node_name node))"

text \<open>
  The walk starts at the document node, which is not an element: with no name to follow, or at a
  name that is missing, or at an element without text, a null pointer is read.
\<close>

definition config_xml_entry :: "'e dom \<Rightarrow> 'e option \<Rightarrow> string list \<Rightarrow> string outcome" where
  "config_xml_entry d loaded entry_path =
     (case loaded of
        None \<Rightarrow> Inl Assert_failed
      | Some document \<Rightarrow>
          and_then (xml_walk d entry_path (Some document)) (\<lambda>config_node.
            if entry_path = [] then Inl Undefined_behaviour
            else and_then (deref config_node) (\<lambda>node. deref (get_text d node))))"

section \<open>The pool of an io_context\<close>

datatype pool_action = Reset_guard | Stop_context | Join_thread nat | Delete_context

text \<open>The threads of the pool, each joinable or not, and what the deleter does in order.\<close>

definition make_asio_threads :: "nat \<Rightarrow> bool list" where
  "make_asio_threads concurrency = replicate concurrency True"

fun join_threads :: "nat \<Rightarrow> bool list \<Rightarrow> nat \<times> pool_action list" where
  "join_threads k [] = (0, [])"
| "join_threads k (joinable # threads) =
     (let (join_count, actions) = join_threads (Suc k) threads
      in if joinable then (Suc join_count, Join_thread k # actions) else (join_count, actions))"

definition asio_deleter :: "bool list \<Rightarrow> nat \<times> pool_action list" where
  "asio_deleter threads =
     (let (join_count, joins) = join_threads 0 threads
      in (join_count, [Reset_guard, Stop_context] @ joins @ [Delete_context]))"

lemma join_threads_all:
  "join_threads k (replicate n True) = (n, map Join_thread [k..<k + n])"
  by (induction n arbitrary: k) (auto simp: upt_conv_Cons)

text \<open>
  Deleting a pool of \<open>n\<close> threads releases the work guard, stops the context, joins each of its
  threads once and only then destroys the context.
\<close>

theorem asio_pool_joined_before_deleted:
  "asio_deleter (make_asio_threads n) =
     (n, [Reset_guard, Stop_context] @ map Join_thread [0..<n] @ [Delete_context])"
  by (simp add: asio_deleter_def make_asio_threads_def join_threads_all)

end
