(* ===== verification/Command.thy ===== *)
theory Command
  imports Core_Files Core_Verify
begin

text \<open>
  \<^verbatim>\<open>src/multimedia/command.cpp\<close> and \<^verbatim>\<open>command.h\<close>: the commands that cut a video into tiles, package
  and segment them, and the names of the files they produce. A shell is the file system and the
  programs run so far. What a program does to the files, the decimal text, the regular expressions,
  the native spelling of a path and the size of a video are parameters. The merge of the manifests
  is in \<open>Mpd_Merge\<close>.
\<close>

section \<open>Parameters and state\<close>

datatype program_call = Shell string | Program string "string list"

record shell =
  files :: fs
  issued :: "program_call list"

record command_lib =
  format_int :: "int \<Rightarrow> string"
  parse_int :: "string \<Rightarrow> int option"
  full_match :: "string \<Rightarrow> string \<Rightarrow> string list option" \<comment> \<open>text and pattern to captures\<close>
  native_string :: "path \<Rightarrow> string"
  search_path :: "string \<Rightarrow> string"
  video_scale :: "path \<Rightarrow> (int \<times> int) outcome"
  run_program :: "program_call \<Rightarrow> fs \<Rightarrow> fs"

record filter_param =
  wcrop :: int
  hcrop :: int
  wscale :: int
  hscale :: int

record rate_control =
  bit_rate :: int
  frame_rate :: int

record pace_control =
  stride :: int
  pace_offset :: int

text \<open>The static members of \<open>command\<close>.\<close>

record command = filter_param +
  output_directory :: path

definition system_call :: "command_lib \<Rightarrow> program_call \<Rightarrow> shell \<Rightarrow> shell" where
  "system_call lib call st =
     st\<lparr>files := run_program lib call (files st), issued := issued st @ [call]\<rparr>"

definition generic_string :: "path \<Rightarrow> string" where
  "generic_string p = join (CHR ''/'') p"

section \<open>Helpers\<close>

definition ceil_even :: "int \<Rightarrow> int" where
  "ceil_even num = (if num smod 2 \<noteq> 0 then num + 1 else num)"

definition filter_param_less :: "filter_param \<Rightarrow> filter_param \<Rightarrow> bool" where
  "filter_param_less l r \<longleftrightarrow> wcrop l < wcrop r \<or> (wcrop r = wcrop l \<and> hcrop l < hcrop r)"

definition checked_output_directory :: "command \<Rightarrow> fs \<Rightarrow> path outcome" where
  "checked_output_directory c s =
     assert_that (output_directory c \<noteq> [])
       (assert_that (is_directory s (output_directory c)) (Inr (output_directory c)))"

definition output_tile_directory :: "command \<Rightarrow> fs \<Rightarrow> string \<Rightarrow> path \<Rightarrow> string \<Rightarrow> (string \<times> path) outcome" where
  "output_tile_directory c s kind input param =
     (let file_stem = name_stem (filename input)
      in and_then (checked_output_directory c s) (\<lambda>d.
           Inr (file_stem, path_append (path_append (path_append d [file_stem]) [param]) [kind])))"

definition output_h264_directory :: "command \<Rightarrow> fs \<Rightarrow> path \<Rightarrow> string \<Rightarrow> (string \<times> path) outcome" where
  "output_h264_directory c s input param = output_tile_directory c s ''h264'' input param"

definition output_mp4_directory :: "command \<Rightarrow> fs \<Rightarrow> path \<Rightarrow> string \<Rightarrow> (string \<times> path) outcome" where
  "output_mp4_directory c s input param = output_tile_directory c s ''mp4'' input param"

definition output_path :: "command \<Rightarrow> fs \<Rightarrow> path \<Rightarrow> path outcome" where
  "output_path c s input =
     and_then (checked_output_directory c s) (\<lambda>d. Inr (path_append d [filename input]))"

definition output_path_string :: "command \<Rightarrow> fs \<Rightarrow> path \<Rightarrow> string outcome" where
  "output_path_string c s input = and_then (output_path c s input) (\<lambda>out. Inr (generic_string out))"

text \<open>Used by no command.\<close>

definition output_file_directory :: "command \<Rightarrow> fs \<Rightarrow> path \<Rightarrow> path outcome" where
  "output_file_directory c s input =
     and_then (checked_output_directory c s) (\<lambda>d. Inr (path_append d [name_stem (filename input)]))"

definition mesh_description_rate :: "(int \<Rightarrow> string) \<Rightarrow> int \<Rightarrow> int \<Rightarrow> rate_control \<Rightarrow> string" where
  "mesh_description_rate fmt w h rate = fmt w @ ''x'' @ fmt h @ ''_'' @ fmt (bit_rate rate)"

definition mesh_description_qp :: "(int \<Rightarrow> string) \<Rightarrow> int \<Rightarrow> int \<Rightarrow> int \<Rightarrow> string" where
  "mesh_description_qp fmt w h qp = fmt w @ ''x'' @ fmt h @ ''_qp'' @ fmt qp"

section \<open>Resizing\<close>

definition resize :: "command_lib \<Rightarrow> command \<Rightarrow> path \<Rightarrow> int \<Rightarrow> int \<Rightarrow> shell \<Rightarrow> shell outcome" where
  "resize lib c input w h st =
     and_then (output_path_string c (files st) input) (\<lambda>out.
       Inr (system_call lib (Program (search_path lib ''ffmpeg'')
         [''-i'', native_string lib input, ''-s'', format_int lib w @ ''x'' @ format_int lib h, out]) st))"

section \<open>Cutting into tiles\<close>

text \<open>
  The encoder options. The bit rate is divided by the number of times thirty goes into the frame
  rate, so a frame rate below thirty divides by zero.
\<close>

definition x264_encode_param :: "(int \<Rightarrow> string) \<Rightarrow> rate_control \<Rightarrow> string outcome" where
  "x264_encode_param fmt rate =
     and_then (cdiv (bit_rate rate) (frame_rate rate sdiv 30)) (\<lambda>rate_of_30.
       Inr (join (CHR '':'')
         [''keyint='' @ fmt 30, ''min-keyint='' @ fmt 30, ''bitrate='' @ fmt rate_of_30,
          ''vbv-maxrate='' @ fmt (rate_of_30 * 2), ''vbv-bufsize='' @ fmt (rate_of_30 * 4),
          ''fps='' @ fmt 30, ''scenecut=0'', ''no-scenecut=1'', ''pass=1'']))"

text \<open>
  The loops \<open>for (i = 0; i != wcrop; ++i) for (j = 0; j != hcrop; ++j)\<close>: a negative bound is passed
  by, and the counter overflows.
\<close>

definition grid_tiles :: "int \<Rightarrow> int \<Rightarrow> (int \<times> int) list outcome" where
  "grid_tiles w h =
     (if w < 0 \<or> (0 < w \<and> h < 0) then Inl Undefined_behaviour
      else Inr (concat (map (\<lambda>i. map (\<lambda>j. (i, j)) [0..h - 1]) [0..w - 1])))"

text \<open>The tiles one pass takes: the others are skipped by \<open>continue\<close>.\<close>

definition pace_tiles :: "command \<Rightarrow> pace_control \<Rightarrow> (int \<times> int) list \<Rightarrow> (int \<times> int) list" where
  "pace_tiles c pace tiles = filter (\<lambda>(i, j).
     \<not> (i * hcrop c + j < pace_offset pace \<or> i * hcrop c + j \<ge> pace_offset pace + stride pace)) tiles"

definition crop_filter :: "(int \<Rightarrow> string) \<Rightarrow> command \<Rightarrow> int \<Rightarrow> int \<Rightarrow> string \<Rightarrow> int \<times> int \<Rightarrow> string" where
  "crop_filter fmt c w h scale_text = (\<lambda>(i, j).
     ''[0:v]crop='' @ fmt (w sdiv wcrop c) @ '':'' @ fmt (h sdiv hcrop c) @ '':'' @
       fmt (w * i sdiv wcrop c) @ '':'' @ fmt (h * j sdiv hcrop c) @ '','' @ scale_text @
       ''[v'' @ fmt i @ '':'' @ fmt j @ ''];'')"

definition scale_filter :: "(int \<Rightarrow> string) \<Rightarrow> command \<Rightarrow> int \<Rightarrow> int \<Rightarrow> string outcome" where
  "scale_filter fmt c w h =
     and_then (cdiv w (wcrop c)) (\<lambda>tile_width.
     and_then (cdiv tile_width (wscale c)) (\<lambda>scaled_width.
     and_then (cdiv h (hcrop c)) (\<lambda>tile_height.
     and_then (cdiv tile_height (hscale c)) (\<lambda>scaled_height.
       Inr (''scale='' @ fmt (ceil_even scaled_width) @ '':'' @ fmt (ceil_even scaled_height))))))"

text \<open>The last semicolon is removed; an empty string has no last character.\<close>

definition pop_back :: "string \<Rightarrow> string outcome" where
  "pop_back s = (if s = [] then Inl Undefined_behaviour else Inr (butlast s))"

definition crop_scale_map :: "command_lib \<Rightarrow> command \<Rightarrow> path \<Rightarrow> pace_control \<Rightarrow> string outcome" where
  "crop_scale_map lib c input pace =
     and_then (video_scale lib input) (\<lambda>(w, h).
     and_then (scale_filter (format_int lib) c w h) (\<lambda>scale_text.
     and_then (grid_tiles (wcrop c) (hcrop c)) (\<lambda>tiles.
       pop_back (concat (map (crop_filter (format_int lib) c w h scale_text) (pace_tiles c pace tiles))))))"

definition crop_tile_path :: "(int \<Rightarrow> string) \<Rightarrow> string \<Rightarrow> path \<Rightarrow> rate_control \<Rightarrow> int \<times> int \<Rightarrow> path" where
  "crop_tile_path fmt file_stem file_output_dir rate = (\<lambda>(i, j).
     path_append file_output_dir
       [file_stem @ ''_c'' @ fmt i @ ''r'' @ fmt j @ ''_'' @ fmt (bit_rate rate) @ ''kbps.264''])"

definition tile_params :: "(int \<Rightarrow> string) \<Rightarrow> string \<Rightarrow> path \<Rightarrow> rate_control \<Rightarrow> string \<Rightarrow> int \<times> int \<Rightarrow> string list" where
  "tile_params fmt file_stem file_output_dir rate encode_param = (\<lambda>(i, j).
     [''-map [v'' @ fmt i @ '':'' @ fmt j @ '']'', ''-c:v libx264'', ''-preset slow'', ''-x264-params'',
      encode_param, ''-f h264'', generic_string (crop_tile_path fmt file_stem file_output_dir rate (i, j))])"

definition transcode_command ::
  "command_lib \<Rightarrow> path \<Rightarrow> string \<Rightarrow> string \<Rightarrow> path \<Rightarrow> rate_control \<Rightarrow> string \<Rightarrow> (int \<times> int) list \<Rightarrow> string" where
  "transcode_command lib input filter_text file_stem file_output_dir rate encode_param tiles =
     join (CHR '' '')
       ([''ffmpeg'', ''-i'', native_string lib input,
         ''-filter_complex '' @ [CHR 0x22] @ filter_text @ [CHR 0x22]] @
        concat (map (tile_params (format_int lib) file_stem file_output_dir rate encode_param) tiles) @ [''-y''])"

text \<open>The first pass empties the directory, which must succeed; a later one only creates it.\<close>

definition prepare_directory :: "pace_control \<Rightarrow> path \<Rightarrow> fs \<Rightarrow> fs outcome" where
  "prepare_directory pace d s =
     (if pace_offset pace \<noteq> 0
      then and_then (create_directories s d) (\<lambda>(make_success, s'). Inr s')
      else and_then (make_empty_directory s d) (\<lambda>((remove_count, make_success), s').
             assert_that make_success (Inr s')))"

definition transcode_pass ::
  "command_lib \<Rightarrow> command \<Rightarrow> path \<Rightarrow> rate_control \<Rightarrow> pace_control \<Rightarrow> shell \<Rightarrow> shell outcome" where
  "transcode_pass lib c input rate pace st =
     and_then (crop_scale_map lib c input pace) (\<lambda>filter_text.
     and_then (output_h264_directory c (files st) input
       (mesh_description_rate (format_int lib) (wcrop c) (hcrop c) rate)) (\<lambda>(file_stem, file_output_dir).
     and_then (prepare_directory pace file_output_dir (files st)) (\<lambda>s.
     and_then (grid_tiles (wcrop c) (hcrop c)) (\<lambda>tiles.
     and_then (x264_encode_param (format_int lib) rate) (\<lambda>encode_param.
       Inr (system_call lib
         (Shell (transcode_command lib input filter_text file_stem file_output_dir rate encode_param
           (pace_tiles c pace tiles))) (st\<lparr>files := s\<rparr>)))))))"

text \<open>One pass after the other, until every tile is behind the offset.\<close>

partial_function (option) crop_scale_transcode ::
  "command_lib \<Rightarrow> command \<Rightarrow> path \<Rightarrow> rate_control \<Rightarrow> pace_control \<Rightarrow> shell \<Rightarrow> shell outcome option" where
  "crop_scale_transcode lib c input rate pace st =
     (if pace_offset pace < wcrop c * hcrop c
      then (case transcode_pass lib c input rate pace st of
              Inl e \<Rightarrow> Some (Inl e)
            | Inr st' \<Rightarrow> crop_scale_transcode lib c input rate
                \<lparr>stride = stride pace, pace_offset = pace_offset pace + stride pace\<rparr> st')
      else Some (Inr st))"

section \<open>Packaging tiles\<close>

text \<open>Each tile is encoded on its own, row by row; the loop over an empty or reversed range does nothing.\<close>

definition tile_file_name :: "(int \<Rightarrow> string) \<Rightarrow> string \<Rightarrow> int \<Rightarrow> int \<Rightarrow> int \<Rightarrow> string" where
  "tile_file_name fmt stem col row qp =
     stem @ ''_c'' @ fmt col @ ''r'' @ fmt row @ ''_qp'' @ fmt qp @ ''.mp4''"

definition package_command ::
  "command_lib \<Rightarrow> command \<Rightarrow> path \<Rightarrow> int \<Rightarrow> path \<Rightarrow> int \<Rightarrow> int \<Rightarrow> string" where
  "package_command lib c input qp file_output_dir row col =
     (let fmt = format_int lib; iw = ''iw/'' @ fmt (wcrop c); ih = ''ih/'' @ fmt (hcrop c)
      in join (CHR '' '')
           [search_path lib ''ffmpeg'', ''-i '' @ native_string lib input,
            ''-vf crop='' @ iw @ '':'' @ ih @ '':'' @ fmt col @ ''*'' @ iw @ '':'' @ fmt row @ ''*'' @ ih,
            ''-c:v libx264'', ''-qp '' @ fmt qp,
            ''-x264-params keyint=30:min-keyint=30:scenecut=0:no-scenecut=1'', ''-an'', ''-f mp4'',
            native_string lib
              (path_append file_output_dir [tile_file_name fmt (name_stem (filename input)) col row qp]),
            ''-y''])"

definition package_tile ::
  "command_lib \<Rightarrow> command \<Rightarrow> path \<Rightarrow> int \<Rightarrow> int \<times> int \<Rightarrow> shell \<Rightarrow> shell outcome" where
  "package_tile lib c input qp = (\<lambda>(row, col) st.
     and_then (output_mp4_directory c (files st) input
       (mesh_description_qp (format_int lib) (wcrop c) (hcrop c) qp)) (\<lambda>(file_stem, file_output_dir).
     and_then (create_directories (files st) file_output_dir) (\<lambda>(created, s).
       Inr (system_call lib (Shell (package_command lib c input qp file_output_dir row col)) (st\<lparr>files := s\<rparr>)))))"

fun for_each :: "('a \<Rightarrow> 's \<Rightarrow> 's outcome) \<Rightarrow> 'a list \<Rightarrow> 's \<Rightarrow> 's outcome" where
  "for_each f [] s = Inr s"
| "for_each f (x # xs) s = and_then (f x s) (for_each f xs)"

definition crop_scale_package :: "command_lib \<Rightarrow> command \<Rightarrow> path \<Rightarrow> int \<Rightarrow> shell \<Rightarrow> shell outcome" where
  "crop_scale_package lib c input qp =
     for_each (package_tile lib c input qp)
       (concat (map (\<lambda>row. map (\<lambda>col. (row, col)) [0..wcrop c - 1]) [0..hcrop c - 1]))"

section \<open>The directories of a mesh\<close>

text \<open>A backslash, \<open>d\<close> and \<open>+\<close>.\<close>

definition digit_class :: string where
  "digit_class = CHR 0x5C # ''d+''"

definition mesh_regex :: "(int \<Rightarrow> string) \<Rightarrow> int \<Rightarrow> int \<Rightarrow> string" where
  "mesh_regex fmt w h = fmt w @ ''x'' @ fmt h @ ''_qp('' @ digit_class @ '')''"

text \<open>
  The compiled patterns are kept, and those made for a size are found again: whatever was looked up
  before, a lookup answers the pattern of its own size, so that the kept ones are left out from here on.
\<close>

definition cached_mesh_regex ::
  "(int \<Rightarrow> string) \<Rightarrow> int \<times> int \<Rightarrow> (int \<times> int \<Rightarrow> string option) \<Rightarrow> string \<times> (int \<times> int \<Rightarrow> string option)" where
  "cached_mesh_regex fmt cache_key cache =
     (case cache cache_key of
        Some regex \<Rightarrow> (regex, cache)
      | None \<Rightarrow>
          let regex_content = mesh_regex fmt (fst cache_key) (snd cache_key)
          in (regex_content, cache(cache_key \<mapsto> regex_content)))"

fun cached_mesh_regexes ::
  "(int \<Rightarrow> string) \<Rightarrow> (int \<times> int) list \<Rightarrow> (int \<times> int \<Rightarrow> string option) \<Rightarrow> string list" where
  "cached_mesh_regexes fmt [] cache = []"
| "cached_mesh_regexes fmt (key # keys) cache =
     (let (regex, cache1) = cached_mesh_regex fmt key cache in regex # cached_mesh_regexes fmt keys cache1)"

lemma cached_mesh_regexes_kept:
  "(\<And>key r. cache key = Some r \<Longrightarrow> r = mesh_regex fmt (fst key) (snd key)) \<Longrightarrow>
   cached_mesh_regexes fmt keys cache = map (\<lambda>key. mesh_regex fmt (fst key) (snd key)) keys"
proof (induction keys arbitrary: cache)
  case (Cons key keys)
  obtain r cache1 where one: "cached_mesh_regex fmt key cache = (r, cache1)" by (cases "cached_mesh_regex fmt key cache")
  then have "r = mesh_regex fmt (fst key) (snd key)"
    and "\<And>k r. cache1 k = Some r \<Longrightarrow> r = mesh_regex fmt (fst k) (snd k)"
    using Cons.prems by (auto simp: cached_mesh_regex_def Let_def split: option.splits if_splits)
  with Cons.IH one show ?case by simp
qed simp

corollary mesh_regexes_fresh:
  "cached_mesh_regexes fmt keys (\<lambda>_. None) = map (\<lambda>key. mesh_regex fmt (fst key) (snd key)) keys"
  by (rule cached_mesh_regexes_kept) simp

definition mesh_directories :: "command_lib \<Rightarrow> command \<Rightarrow> fs \<Rightarrow> path list outcome" where
  "mesh_directories lib c s =
     and_then (checked_output_directory c s) (\<lambda>d.
       Inr (filter_directory_entry s d (\<lambda>(p, n).
         full_match lib (name_stem (filename p)) (mesh_regex (format_int lib) (wcrop c) (hcrop c)) \<noteq> None)))"

definition mesh_rate_directory :: "command_lib \<Rightarrow> command \<Rightarrow> fs \<Rightarrow> path list outcome" where
  "mesh_rate_directory lib c s =
     and_then (checked_output_directory c s) (\<lambda>d.
       Inr (filter_directory_entry s d (\<lambda>(p, n).
         full_match lib (filename p)
           (format_int lib (wcrop c) @ ''x'' @ format_int lib (hcrop c) @ ''_'' @ digit_class) \<noteq> None)))"

definition mesh_qp_directory :: "command_lib \<Rightarrow> command \<Rightarrow> fs \<Rightarrow> path list outcome" where
  "mesh_qp_directory lib c s =
     and_then (checked_output_directory c s) (\<lambda>d.
       Inr (filter_directory_entry s d (\<lambda>(p, n).
         full_match lib (filename p)
           (format_int lib (wcrop c) @ ''x'' @ format_int lib (hcrop c) @ ''_qp'' @ digit_class) \<noteq> None)))"

section \<open>Containers and segments\<close>

definition emptied_directory :: "path \<Rightarrow> shell \<Rightarrow> shell outcome" where
  "emptied_directory d st =
     and_then (make_empty_directory (files st) d) (\<lambda>((remove_count, make_success), s).
       assert_that make_success (Inr (st\<lparr>files := s\<rparr>)))"

definition package_file ::
  "command_lib \<Rightarrow> rate_control \<Rightarrow> path \<Rightarrow> path \<times> node \<Rightarrow> shell \<Rightarrow> shell outcome" where
  "package_file lib rate mp4_directory entry st =
     (let h264_path = fst entry
      in assert_that (name_extension (filename h264_path) = ''.264'')
           (let mp4_path = replace_extension (path_append mp4_directory [filename h264_path]) ''.mp4''
            in Inr (system_call lib (Program (search_path lib ''MP4Box'')
                 [''-add'', generic_string h264_path, ''-fps'', format_int lib (frame_rate rate),
                  generic_string mp4_path]) st)))"

text \<open>The iterator lists the directory as it stands when the loop begins.\<close>

definition package_mesh :: "command_lib \<Rightarrow> rate_control \<Rightarrow> path \<Rightarrow> shell \<Rightarrow> shell outcome" where
  "package_mesh lib rate mesh_entry st =
     assert_that (is_directory (files st) mesh_entry)
       (let h264_directory = path_append mesh_entry [''h264'']; mp4_directory = path_append mesh_entry [''mp4'']
        in assert_that (is_directory (files st) h264_directory)
             (and_then (emptied_directory mp4_directory st) (\<lambda>st1.
                for_each (package_file lib rate mp4_directory) (directory_entries (files st1) h264_directory) st1)))"

definition package_container :: "command_lib \<Rightarrow> command \<Rightarrow> rate_control \<Rightarrow> shell \<Rightarrow> shell outcome" where
  "package_container lib c rate st =
     and_then (mesh_rate_directory lib c (files st)) (\<lambda>meshes.
       for_each (package_mesh lib rate) meshes st)"

definition dash_command :: "command_lib \<Rightarrow> int \<Rightarrow> path \<Rightarrow> path \<Rightarrow> string" where
  "dash_command lib duration dash_path mp4_path =
     join (CHR '' '')
       [''mp4box'', ''-dash '' @ format_int lib duration, ''-frag '' @ format_int lib duration,
        ''-profile live'', ''-rap'', ''-out '' @ generic_string dash_path, generic_string mp4_path]"

definition is_regular_file :: "fs \<Rightarrow> path \<Rightarrow> bool" where
  "is_regular_file s p \<longleftrightarrow> (case map_of s p of Some (File t) \<Rightarrow> True | _ \<Rightarrow> False)"

definition dash_path_of :: "path \<Rightarrow> path \<Rightarrow> path" where
  "dash_path_of dash_directory mp4_path =
     replace_extension (path_append dash_directory [filename mp4_path]) ''.mpd''"

definition dash_file ::
  "command_lib \<Rightarrow> int \<Rightarrow> path \<Rightarrow> path \<times> node \<Rightarrow> shell \<Rightarrow> shell outcome" where
  "dash_file lib duration dash_directory entry st =
     (let mp4_path = fst entry
      in assert_that (is_regular_file (files st) mp4_path)
        (assert_that (name_extension (filename mp4_path) = ''.mp4'')
          (Inr (system_call lib
            (Shell (dash_command lib duration (dash_path_of dash_directory mp4_path) mp4_path)) st))))"

definition dash_mesh :: "command_lib \<Rightarrow> int \<Rightarrow> path \<Rightarrow> shell \<Rightarrow> shell outcome" where
  "dash_mesh lib duration mesh_path st =
     assert_that (is_directory (files st) mesh_path)
       (let mp4_directory = path_append mesh_path [''mp4'']; dash_directory = path_append mesh_path [''dash'']
        in assert_that (is_directory (files st) mp4_directory)
             (and_then (emptied_directory dash_directory st) (\<lambda>st1.
                for_each (dash_file lib duration dash_directory) (directory_entries (files st1) mp4_directory) st1)))"

definition dash_segment :: "command_lib \<Rightarrow> command \<Rightarrow> int \<Rightarrow> shell \<Rightarrow> shell outcome" where
  "dash_segment lib c duration st =
     and_then (mesh_qp_directory lib c (files st)) (\<lambda>meshes.
       for_each (dash_mesh lib duration) meshes st)"

definition dash_segment_file :: "command_lib \<Rightarrow> path \<Rightarrow> int \<Rightarrow> shell \<Rightarrow> shell outcome" where
  "dash_segment_file lib input duration st =
     assert_that (is_regular_file (files st) input)
       (assert_that (name_extension (filename input) = ''.mp4'')
         (Inr (system_call lib (Shell (dash_command lib duration (replace_extension input ''.mpd'') input)) st)))"

definition tile_path_list :: "command_lib \<Rightarrow> command \<Rightarrow> fs \<Rightarrow> path list outcome" where
  "tile_path_list lib c s =
     and_then (mesh_directories lib c s) (\<lambda>mesh_path_list.
       Inr (foldl (\<lambda>tile_paths mesh_path. tile_paths @
              filter_directory_entry s (path_append mesh_path [''dash'']) (\<lambda>(p, n).
                name_extension (filename p) = ''.m4s'' \<or> name_extension (filename p) = ''.mp4''))
            [] mesh_path_list))"

section \<open>The grid in pace order\<close>

lemma map_plus_upto: "map (\<lambda>j. k + j) [0..m] = [k..k + (m::int)]"
  by (intro nth_equalityI) auto

lemma grid_keys:
  assumes "0 \<le> h"
  shows "concat (map (\<lambda>i. map (\<lambda>j. i * h + j) [0..h - 1]) [0..int n - 1]) = [0..int n * h - 1]"
proof (induction n)
  case (Suc n)
  have split: "[0..int (Suc n) - 1] = [0..int n - 1] @ [int n]"
    by (simp add: upto_rec2)
  have rest: "[0..int n * h - 1] @ [int n * h..int n * h + (h - 1)] = [0..int (Suc n) * h - 1]"
  proof (cases "h = 0")
    case False
    have "[0..int n * h + (h - 1)] = [0..int n * h - 1] @ [int n * h..int n * h + (h - 1)]"
      using assms False by (intro upto_split1) auto
    then show ?thesis by (simp add: algebra_simps)
  qed simp
  have "concat (map (\<lambda>i. map (\<lambda>j. i * h + j) [0..h - 1]) [0..int (Suc n) - 1]) =
      [0..int n * h - 1] @ [int n * h..int n * h + (h - 1)]"
    using Suc by (simp only: split map_append concat_append list.map concat.simps append_Nil2 map_plus_upto)
  with rest show ?case by simp
qed simp

definition tile_key :: "int \<Rightarrow> int \<times> int \<Rightarrow> int" where
  "tile_key h = (\<lambda>(i, j). i * h + j)"

lemma grid_tiles_keys:
  assumes "grid_tiles w h = Inr tiles"
  shows "map (tile_key h) tiles = [0..w * h - 1]"
proof (cases "w = 0")
  case False
  with assms have bounds: "0 < w" "0 \<le> h"
    and tiles: "tiles = concat (map (\<lambda>i. map (\<lambda>j. (i, j)) [0..h - 1]) [0..w - 1])"
    by (auto simp: grid_tiles_def split: if_splits)
  have "map (tile_key h) tiles = concat (map (\<lambda>i. map (\<lambda>j. i * h + j) [0..h - 1]) [0..int (nat w) - 1])"
    using bounds by (simp add: tiles map_concat comp_def tile_key_def)
  with grid_keys [OF bounds(2), of "nat w"] bounds show ?thesis by simp
qed (use assms in \<open>auto simp: grid_tiles_def\<close>)

lemma filter_window:
  assumes keys: "map key xs = [0..int (length xs) - 1]" and "0 \<le> o1" "0 \<le> s"
  shows "filter (\<lambda>x. \<not> (key x < o1 \<or> key x \<ge> o1 + s)) xs = take (nat s) (drop (nat o1) xs)"
proof -
  have key: "key (xs ! k) = int k" if "k < length xs" for k
    using arg_cong [OF keys, of "\<lambda>l. l ! k"] that by simp
  let ?P = "\<lambda>x. \<not> (key x < o1 \<or> key x \<ge> o1 + s)"
  have pieces: "xs = take (nat o1) xs @ take (nat s) (drop (nat o1) xs) @ drop (nat s) (drop (nat o1) xs)"
    by (simp only: append_take_drop_id)
  have "key x < o1" if "x \<in> set (take (nat o1) xs)" for x
    using that assms(2) by (auto simp: in_set_conv_nth key)
  then have before: "filter ?P (take (nat o1) xs) = []"
    by (auto simp: filter_empty_conv)
  have "o1 + s \<le> key x" if "x \<in> set (drop (nat s) (drop (nat o1) xs))" for x
    using that assms(2,3) by (auto simp: in_set_conv_nth key)
  then have beyond: "filter ?P (drop (nat s) (drop (nat o1) xs)) = []"
    by (auto simp: filter_empty_conv)
  have inside: "o1 \<le> key x \<and> key x < o1 + s" if member: "x \<in> set (take (nat s) (drop (nat o1) xs))" for x
  proof -
    from member obtain k where "k < nat s" "nat o1 + k < length xs" "x = xs ! (nat o1 + k)"
      by (auto simp: in_set_conv_nth)
    with key assms(2,3) show ?thesis by simp
  qed
  have within: "filter ?P (take (nat s) (drop (nat o1) xs)) =
      take (nat s) (drop (nat o1) xs)"
    using inside by (intro filter_True) fastforce
  have "filter ?P xs = filter ?P (take (nat o1) xs) @ filter ?P (take (nat s) (drop (nat o1) xs)) @
      filter ?P (drop (nat s) (drop (nat o1) xs))"
    using arg_cong [OF pieces, of "filter ?P"] by (simp only: filter_append)
  then show ?thesis by (simp only: before within beyond append_Nil append_Nil2)
qed

lemma pace_tiles_window:
  assumes "grid_tiles (wcrop c) (hcrop c) = Inr tiles" and "0 \<le> pace_offset pace" "0 \<le> stride pace"
  shows "pace_tiles c pace tiles = take (nat (stride pace)) (drop (nat (pace_offset pace)) tiles)"
proof -
  have keys: "map (tile_key (hcrop c)) tiles = [0..wcrop c * hcrop c - 1]"
    by (rule grid_tiles_keys [OF assms(1)])
  then have "length tiles = nat (wcrop c * hcrop c)"
    by (metis add.commute add_diff_cancel_left' diff_0_right length_map length_upto uminus_add_conv_diff)
  with keys have "map (tile_key (hcrop c)) tiles = [0..int (length tiles) - 1]"
    by (cases "0 \<le> wcrop c * hcrop c") auto
  from filter_window [OF this assms(2,3)] show ?thesis
    by (simp add: pace_tiles_def tile_key_def case_prod_unfold)
qed

section \<open>The directories programs write to\<close>

text \<open>What is relied on of the programs: they do not remove a directory.\<close>

definition keeps_directories :: "command_lib \<Rightarrow> bool" where
  "keeps_directories lib \<longleftrightarrow>
     (\<forall>call s p. map_of s p = Some Directory \<longrightarrow> map_of (run_program lib call s) p = Some Directory)"

definition can_create :: "path \<Rightarrow> fs \<Rightarrow> bool" where
  "can_create d s \<longleftrightarrow> (\<forall>p t. prefix p d \<longrightarrow> map_of s p \<noteq> Some (File t))"

definition created :: "path \<Rightarrow> fs \<Rightarrow> bool" where
  "created d s \<longleftrightarrow> (\<forall>p. prefix p d \<longrightarrow> p \<noteq> [] \<longrightarrow> map_of s p = Some Directory)"

lemma created_can_create: "created d s \<Longrightarrow> map_of s [] = None \<Longrightarrow> can_create d s"
  by (auto simp: created_def can_create_def)

lemma create_directories_created:
  assumes "created d s"
  shows "create_directories s d = Inr (\<not> is_directory s d, s)"
  using create_along_present [of "[]" d s] assms
  by (simp add: create_directories_def created_def)

lemma create_directories_possible:
  assumes "can_create d s"
  obtains s' where "create_directories s d = Inr (\<not> is_directory s d, s')" "created d s'"
    "\<forall>p. map_of s p \<noteq> None \<longrightarrow> map_of s' p = map_of s p"
proof -
  obtain s' where run: "create_along s [] d = Inr s'"
    using create_along_possible [of "[]" d s] assms by (auto simp: can_create_def)
  then have "created d s'"
    using create_along_prefixes [OF run] by (simp add: created_def)
  with run create_along_keeps [OF run] that [of s'] show thesis
    by (simp add: create_directories_def)
qed

lemma make_empty_directory_possible:
  assumes "can_create d s" and "d \<noteq> []"
  obtains n s' where "make_empty_directory s d = Inr ((n, True), s')" "created d s'"
    "\<forall>p. \<not> prefix d p \<longrightarrow> map_of s p \<noteq> None \<longrightarrow> map_of s' p = map_of s p"
proof -
  let ?s1 = "filter (\<lambda>(q, _). \<not> prefix d q) s"
  have "can_create d ?s1"
    unfolding can_create_def
  proof (intro allI impI)
    fix p t
    assume "prefix p d"
    with assms(1) show "map_of ?s1 p \<noteq> Some (File t)"
      using map_of_kept [of d p s] map_of_removed [of d p s] by (cases "prefix d p") (auto simp: can_create_def)
  qed
  then obtain s' where s': "create_directories ?s1 d = Inr (\<not> is_directory ?s1 d, s')" "created d s'"
    "\<forall>p. map_of ?s1 p \<noteq> None \<longrightarrow> map_of s' p = map_of ?s1 p"
    by (rule create_directories_possible)
  have "\<not> is_directory ?s1 d"
    using assms(2) map_of_removed [of d d s] by (simp add: is_directory_def)
  with s' map_of_kept [of d _ s] that [of "length (filter (\<lambda>(q, _). prefix d q) s)" s'] show thesis
    by (simp add: make_empty_directory_def remove_all_def is_directory_def)
qed

lemma keeps_created: "keeps_directories lib \<Longrightarrow> created d s \<Longrightarrow> created d (run_program lib call s)"
  by (simp add: keeps_directories_def created_def)

lemma keeps_is_directory: "keeps_directories lib \<Longrightarrow> is_directory s d \<Longrightarrow> is_directory (run_program lib call s) d"
  by (auto simp: keeps_directories_def is_directory_def)

section \<open>Transcoding covers every tile once\<close>

lemma output_tile_directory_Inr:
  "output_tile_directory c s kind input param = Inr (stem, d) \<longleftrightarrow>
     output_directory c \<noteq> [] \<and> is_directory s (output_directory c) \<and> stem = name_stem (filename input) \<and>
     d = path_append (path_append (path_append (output_directory c) [stem]) [param]) [kind]"
  by (auto simp: output_tile_directory_def checked_output_directory_def Let_def outcome_simps)

lemma output_tile_directory_longer:
  assumes "output_tile_directory c s kind input param = Inr (stem, d)" and "param \<noteq> []"
  shows "length (output_directory c) < length d" and "d \<noteq> []"
  using assms by (auto simp: output_tile_directory_Inr path_append_def has_filename_def split: if_splits)

lemma prepare_directory_first:
  assumes "can_create d s" and "length out < length d" and "is_directory s out" and "pace_offset pace = 0"
  obtains s' where "prepare_directory pace d s = Inr s'" "created d s'" "is_directory s' out"
proof -
  have "d \<noteq> []" using assms(2) by auto
  obtain n s' where s': "make_empty_directory s d = Inr ((n, True), s')" "created d s'"
    "\<forall>p. \<not> prefix d p \<longrightarrow> map_of s p \<noteq> None \<longrightarrow> map_of s' p = map_of s p"
    by (rule make_empty_directory_possible [OF assms(1) \<open>d \<noteq> []\<close>])
  have "\<not> prefix d out" using assms(2) by (auto dest: prefix_length_le)
  with s' assms(3) have "is_directory s' out" by (auto simp: is_directory_def)
  with s' assms(4) that [of s'] show thesis by (simp add: prepare_directory_def)
qed

lemma prepare_directory_later:
  assumes "created d s" and "pace_offset pace \<noteq> 0"
  shows "prepare_directory pace d s = Inr s"
  using assms by (simp add: prepare_directory_def create_directories_created)

text \<open>The command of one pass, for the tiles it takes.\<close>

definition pass_call ::
  "command_lib \<Rightarrow> command \<Rightarrow> path \<Rightarrow> rate_control \<Rightarrow> int \<Rightarrow> int \<Rightarrow> string \<Rightarrow> string \<Rightarrow> path \<Rightarrow> string \<Rightarrow>
   (int \<times> int) list \<Rightarrow> program_call" where
  "pass_call lib c input rate w h scale_text file_stem d encode_param batch =
     Shell (transcode_command lib input
       (butlast (concat (map (crop_filter (format_int lib) c w h scale_text) batch)))
       file_stem d rate encode_param batch)"

lemma transcode_pass_eq:
  assumes "video_scale lib input = Inr (w, h)" and "scale_filter (format_int lib) c w h = Inr scale_text"
    and "grid_tiles (wcrop c) (hcrop c) = Inr tiles" and "x264_encode_param (format_int lib) rate = Inr encode_param"
    and "output_h264_directory c (files st) input
      (mesh_description_rate (format_int lib) (wcrop c) (hcrop c) rate) = Inr (file_stem, d)"
    and "prepare_directory pace d (files st) = Inr s" and "pace_tiles c pace tiles \<noteq> []"
  shows "transcode_pass lib c input rate pace st = Inr (system_call lib
    (pass_call lib c input rate w h scale_text file_stem d encode_param (pace_tiles c pace tiles)) (st\<lparr>files := s\<rparr>))"
proof -
  have "concat (map (crop_filter (format_int lib) c w h scale_text) (pace_tiles c pace tiles)) \<noteq> []"
    using assms(7) by (cases "pace_tiles c pace tiles") (auto simp: crop_filter_def)
  with assms show ?thesis
    by (simp add: transcode_pass_def crop_scale_map_def pop_back_def pass_call_def)
qed

text \<open>The passes after the first one.\<close>

lemma transcode_rest:
  assumes env: "video_scale lib input = Inr (w, h)" "scale_filter (format_int lib) c w h = Inr scale_text"
      "grid_tiles (wcrop c) (hcrop c) = Inr tiles" "x264_encode_param (format_int lib) rate = Inr encode_param"
    and out: "output_directory c \<noteq> []" "file_stem = name_stem (filename input)"
      "d = path_append (path_append (path_append (output_directory c) [file_stem])
        [mesh_description_rate (format_int lib) (wcrop c) (hcrop c) rate]) [''h264'']"
    and keeps: "keeps_directories lib" and "0 < stride pace" and "0 < pace_offset pace"
    and "created d (files st)" and "is_directory (files st) (output_directory c)"
  shows "\<exists>st' batches. crop_scale_transcode lib c input rate pace st = Some (Inr st') \<and>
    concat batches = drop (nat (pace_offset pace)) tiles \<and>
    (\<forall>b\<in>set batches. b \<noteq> [] \<and> int (length b) \<le> stride pace) \<and>
    issued st' = issued st @ map (pass_call lib c input rate w h scale_text file_stem d encode_param) batches"
  using assms(9-)
proof (induction "length tiles - nat (pace_offset pace)" arbitrary: pace st rule: less_induct)
  case less
  have n: "int (length tiles) = wcrop c * hcrop c"
  proof -
    have "length tiles = nat (wcrop c * hcrop c)"
      using arg_cong [OF grid_tiles_keys [OF env(3)], of length] by simp
    moreover have "0 \<le> wcrop c * hcrop c"
      using env(3) by (auto simp: grid_tiles_def not_less split: if_splits)
    ultimately show ?thesis by simp
  qed
  show ?case
  proof (cases "pace_offset pace < wcrop c * hcrop c")
    case False
    with n have "length tiles \<le> nat (pace_offset pace)" by simp
    with False show ?thesis
      by (intro exI [of _ st] exI [of _ "[]"]) (simp add: crop_scale_transcode.simps)
  next
    case True
    let ?b = "pace_tiles c pace tiles" and ?k = "pace_offset pace" and ?s = "stride pace"
    let ?call = "pass_call lib c input rate w h scale_text file_stem d encode_param"
    let ?next = "\<lparr>stride = ?s, pace_offset = ?k + ?s\<rparr>" and ?st1 = "system_call lib (?call ?b) st"
    have b: "?b = take (nat ?s) (drop (nat ?k) tiles)"
      using pace_tiles_window [OF env(3)] less.prems by simp
    have some: "?b \<noteq> []" using True n less.prems by (simp add: b)
    have located: "output_h264_directory c (files st) input
        (mesh_description_rate (format_int lib) (wcrop c) (hcrop c) rate) = Inr (file_stem, d)"
      unfolding output_h264_directory_def output_tile_directory_Inr using less.prems(4) out by blast
    have "prepare_directory pace d (files st) = Inr (files st)"
      using less.prems(2,3) by (intro prepare_directory_later) simp_all
    from transcode_pass_eq [OF env located this some]
    have "transcode_pass lib c input rate pace st = Inr ?st1" by simp
    then have pass: "crop_scale_transcode lib c input rate pace st = crop_scale_transcode lib c input rate ?next ?st1"
      using True by (simp add: crop_scale_transcode.simps [of lib c input rate pace st])
    have "length tiles - nat (pace_offset ?next) < length tiles - nat ?k"
      using less.prems True n by simp
    moreover have "created d (files ?st1)" "is_directory (files ?st1) (output_directory c)"
      using less.prems keeps_created [OF keeps] keeps_is_directory [OF keeps] by (simp_all add: system_call_def)
    ultimately obtain st' batches where rec: "crop_scale_transcode lib c input rate ?next ?st1 = Some (Inr st')"
      "concat batches = drop (nat (?k + ?s)) tiles" "\<forall>b\<in>set batches. b \<noteq> [] \<and> int (length b) \<le> ?s"
      "issued st' = issued ?st1 @ map ?call batches"
      using less.hyps [of ?next ?st1] less.prems by auto
    have "drop (nat (?k + ?s)) tiles = drop (nat ?s) (drop (nat ?k) tiles)"
      using less.prems by (simp add: nat_add_distrib add.commute)
    then have "concat (?b # batches) = drop (nat ?k) tiles"
      unfolding concat.simps rec(2) b by (simp only: append_take_drop_id)
    moreover have "int (length ?b) \<le> ?s" using less.prems unfolding b by simp
    moreover have "issued st' = issued st @ map ?call (?b # batches)"
      using rec(4) by (simp add: system_call_def)
    ultimately show ?thesis
      using rec(1,3) some pass by (intro exI [of _ st'] exI [of _ "?b # batches"]) simp
  qed
qed


definition sample_command_lib :: command_lib where
  "sample_command_lib = \<lparr>format_int = show_int, parse_int = read_int, full_match = (\<lambda>t p. None),
     native_string = generic_string, search_path = (\<lambda>n. n), video_scale = (\<lambda>p. Inr (9, 5)),
     run_program = (\<lambda>call s. s)\<rparr>"

definition sample_command :: command where
  "sample_command = \<lparr>wcrop = 2, hcrop = 1, wscale = 1, hscale = 1, output_directory = [''o'']\<rparr>"


end
