(* ===== verification/Mpd_Merge.thy ===== *)
theory Mpd_Merge
  imports Command Documents "HOL-Library.Product_Lexorder"
begin

text \<open>
  The second half of \<^verbatim>\<open>src/multimedia/command.cpp\<close>: the tile coordinate in a manifest's file name,
  the manifests of a mesh by coordinate, and the merge of all of them into one manifest. XML
  documents are values of a parameter with tinyxml2's documented node operations; a pointer into the
  destination document is the list of child positions that leads to the node.
\<close>

section \<open>Manifests by tile\<close>

definition tile_mpd_pattern :: string where
  "tile_mpd_pattern =
     CHR 0x5C # ''w+_c('' @ digit_class @ '')r('' @ digit_class @ '')_qp'' @ digit_class @ ''.mpd''"

definition tile_mpd_coordinate :: "command_lib \<Rightarrow> string \<Rightarrow> (int \<times> int) outcome" where
  "tile_mpd_coordinate lib name =
     (case full_match lib name tile_mpd_pattern of
        Some [c, r] \<Rightarrow>
          (case (parse_int lib c, parse_int lib r) of
             (Some col, Some row) \<Rightarrow> Inr (col, row)
           | _ \<Rightarrow> Inl (Throw Not_reachable_error))
      | _ \<Rightarrow> Inl (Throw Not_reachable_error))"

text \<open>\<^verbatim>\<open>std::map\<close> as the list of its entries in key order; \<open>operator[]\<close> enters an empty vector.\<close>

type_synonym mpd_paths = "((int \<times> int) \<times> path list) list"

fun push_mpd :: "int \<times> int \<Rightarrow> path \<Rightarrow> mpd_paths \<Rightarrow> mpd_paths" where
  "push_mpd k p [] = [(k, [p])]"
| "push_mpd k p ((l, ps) # m) =
     (if k < l then (k, [p]) # (l, ps) # m
      else if k = l then (l, ps @ [p]) # m
      else (l, ps) # push_mpd k p m)"

definition enter_mpd :: "command_lib \<Rightarrow> path \<Rightarrow> mpd_paths \<Rightarrow> mpd_paths outcome" where
  "enter_mpd lib mpd_path m =
     and_then (tile_mpd_coordinate lib (filename mpd_path)) (\<lambda>k. Inr (push_mpd k mpd_path m))"

definition dash_mpds :: "fs \<Rightarrow> path \<Rightarrow> path list" where
  "dash_mpds s mesh_path = filter_directory_entry s (path_append mesh_path [''dash''])
     (\<lambda>(p, n). name_extension (filename p) = ''.mpd'')"

definition enter_mesh :: "command_lib \<Rightarrow> fs \<Rightarrow> path \<Rightarrow> mpd_paths \<Rightarrow> mpd_paths outcome" where
  "enter_mesh lib s mesh_path m =
     (let mpd_paths = dash_mpds s mesh_path
      in assert_that (mpd_paths \<noteq> []) (for_each (enter_mpd lib) mpd_paths m))"

definition tile_mpd_path_map :: "command_lib \<Rightarrow> command \<Rightarrow> fs \<Rightarrow> mpd_paths outcome" where
  "tile_mpd_path_map lib c s =
     and_then (mesh_directories lib c s) (\<lambda>meshes. for_each (enter_mesh lib s) meshes [])"

section \<open>Reading a tile's name back\<close>

definition word_chars :: string where
  "word_chars = ''abcdefghijklmnopqrstuvwxyzABCDEFGHIJKLMNOPQRSTUVWXYZ_'' @ digits"

text \<open>
  What the code relies on of RE2: a text of the pattern's form matches, and the two groups are the
  digits between \<open>_c\<close>, \<open>r\<close> and the last \<open>_qp\<close>.
\<close>

locale tile_names = decimal_text fmt to_int
  for fmt :: "int \<Rightarrow> string" and to_int :: "string \<Rightarrow> int option" +
  fixes match :: "string \<Rightarrow> string \<Rightarrow> string list option"
  assumes match_tile: "stem \<noteq> [] \<Longrightarrow> set stem \<subseteq> set word_chars \<Longrightarrow>
      c \<noteq> [] \<Longrightarrow> set c \<subseteq> set digits \<Longrightarrow> r \<noteq> [] \<Longrightarrow> set r \<subseteq> set digits \<Longrightarrow> q \<noteq> [] \<Longrightarrow> set q \<subseteq> set digits \<Longrightarrow>
      match (stem @ ''_c'' @ c @ ''r'' @ r @ ''_qp'' @ q @ ''.mpd'') tile_mpd_pattern = Some [c, r]"
begin

lemma coordinate_of_name:
  assumes "format_int lib = fmt" "parse_int lib = to_int" "full_match lib = match"
    and "stem \<noteq> []" "set stem \<subseteq> set word_chars" "0 \<le> col" "0 \<le> row" "0 \<le> qp"
  shows "tile_mpd_coordinate lib (stem @ ''_c'' @ fmt col @ ''r'' @ fmt row @ ''_qp'' @ fmt qp @ ''.mpd'') =
    Inr (col, row)"
  using assms match_tile [of stem "fmt col" "fmt row" "fmt qp"]
  by (simp add: tile_mpd_coordinate_def fmt_int_digits fmt_int_not_Nil to_int_fmt)

end

text \<open>A matcher for the pattern that reads the text from its end.\<close>

definition take_digits :: "string \<Rightarrow> string \<times> string" where
  "take_digits s = (takeWhile (\<lambda>c. c \<in> set digits) s, dropWhile (\<lambda>c. c \<in> set digits) s)"

definition match_reversed :: "string \<Rightarrow> string list option" where
  "match_reversed t =
     (case t of
        a # b # c # d # t1 \<Rightarrow>
          (case take_digits t1 of (q, t2) \<Rightarrow>
          (case take_digits (drop 3 t2) of (r, t3) \<Rightarrow>
          (case take_digits (drop 1 t3) of (c', t4) \<Rightarrow>
             if [a, b, c] = ''dpm'' \<and> q \<noteq> [] \<and> take 3 t2 = ''pq_'' \<and> r \<noteq> [] \<and> take 1 t3 = ''r'' \<and>
               c' \<noteq> [] \<and> take 2 t4 = ''c_'' \<and> drop 2 t4 \<noteq> [] \<and> set (drop 2 t4) \<subseteq> set word_chars
             then Some [rev c', rev r] else None)))
      | _ \<Rightarrow> None)"

definition match_tile_name :: "string \<Rightarrow> string \<Rightarrow> string list option" where
  "match_tile_name text pattern = (if pattern = tile_mpd_pattern then match_reversed (rev text) else None)"

lemma take_digits_append:
  assumes "set q \<subseteq> set digits" and "x \<notin> set digits"
  shows "take_digits (q @ x # t) = (q, x # t)"
proof -
  have "takeWhile (\<lambda>c. c \<in> set digits) (q @ x # t) = q \<and> dropWhile (\<lambda>c. c \<in> set digits) (q @ x # t) = x # t"
    using assms by (induction q) auto
  then show ?thesis by (simp add: take_digits_def)
qed

interpretation tile_name: tile_names show_int read_int match_tile_name
proof unfold_locales
  fix stem c r q :: string
  assume stem: "stem \<noteq> []" "set stem \<subseteq> set word_chars"
    and c: "c \<noteq> []" "set c \<subseteq> set digits" and r: "r \<noteq> []" "set r \<subseteq> set digits" and q: "q \<noteq> []" "set q \<subseteq> set digits"
  have marks: "CHR ''p'' \<notin> set digits" "CHR ''r'' \<notin> set digits" "CHR ''c'' \<notin> set digits"
    by (simp_all add: digits_def)
  have "take_digits (rev q @ CHR ''p'' # CHR ''q'' # CHR ''_'' # t) = (rev q, CHR ''p'' # CHR ''q'' # CHR ''_'' # t)"
    "take_digits (rev r @ CHR ''r'' # t) = (rev r, CHR ''r'' # t)"
    "take_digits (rev c @ CHR ''c'' # t) = (rev c, CHR ''c'' # t)" for t
    using c r q marks by (simp_all add: take_digits_append)
  with stem c r q show
    "match_tile_name (stem @ ''_c'' @ c @ ''r'' @ r @ ''_qp'' @ q @ ''.mpd'') tile_mpd_pattern = Some [c, r]"
    by (simp add: match_tile_name_def match_reversed_def)
qed

section \<open>XML documents\<close>

text \<open>
  A node of tinyxml2 as a value: its kind, its children in order, and the edits of the code. Cloning
  into another document keeps the value; \<open>with_children x []\<close> is the shallow clone.
\<close>

record 'x xml_lib =
  is_element :: "'x \<Rightarrow> string \<Rightarrow> bool"
  is_declaration :: "'x \<Rightarrow> bool"
  node_children :: "'x \<Rightarrow> 'x list"
  with_children :: "'x \<Rightarrow> 'x list \<Rightarrow> 'x"
  set_attribute :: "string \<Rightarrow> string \<Rightarrow> 'x \<Rightarrow> 'x"
  set_text :: "string \<Rightarrow> 'x \<Rightarrow> 'x"
  new_element :: "string \<Rightarrow> 'x"
  new_document :: 'x
  load_file :: "path \<Rightarrow> int \<times> 'x"
  save_file :: "path \<Rightarrow> 'x \<Rightarrow> fs \<Rightarrow> int \<times> fs"

fun position :: "('a \<Rightarrow> bool) \<Rightarrow> 'a list \<Rightarrow> nat option" where
  "position P [] = None"
| "position P (x # xs) = (if P x then Some 0 else map_option Suc (position P xs))"

definition child_position :: "'x xml_lib \<Rightarrow> string \<Rightarrow> 'x \<Rightarrow> nat option" where
  "child_position xl name x = position (\<lambda>c. is_element xl c name) (node_children xl x)"

definition first_child :: "'x xml_lib \<Rightarrow> string \<Rightarrow> 'x \<Rightarrow> 'x option" where
  "first_child xl name x = map_option (\<lambda>k. node_children xl x ! k) (child_position xl name x)"

definition insert_end_child :: "'x xml_lib \<Rightarrow> 'x \<Rightarrow> 'x \<Rightarrow> 'x" where
  "insert_end_child xl c x = with_children xl x (node_children xl x @ [c])"

definition insert_first_child :: "'x xml_lib \<Rightarrow> 'x \<Rightarrow> 'x \<Rightarrow> 'x" where
  "insert_first_child xl c x = with_children xl x (c # node_children xl x)"

definition delete_child :: "'x xml_lib \<Rightarrow> nat \<Rightarrow> 'x \<Rightarrow> 'x" where
  "delete_child xl k x =
     with_children xl x (take k (node_children xl x) @ drop (Suc k) (node_children xl x))"

definition edit_child :: "'x xml_lib \<Rightarrow> nat \<Rightarrow> ('x \<Rightarrow> 'x) \<Rightarrow> 'x \<Rightarrow> 'x" where
  "edit_child xl k f x = with_children xl x ((node_children xl x)[k := f (node_children xl x ! k)])"

type_synonym pointer = "nat list"

fun node_at :: "'x xml_lib \<Rightarrow> pointer \<Rightarrow> 'x \<Rightarrow> 'x" where
  "node_at xl [] x = x"
| "node_at xl (k # ks) x = node_at xl ks (node_children xl x ! k)"

fun edit_at :: "'x xml_lib \<Rightarrow> pointer \<Rightarrow> ('x \<Rightarrow> 'x) \<Rightarrow> 'x \<Rightarrow> 'x" where
  "edit_at xl [] f x = f x"
| "edit_at xl (k # ks) f x = edit_child xl k (edit_at xl ks f) x"

section \<open>Merging\<close>

text \<open>The elements along a path of names; searching below a null element is undefined.\<close>

fun node_range :: "'x xml_lib \<Rightarrow> 'x \<Rightarrow> string list \<Rightarrow> 'x option outcome" where
  "node_range xl parent [] = Inl Undefined_behaviour"
| "node_range xl parent [name] = Inr (first_child xl name parent)"
| "node_range xl parent (name # names) =
     and_then (deref (first_child xl name parent)) (\<lambda>child. node_range xl child names)"

text \<open>
  The walk over all names but the last: the source goes down to the child, the destination goes down
  too or gets a shallow clone of it.
\<close>

fun clone_parents ::
  "'x xml_lib \<Rightarrow> string list \<Rightarrow> 'x option \<Rightarrow> pointer \<Rightarrow> 'x \<Rightarrow> ('x option \<times> pointer \<times> 'x) outcome" where
  "clone_parents xl [] src_node dest_node dest = Inr (src_node, dest_node, dest)"
| "clone_parents xl (name # names) src_node dest_node dest =
     and_then (deref src_node) (\<lambda>parent.
       let child = first_child xl name parent
       in case child_position xl name (node_at xl dest_node dest) of
            Some k \<Rightarrow> clone_parents xl names child (dest_node @ [k]) dest
          | None \<Rightarrow>
              and_then (deref child) (\<lambda>c.
                clone_parents xl names child
                  (dest_node @ [length (node_children xl (node_at xl dest_node dest))])
                  (edit_at xl dest_node (insert_end_child xl (with_children xl c [])) dest)))"

text \<open>Answers the pointer's old value, its new value and the document.\<close>

definition clone_element_if_null ::
  "'x xml_lib \<Rightarrow> 'x \<Rightarrow> pointer option \<Rightarrow> string list \<Rightarrow> 'x \<Rightarrow>
   (pointer option \<times> pointer option \<times> 'x) outcome" where
  "clone_element_if_null xl src_document dest_element node_path dest =
     (case dest_element of
        Some p \<Rightarrow> Inr (Some p, Some p, dest)
      | None \<Rightarrow>
          and_then (clone_parents xl (butlast node_path) (Some src_document) [] dest)
            (\<lambda>(src_node, dest_node, dest1).
          and_then (deref src_node) (\<lambda>parent.
          and_then (deref (first_child xl (last node_path) parent)) (\<lambda>c.
            Inr (None, Some (dest_node @ [length (node_children xl (node_at xl dest_node dest1))]),
              edit_at xl dest_node (insert_end_child xl c) dest1)))))"

definition spatial_relationship :: "(int \<Rightarrow> string) \<Rightarrow> int \<Rightarrow> int \<Rightarrow> int \<times> int \<Rightarrow> string" where
  "spatial_relationship fmt w h coordinate =
     join (CHR '','') (map fmt [0, fst coordinate, snd coordinate, 1, 1, w, h])"

definition srd_property :: "'x xml_lib \<Rightarrow> string \<Rightarrow> 'x" where
  "srd_property xl srd =
     set_attribute xl ''value'' srd
       (set_attribute xl ''schemeIdUri'' ''urn:mpeg:dash:srd:2014'' (new_element xl ''SupplementalProperty''))"

text \<open>
  The first manifest of a tile: its adaptation set gets the tile's position, and a segment template
  of the set moves into its representation.
\<close>

definition first_set_edit :: "'x xml_lib \<Rightarrow> string \<Rightarrow> 'x \<Rightarrow> 'x outcome" where
  "first_set_edit xl srd adaptation_set =
     (let a1 = insert_first_child xl (srd_property xl srd) adaptation_set
      in case child_position xl ''SegmentTemplate'' a1 of
           None \<Rightarrow> Inr a1
         | Some t \<Rightarrow>
             and_then (deref (child_position xl ''Representation'' a1)) (\<lambda>r.
               let a2 = edit_child xl r (insert_first_child xl (node_children xl a1 ! t)) a1
               in Inr (delete_child xl t a2)))"

text \<open>A later manifest of the tile adds its representation, with the template of its set if it has none.\<close>

definition later_set_edit :: "'x xml_lib \<Rightarrow> 'x \<Rightarrow> 'x \<Rightarrow> 'x outcome" where
  "later_set_edit xl src_document adaptation_set =
     and_then (node_range xl src_document [''MPD'', ''Period'', ''AdaptationSet'', ''Representation'']) (\<lambda>found.
     and_then (deref found) (\<lambda>representation.
       case first_child xl ''SegmentTemplate'' representation of
         Some t \<Rightarrow> Inr (insert_end_child xl representation adaptation_set)
       | None \<Rightarrow>
           and_then (node_range xl src_document [''MPD'', ''Period'', ''AdaptationSet'', ''SegmentTemplate'']) (\<lambda>tmpl.
           and_then (deref tmpl) (\<lambda>t.
             Inr (insert_end_child xl (insert_end_child xl t representation) adaptation_set)))))"

definition last_position :: "('a \<Rightarrow> bool) \<Rightarrow> 'a list \<Rightarrow> nat option" where
  "last_position P xs = map_option (\<lambda>k. length xs - Suc k) (position P (rev xs))"

definition number_representation :: "'x xml_lib \<Rightarrow> string \<Rightarrow> 'x \<Rightarrow> 'x outcome" where
  "number_representation xl text adaptation_set =
     and_then (deref (last_position (\<lambda>c. is_element xl c ''Representation'') (node_children xl adaptation_set)))
       (\<lambda>k. Inr (edit_child xl k (set_attribute xl ''id'' text) adaptation_set))"

definition edit_at_outcome :: "'x xml_lib \<Rightarrow> pointer \<Rightarrow> ('x \<Rightarrow> 'x outcome) \<Rightarrow> 'x \<Rightarrow> 'x outcome" where
  "edit_at_outcome xl p f dest = and_then (f (node_at xl p dest)) (\<lambda>x. Inr (edit_at xl p (\<lambda>_. x) dest))"

text \<open>What the loops keep: the document, the two pointers kept across manifests, and the counter.\<close>

record 'x merge_state =
  destination :: 'x
  declaration_found :: bool
  program_information :: "pointer option"
  represent_index :: int

text \<open>\<open>xml_check() << code\<close> with the expectation \<open>XML_SUCCESS\<close>.\<close>

definition xml_check :: "int \<Rightarrow> unit outcome" where
  "xml_check code = check_shift (check_expect \<lparr>expect = None\<rparr> (Value 0)) (Value code)"

definition ensure_declaration :: "'x xml_lib \<Rightarrow> 'x \<Rightarrow> 'x merge_state \<Rightarrow> 'x merge_state outcome" where
  "ensure_declaration xl src_document m =
     (if declaration_found m then Inr m
      else (case node_children xl src_document of
              [] \<Rightarrow> Inl Undefined_behaviour
            | declaration # rest \<Rightarrow>
                if is_declaration xl declaration
                then Inr (m\<lparr>destination := insert_first_child xl (with_children xl declaration []) (destination m),
                          declaration_found := True\<rparr>)
                else Inl Undefined_behaviour))"

definition ensure_program_information ::
  "'x xml_lib \<Rightarrow> string \<Rightarrow> 'x \<Rightarrow> 'x merge_state \<Rightarrow> 'x merge_state outcome" where
  "ensure_program_information xl title src_document m =
     and_then (clone_element_if_null xl src_document (program_information m) [''MPD'', ''ProgramInformation'']
       (destination m)) (\<lambda>(old_element, element, dest).
       case (old_element, element) of
         (None, Some p) \<Rightarrow>
           and_then (edit_at_outcome xl p (\<lambda>x.
               and_then (deref (child_position xl ''Title'' x)) (\<lambda>k. Inr (edit_child xl k (set_text xl title) x))) dest)
             (\<lambda>dest1. Inr (m\<lparr>destination := dest1, program_information := Some p\<rparr>))
       | _ \<Rightarrow> Inr (m\<lparr>destination := dest, program_information := element\<rparr>))"

text \<open>One manifest of a tile.\<close>

definition merge_mpd ::
  "command_lib \<Rightarrow> 'x xml_lib \<Rightarrow> command \<Rightarrow> string \<Rightarrow> int \<times> int \<Rightarrow> path \<Rightarrow>
   pointer option \<times> 'x merge_state \<Rightarrow> (pointer option \<times> 'x merge_state) outcome" where
  "merge_mpd lib xl c title coordinate mpd_path = (\<lambda>(adaptation_set, m).
     let (code, src_document) = load_file xl mpd_path in
     and_then (xml_check code) (\<lambda>_.
     and_then (ensure_declaration xl src_document m) (\<lambda>m1.
     and_then (ensure_program_information xl title src_document m1) (\<lambda>m2.
     and_then (clone_element_if_null xl src_document adaptation_set [''MPD'', ''Period'', ''AdaptationSet'']
       (destination m2)) (\<lambda>(old_set, new_set, dest).
     and_then (deref new_set) (\<lambda>p.
     and_then (edit_at_outcome xl p
         (if old_set \<noteq> None then later_set_edit xl src_document
          else first_set_edit xl (spatial_relationship (format_int lib) (wcrop c) (hcrop c) coordinate)) dest) (\<lambda>dest1.
     and_then (edit_at_outcome xl p
         (number_representation xl (format_int lib (represent_index m2 + 1))) dest1) (\<lambda>dest2.
       Inr (new_set, m2\<lparr>destination := dest2, represent_index := represent_index m2 + 1\<rparr>)))))))))"

text \<open>The manifests of one tile; each tile begins with a null adaptation set.\<close>

definition merge_tile ::
  "command_lib \<Rightarrow> 'x xml_lib \<Rightarrow> command \<Rightarrow> string \<Rightarrow> (int \<times> int) \<times> path list \<Rightarrow>
   'x merge_state \<Rightarrow> 'x merge_state outcome" where
  "merge_tile lib xl c title = (\<lambda>(coordinate, mpd_paths) m.
     and_then (for_each (merge_mpd lib xl c title coordinate) mpd_paths (None, m)) (\<lambda>(p, m'). Inr m'))"

definition merge_start :: "'x xml_lib \<Rightarrow> 'x merge_state" where
  "merge_start xl = \<lparr>destination = new_document xl, declaration_found = False,
     program_information = None, represent_index = 0\<rparr>"

definition merged_path :: "command_lib \<Rightarrow> command \<Rightarrow> path \<Rightarrow> path" where
  "merged_path lib c p =
     parent_path p @ path_append [format_int lib (wcrop c) @ ''x'' @ format_int lib (hcrop c)] [filename p]"

definition merge_dash_mpd :: "command_lib \<Rightarrow> 'x xml_lib \<Rightarrow> command \<Rightarrow> fs \<Rightarrow> (path \<times> fs) outcome" where
  "merge_dash_mpd lib xl c s =
     and_then (file_path_of_directory (is_directory s) (output_directory c) ''.mpd'') (\<lambda>p.
       let dest_mpd_path = merged_path lib c p in
       and_then (make_empty_directory s (parent_path dest_mpd_path)) (\<lambda>(removed, s1).
       and_then (tile_mpd_path_map lib c s1) (\<lambda>mpd_path_map.
       and_then (for_each (merge_tile lib xl c (filename dest_mpd_path)) mpd_path_map (merge_start xl)) (\<lambda>m.
       let (code, s2) = save_file xl dest_mpd_path (destination m) s1 in
       and_then (xml_check code) (\<lambda>_. Inr (dest_mpd_path, s2))))))"

section \<open>The manifests by tile\<close>

definition in_order :: "mpd_paths \<Rightarrow> bool" where
  "in_order m \<longleftrightarrow> sorted_wrt (<) (map fst m)"

lemma push_mpd_keys: "fst ` set (push_mpd k p m) = insert k (fst ` set m)"
  by (induction k p m rule: push_mpd.induct) auto

lemma push_mpd_in_order: "in_order m \<Longrightarrow> in_order (push_mpd k p m)"
proof (induction k p m rule: push_mpd.induct)
  case (2 k p l ps m)
  have "l < k" if "\<not> k < l" "k \<noteq> l" using that by auto
  with 2 push_mpd_keys [of k p m] show ?case
    by (fastforce simp: in_order_def)
qed (simp add: in_order_def)

lemma in_order_map_of: "in_order m \<Longrightarrow> (l, qs) \<in> set m \<longleftrightarrow> map_of m l = Some qs"
  by (rule map_of_eq_Some_iff [symmetric])
    (use strict_sorted_iff in \<open>auto simp: in_order_def strict_sorted_iff\<close>)

lemma map_of_push_mpd:
  "in_order m \<Longrightarrow> map_of (push_mpd k p m) =
     (map_of m)(k \<mapsto> (case map_of m k of None \<Rightarrow> [p] | Some qs \<Rightarrow> qs @ [p]))"
proof (induction k p m rule: push_mpd.induct)
  case (2 k p l ps m)
  have "map_of m k = None" if "k < l"
    using 2(2) that by (force simp: in_order_def map_of_eq_None_iff)
  with 2 show ?case by (auto simp: in_order_def fun_eq_iff split: option.splits)
qed (simp add: fun_eq_iff)

definition by_tile :: "command_lib \<Rightarrow> path list \<Rightarrow> mpd_paths \<Rightarrow> bool" where
  "by_tile lib ps m \<longleftrightarrow> in_order m \<and>
     (\<forall>p\<in>set ps. \<exists>k\<in>fst ` set m. tile_mpd_coordinate lib (filename p) = Inr k) \<and>
     (\<forall>(k, qs)\<in>set m. qs \<noteq> [] \<and> qs = filter (\<lambda>p. tile_mpd_coordinate lib (filename p) = Inr k) ps)"

lemma by_tile_push:
  assumes "by_tile lib ps m" and k: "tile_mpd_coordinate lib (filename p) = Inr k"
  shows "by_tile lib (ps @ [p]) (push_mpd k p m)"
proof -
  let ?of = "\<lambda>l qs. filter (\<lambda>p. tile_mpd_coordinate lib (filename p) = Inr l) qs"
  note inv = assms(1) [unfolded by_tile_def]
  note order = conjunct1 [OF inv] and known = conjunct1 [OF conjunct2 [OF inv]]
    and listed = conjunct2 [OF conjunct2 [OF inv]]
  have entries: "qs \<noteq> [] \<and> qs = ?of l ps" if "map_of m l = Some qs" for l qs
    using bspec [OF listed iffD2 [OF in_order_map_of [OF order] that]] unfolding prod.case .
  have "?of k ps = []" if "map_of m k = None"
    unfolding filter_empty_conv
  proof
    fix p assume "p \<in> set ps"
    with known obtain l where "l \<in> fst ` set m" "tile_mpd_coordinate lib (filename p) = Inr l" by blast
    moreover have "k \<notin> fst ` set m" using that by (simp only: map_of_eq_None_iff not_False_eq_True)
    ultimately show "tile_mpd_coordinate lib (filename p) \<noteq> Inr k" by auto
  qed
  then have filled: "qs \<noteq> [] \<and> qs = ?of l (ps @ [p])" if "map_of (push_mpd k p m) l = Some qs" for l qs
    using that entries k by (auto simp: map_of_push_mpd [OF order] split: if_splits option.splits)
  have order': "in_order (push_mpd k p m)"
    by (rule push_mpd_in_order [OF order])
  moreover have "\<forall>q\<in>set (ps @ [p]). \<exists>l\<in>fst ` set (push_mpd k p m). tile_mpd_coordinate lib (filename q) = Inr l"
    unfolding push_mpd_keys using known k by simp
  moreover have "\<forall>(l, qs)\<in>set (push_mpd k p m). qs \<noteq> [] \<and> qs = ?of l (ps @ [p])"
  proof (rule ballI, clarify)
    fix a b qs
    assume "((a, b), qs) \<in> set (push_mpd k p m)"
    from filled [OF iffD1 [OF in_order_map_of [OF order'] this]]
    show "qs \<noteq> [] \<and> qs = ?of (a, b) (ps @ [p])" .
  qed
  ultimately show ?thesis unfolding by_tile_def by (intro conjI)
qed

lemma for_each_append: "for_each f (xs @ ys) s = and_then (for_each f xs s) (for_each f ys)"
  by (induction xs arbitrary: s) (auto simp: and_then_assoc and_then_def split: sum.split)

lemma for_each_Cons_Inr:
  assumes "for_each f (x # xs) s = Inr t"
  obtains s' where "f x s = Inr s'" "for_each f xs s' = Inr t"
  using assms by (auto simp: outcome_simps)

lemma for_each_enter_mpd:
  "for_each (enter_mpd lib) qs m = Inr m' \<Longrightarrow> by_tile lib ps m \<Longrightarrow> by_tile lib (ps @ qs) m'"
proof (induction qs arbitrary: ps m)
  case (Cons q qs)
  from Cons.prems(1) obtain m1 where m1: "enter_mpd lib q m = Inr m1" and rest: "for_each (enter_mpd lib) qs m1 = Inr m'"
    by (rule for_each_Cons_Inr)
  from m1 obtain k where k: "tile_mpd_coordinate lib (filename q) = Inr k" and "m1 = push_mpd k q m"
    by (auto simp: enter_mpd_def outcome_simps)
  with Cons.IH [OF rest, of "ps @ [q]"] by_tile_push [OF Cons.prems(2) k] show ?case by simp
qed simp

lemma for_each_enter_mesh:
  "for_each (enter_mesh lib s) meshes m = Inr m' \<Longrightarrow> by_tile lib ps m \<Longrightarrow>
     by_tile lib (ps @ concat (map (dash_mpds s) meshes)) m'"
proof (induction meshes arbitrary: ps m)
  case (Cons mesh meshes)
  from Cons.prems(1) obtain m1 where m1: "enter_mesh lib s mesh m = Inr m1"
    and rest: "for_each (enter_mesh lib s) meshes m1 = Inr m'"
    by (rule for_each_Cons_Inr)
  from m1 have first: "for_each (enter_mpd lib) (dash_mpds s mesh) m = Inr m1"
    by (simp add: enter_mesh_def Let_def outcome_simps)
  from Cons.IH [OF rest for_each_enter_mpd [OF first Cons.prems(2)]] show ?case by simp
qed simp

text \<open>
  When \<open>tile_mpd_path_map\<close> returns, its keys are in order and distinct, every manifest of
  every mesh directory has a coordinate that is a key, and the vector under a key is never empty and
  holds the manifests of that coordinate, all of them, in the order the directories list them.
\<close>

theorem mpds_by_tile:
  assumes "mesh_directories lib c s = Inr meshes" and "tile_mpd_path_map lib c s = Inr m"
  shows "by_tile lib (concat (map (dash_mpds s) meshes)) m"
proof -
  have "by_tile lib [] []" by (simp add: by_tile_def in_order_def)
  from for_each_enter_mesh [OF _ this] assms show ?thesis
    by (simp add: tile_mpd_path_map_def)
qed

definition sample_mesh_lib :: command_lib where
  "sample_mesh_lib = sample_command_lib\<lparr>full_match := (\<lambda>text pattern.
     if text = ''2x1_qp22'' then Some [''22''] else match_tile_name text pattern)\<rparr>"

definition sample_mesh_fs :: fs where
  "sample_mesh_fs = [([''o''], Directory), ([''o'', ''2x1_qp22''], Directory),
     ([''o'', ''2x1_qp22'', ''dash''], Directory), ([''o'', ''2x1_qp22'', ''dash'', ''v_c1r0_qp22.mpd''], File 1),
     ([''o'', ''2x1_qp22'', ''dash'', ''v_c0r0_qp22.mpd''], File 1), ([''o'', ''2x1_qp22'', ''dash'', ''v.m4s''], File 1)]"

theorem mpds_by_tile_witness:
  "\<exists>m. tile_mpd_path_map sample_mesh_lib sample_command sample_mesh_fs = Inr m \<and>
     map fst m = [(0, 0), (1, 0)] \<and>
     by_tile sample_mesh_lib (concat (map (dash_mpds sample_mesh_fs) [[''o'', ''2x1_qp22'']])) m"
proof -
  have "mesh_directories sample_mesh_lib sample_command sample_mesh_fs = Inr [[''o'', ''2x1_qp22'']]"
    by code_simp
  moreover have "tile_mpd_path_map sample_mesh_lib sample_command sample_mesh_fs = Inr
      [((0, 0), [[''o'', ''2x1_qp22'', ''dash'', ''v_c0r0_qp22.mpd'']]),
       ((1, 0), [[''o'', ''2x1_qp22'', ''dash'', ''v_c1r0_qp22.mpd'']])]"
    by code_simp
  ultimately show ?thesis
    using mpds_by_tile by - (rule exI, intro conjI, assumption, simp, blast)
qed

section \<open>From a tile's name to its coordinate\<close>

lemma last_dot:
  assumes "CHR ''.'' \<notin> set e" and "b \<noteq> []" and "e \<noteq> [] "
  shows "name_extension (b @ CHR ''.'' # e) = CHR ''.'' # e" and "name_stem (b @ CHR ''.'' # e) = b"
proof -
  have "takeWhile (\<lambda>c. c \<noteq> CHR ''.'') (rev e @ CHR ''.'' # rev b) = rev e"
    using assms(1) by (intro takeWhile_dropWhile_unique(1)) auto
  moreover have "b @ CHR ''.'' # e \<noteq> ''..''"
    using assms by (cases b) (auto simp: append_eq_Cons_conv Cons_eq_append_conv)
  ultimately show ext: "name_extension (b @ CHR ''.'' # e) = CHR ''.'' # e"
    using assms(2) by (auto simp: name_extension_def Let_def)
  show "name_stem (b @ CHR ''.'' # e) = b"
    by (simp add: name_stem_def ext)
qed

lemma filename_append [simp]: "filename (path_append d [f]) = f"
  by (simp add: filename_def path_append_def)

lemma filename_replace_extension:
  "filename (replace_extension p e) = name_stem (filename p) @ dotted e"
  by (simp add: replace_extension_def filename_def)



end
