(* ===== verification/Mpd_Assembly.thy ===== *)
theory Mpd_Assembly
  imports Mpd_Merge "HOL-Library.AList"
begin

text \<open>
  The merge of \<open>Mpd_Merge\<close> refines an assembly of values: the locale \<open>xml_documents\<close> states what the
  code relies on of an XML library, and within it the pointer walks of the merge are shown to build
  one adaptation set for each tile from the manifests' own parts.
\<close>

section \<open>Lists\<close>

fun remove_first :: "('a \<Rightarrow> bool) \<Rightarrow> 'a list \<Rightarrow> 'a list" where
  "remove_first P [] = []"
| "remove_first P (x # xs) = (if P x then xs else x # remove_first P xs)"

definition map_where :: "('a \<Rightarrow> bool) \<Rightarrow> ('a \<Rightarrow> 'a) \<Rightarrow> 'a list \<Rightarrow> 'a list" where
  "map_where P f xs = map (\<lambda>x. if P x then f x else x) xs"

lemma map_where_simps [simp]:
  "map_where P f [] = []"
  "map_where P f (x # xs) = (if P x then f x else x) # map_where P f xs"
  "map_where P f (xs @ ys) = map_where P f xs @ map_where P f ys"
  "length (map_where P f xs) = length xs"
  by (simp_all add: map_where_def)

lemma map_where_none: "filter P xs = [] \<Longrightarrow> map_where P f xs = xs"
  by (induction xs) (auto split: if_splits)

lemma position_None: "position P xs = None \<longleftrightarrow> filter P xs = []"
  by (induction xs) auto

lemma position_Some:
  assumes "position P xs = Some k"
  shows "k < length xs" and "P (xs ! k)"
  using assms by (induction xs arbitrary: k) (auto split: if_splits)

lemma position_append:
  "position P (xs @ ys) = (case position P xs of Some k \<Rightarrow> Some k | None \<Rightarrow> map_option (\<lambda>k. length xs + k) (position P ys))"
  by (induction xs; cases "position P ys") (auto split: option.splits)

lemma position_delete:
  "position P xs = Some k \<Longrightarrow> take k xs @ drop (Suc k) xs = remove_first P xs"
  by (induction xs arbitrary: k) (auto split: if_splits)

lemma position_update:
  "position P xs = Some k \<Longrightarrow> filter P xs = [x] \<Longrightarrow> xs[k := f (xs ! k)] = map_where P f xs"
  by (induction xs arbitrary: k) (auto simp: map_where_none split: if_splits)

lemma position_filter: "position P xs = Some k \<Longrightarrow> filter P xs = [x] \<Longrightarrow> xs ! k = x"
  by (induction xs arbitrary: k) (auto split: if_splits)

lemma position_map_where:
  assumes "\<And>x. Q (if P x then f x else x) \<longleftrightarrow> Q x"
  shows "position Q (map_where P f xs) = position Q xs"
    and "remove_first Q (map_where P f xs) = map_where P f (remove_first Q xs)"
  using assms by (induction xs) auto

lemma single_split:
  assumes "filter P xs = [x]"
  obtains ys zs where "xs = ys @ x # zs" "filter P ys = []" "filter P zs = []" "P x"
proof -
  from assms obtain ys zs where "xs = ys @ x # zs" "\<forall>u\<in>set ys. \<not> P u" "P x" "[] = filter P zs"
    by (auto simp: filter_eq_Cons_iff)
  then show thesis using that [of ys zs] by (simp add: filter_empty_conv)
qed

lemma last_position_single:
  assumes "filter P xs = [x]"
  shows "last_position P xs = position P xs"
proof -
  obtain ys zs where xs: "xs = ys @ x # zs" "filter P ys = []" "filter P zs = []" "P x"
    using assms by (rule single_split)
  then have "position P (rev zs) = None" "position P ys = None"
    by (simp_all add: position_None rev_filter [symmetric])
  with xs show ?thesis by (simp add: last_position_def position_append)
qed

lemma last_position_end: "P x \<Longrightarrow> last_position P (xs @ [x]) = Some (length xs)"
  by (simp add: last_position_def)

lemma filter_map_where: "(\<And>x. P x \<Longrightarrow> P (f x)) \<Longrightarrow> filter P (map_where P f xs) = map f (filter P xs)"
  by (induction xs) auto

lemma map_where_map_where:
  "(\<And>x. P x \<Longrightarrow> P (f x)) \<Longrightarrow> map_where P g (map_where P f xs) = map_where P (\<lambda>x. g (f x)) xs"
  by (induction xs) auto

lemma filter_remove_first: "(\<And>x. Q x \<Longrightarrow> \<not> P x) \<Longrightarrow> filter P (remove_first Q xs) = filter P xs"
  by (induction xs) auto

lemma remove_first_none: "position P xs = None \<Longrightarrow> remove_first P xs = xs"
  by (induction xs) (auto split: if_splits)

section \<open>What is relied on of the XML library\<close>

locale xml_documents =
  fixes xl :: "'x xml_lib"
  assumes children_with [simp]: "node_children xl (with_children xl x cs) = cs"
    and with_with [simp]: "with_children xl (with_children xl x cs) ds = with_children xl x ds"
    and element_with [simp]: "is_element xl (with_children xl x cs) n = is_element xl x n"
    and element_attribute [simp]: "is_element xl (set_attribute xl a v x) n = is_element xl x n"
    and element_new [simp]: "is_element xl (new_element xl n) m \<longleftrightarrow> m = n"
    and element_name: "is_element xl x n \<Longrightarrow> is_element xl x m \<Longrightarrow> m = n"
    and declaration_no_element: "is_declaration xl x \<Longrightarrow> \<not> is_element xl x n"
    and new_document_empty [simp]: "node_children xl (new_document xl) = []"
begin

lemma element_insert [simp]:
  "is_element xl (insert_end_child xl c x) n = is_element xl x n"
  "is_element xl (insert_first_child xl c x) n = is_element xl x n"
  "is_element xl (edit_child xl k f x) n = is_element xl x n"
  "is_element xl (srd_property xl srd) n \<longleftrightarrow> n = ''SupplementalProperty''"
  by (simp_all add: insert_end_child_def insert_first_child_def edit_child_def srd_property_def)

lemma children_insert [simp]:
  "node_children xl (insert_end_child xl c x) = node_children xl x @ [c]"
  "node_children xl (insert_first_child xl c x) = c # node_children xl x"
  "node_children xl (edit_child xl k f x) = (node_children xl x)[k := f (node_children xl x ! k)]"
  "node_children xl (delete_child xl k x) = take k (node_children xl x) @ drop (Suc k) (node_children xl x)"
  by (simp_all add: insert_end_child_def insert_first_child_def edit_child_def delete_child_def)

lemma first_child_Some:
  assumes "first_child xl n x = Some c"
  shows "is_element xl c n" and "child_position xl n x \<noteq> None"
  using assms position_Some by (fastforce simp: first_child_def child_position_def)+

end

section \<open>The library on trees\<close>

datatype node_kind =
    Declaration_node | Document_node | Element_node string "(string \<times> string) list" "string option"

datatype xnode = Xnode node_kind "xnode list"

fun kind_of :: "xnode \<Rightarrow> node_kind" where "kind_of (Xnode k cs) = k"
fun node_kids :: "xnode \<Rightarrow> xnode list" where "node_kids (Xnode k cs) = cs"

fun kind_attribute :: "string \<Rightarrow> string \<Rightarrow> node_kind \<Rightarrow> node_kind" where
  "kind_attribute a v (Element_node n as t) = Element_node n (AList.update a v as) t"
| "kind_attribute a v k = k"

fun kind_text :: "string \<Rightarrow> node_kind \<Rightarrow> node_kind" where
  "kind_text t (Element_node n as u) = Element_node n as (Some t)"
| "kind_text t k = k"

definition kind_named :: "node_kind \<Rightarrow> string \<Rightarrow> bool" where
  "kind_named k n = (case k of Element_node m as t \<Rightarrow> m = n | _ \<Rightarrow> False)"

definition tree_xml :: "(path \<Rightarrow> int \<times> xnode) \<Rightarrow> (path \<Rightarrow> xnode \<Rightarrow> fs \<Rightarrow> int \<times> fs) \<Rightarrow> xnode xml_lib" where
  "tree_xml load save = \<lparr>
     is_element = (\<lambda>x n. kind_named (kind_of x) n),
     is_declaration = (\<lambda>x. kind_of x = Declaration_node),
     node_children = node_kids,
     with_children = (\<lambda>x cs. Xnode (kind_of x) cs),
     set_attribute = (\<lambda>a v x. Xnode (kind_attribute a v (kind_of x)) (node_kids x)),
     set_text = (\<lambda>t x. Xnode (kind_text t (kind_of x)) (node_kids x)),
     new_element = (\<lambda>n. Xnode (Element_node n [] None) []),
     new_document = Xnode Document_node [],
     load_file = load, save_file = save\<rparr>"

lemma kind_named_attribute [simp]: "kind_named (kind_attribute a v k) n = kind_named k n"
  by (cases k) (simp_all add: kind_named_def)

interpretation tree: xml_documents "tree_xml load save"
  by unfold_locales (auto simp: tree_xml_def kind_named_def split: node_kind.splits)

section \<open>The document while it is assembled\<close>

definition assembled :: "'x xml_lib \<Rightarrow> 'x \<Rightarrow> 'x \<Rightarrow> 'x \<Rightarrow> 'x \<Rightarrow> 'x list \<Rightarrow> 'x" where
  "assembled xl declaration mpd info period sets =
     with_children xl (new_document xl)
       [with_children xl declaration [], with_children xl mpd [info, with_children xl period sets]]"

text \<open>What a manifest of one tile has to contain.\<close>

record 'x manifest_parts =
  part_declaration :: 'x
  part_mpd :: 'x
  part_info :: 'x
  part_period :: 'x
  part_set :: 'x
  part_representation :: 'x

definition is_representation :: "'x xml_lib \<Rightarrow> 'x \<Rightarrow> bool" where
  "is_representation xl c \<longleftrightarrow> is_element xl c ''Representation''"

definition manifest :: "'x xml_lib \<Rightarrow> 'x \<Rightarrow> 'x manifest_parts \<Rightarrow> bool" where
  "manifest xl src q \<longleftrightarrow>
     node_children xl src \<noteq> [] \<and> hd (node_children xl src) = part_declaration q \<and>
     is_declaration xl (part_declaration q) \<and>
     first_child xl ''MPD'' src = Some (part_mpd q) \<and>
     first_child xl ''ProgramInformation'' (part_mpd q) = Some (part_info q) \<and>
     child_position xl ''Title'' (part_info q) \<noteq> None \<and>
     first_child xl ''Period'' (part_mpd q) = Some (part_period q) \<and>
     first_child xl ''AdaptationSet'' (part_period q) = Some (part_set q) \<and>
     filter (is_representation xl) (node_children xl (part_set q)) = [part_representation q] \<and>
     (first_child xl ''SegmentTemplate'' (part_representation q) \<noteq> None \<or>
      first_child xl ''SegmentTemplate'' (part_set q) \<noteq> None)"

definition titled :: "'x xml_lib \<Rightarrow> string \<Rightarrow> 'x \<Rightarrow> 'x" where
  "titled xl title info =
     (case child_position xl ''Title'' info of
        None \<Rightarrow> info | Some k \<Rightarrow> edit_child xl k (set_text xl title) info)"

text \<open>The frame of the merged document: what stays around the adaptation sets.\<close>

definition framed :: "'x xml_lib \<Rightarrow> 'x manifest_parts \<Rightarrow> string \<Rightarrow> 'x list \<Rightarrow> 'x" where
  "framed xl q title sets =
     assembled xl (part_declaration q) (part_mpd q) (titled xl title (part_info q)) (part_period q) sets"

context xml_documents
begin

lemma manifest_elements:
  assumes "manifest xl src q"
  shows "is_element xl (part_mpd q) ''MPD''" "is_element xl (part_info q) ''ProgramInformation''"
    "is_element xl (part_period q) ''Period''" "is_element xl (part_set q) ''AdaptationSet''"
    "\<not> is_element xl (part_declaration q) n"
  using assms first_child_Some(1) declaration_no_element by (auto simp: manifest_def)

lemma titled_element [simp]: "is_element xl (titled xl title info) n = is_element xl info n"
  by (simp add: titled_def split: option.split)

lemma not_named: "is_element xl x m \<Longrightarrow> m \<noteq> n \<Longrightarrow> \<not> is_element xl x n"
  using element_name by blast

lemma framed_walk:
  assumes "manifest xl src q"
  shows "child_position xl ''MPD'' (framed xl q title sets) = Some 1"
    and "child_position xl ''Period'' (node_at xl [1] (framed xl q title sets)) = Some 1"
    and "node_at xl [1, 1] (framed xl q title sets) = with_children xl (part_period q) sets"
  using manifest_elements [OF assms] not_named [of "part_info q" "''ProgramInformation''" "''Period''"]
  by (simp_all add: framed_def assembled_def child_position_def)

lemma framed_edit:
  shows "edit_at xl [1, 1] (insert_end_child xl a) (framed xl q title sets) = framed xl q title (sets @ [a])"
    and "k < length sets \<Longrightarrow> node_at xl [1, 1, k] (framed xl q title sets) = sets ! k"
    and "k < length sets \<Longrightarrow> edit_at xl [1, 1, k] (\<lambda>_. x) (framed xl q title sets) = framed xl q title (sets[k := x])"
  by (simp_all add: framed_def assembled_def edit_child_def insert_end_child_def)

lemma clone_set_into_frame:
  assumes "manifest xl src0 q" and "manifest xl src r"
  shows "clone_element_if_null xl src None [''MPD'', ''Period'', ''AdaptationSet''] (framed xl q title sets) =
    Inr (None, Some [1, 1, length sets], framed xl q title (sets @ [part_set r]))"
  using assms(2) framed_walk [OF assms(1), of title sets] framed_edit(1) [of "part_set r" q title sets]
  by (simp add: clone_element_if_null_def manifest_def)

text \<open>The first manifest makes the declaration, the program information and the frame.\<close>

lemma first_frame:
  assumes "manifest xl src q"
  shows "ensure_declaration xl src (merge_start xl) = Inr ((merge_start xl)
      \<lparr>destination := with_children xl (new_document xl) [with_children xl (part_declaration q) []], declaration_found := True\<rparr>)"
    and "ensure_program_information xl title src ((merge_start xl)
      \<lparr>destination := with_children xl (new_document xl) [with_children xl (part_declaration q) []], declaration_found := True\<rparr>) =
      Inr \<lparr>destination = with_children xl (new_document xl) [with_children xl (part_declaration q) [],
          with_children xl (part_mpd q) [titled xl title (part_info q)]],
        declaration_found = True, program_information = Some [1, 0], represent_index = 0\<rparr>"
    and "clone_element_if_null xl src None [''MPD'', ''Period'', ''AdaptationSet'']
        (with_children xl (new_document xl) [with_children xl (part_declaration q) [],
          with_children xl (part_mpd q) [titled xl title (part_info q)]]) =
      Inr (None, Some [1, 1, 0], framed xl q title [part_set q])"
proof -
  note parts = assms [unfolded manifest_def] and elements = manifest_elements [OF assms]
  note other = not_named [OF elements(2), of "''Period''"]
  show "ensure_declaration xl src (merge_start xl) = Inr ((merge_start xl)
      \<lparr>destination := with_children xl (new_document xl) [with_children xl (part_declaration q) []], declaration_found := True\<rparr>)"
    using parts by (cases "node_children xl src") (auto simp: ensure_declaration_def merge_start_def insert_first_child_def)
  show "ensure_program_information xl title src ((merge_start xl)
      \<lparr>destination := with_children xl (new_document xl) [with_children xl (part_declaration q) []], declaration_found := True\<rparr>) =
      Inr \<lparr>destination = with_children xl (new_document xl) [with_children xl (part_declaration q) [],
          with_children xl (part_mpd q) [titled xl title (part_info q)]],
        declaration_found = True, program_information = Some [1, 0], represent_index = 0\<rparr>"
    using parts elements
    by (auto simp: ensure_program_information_def clone_element_if_null_def merge_start_def edit_at_outcome_def
        child_position_def [of xl "''MPD''"] titled_def edit_child_def insert_end_child_def)
  show "clone_element_if_null xl src None [''MPD'', ''Period'', ''AdaptationSet'']
        (with_children xl (new_document xl) [with_children xl (part_declaration q) [],
          with_children xl (part_mpd q) [titled xl title (part_info q)]]) =
      Inr (None, Some [1, 1, 0], framed xl q title [part_set q])"
    using parts elements other
    by (simp add: clone_element_if_null_def child_position_def [of xl "''MPD''"] child_position_def [of xl "''Period''"]
        framed_def assembled_def edit_child_def insert_end_child_def)
qed

end

section \<open>The adaptation set of a tile\<close>

text \<open>
  From the first manifest: the tile's position, then the children of its set with the segment
  template moved to the front of the representation, which is numbered.
\<close>

definition first_children :: "'x xml_lib \<Rightarrow> string \<Rightarrow> string \<Rightarrow> 'x list \<Rightarrow> 'x list" where
  "first_children xl srd text cs =
     (let is_template = (\<lambda>c. is_element xl c ''SegmentTemplate'')
      in srd_property xl srd #
           map_where (is_representation xl) (\<lambda>r. set_attribute xl ''id'' text
             (case position is_template cs of None \<Rightarrow> r | Some t \<Rightarrow> insert_first_child xl (cs ! t) r))
             (remove_first is_template cs))"

definition later_representation :: "'x xml_lib \<Rightarrow> 'x manifest_parts \<Rightarrow> 'x" where
  "later_representation xl q =
     (case first_child xl ''SegmentTemplate'' (part_representation q) of
        Some t \<Rightarrow> part_representation q
      | None \<Rightarrow>
          (case first_child xl ''SegmentTemplate'' (part_set q) of
             None \<Rightarrow> part_representation q
           | Some t \<Rightarrow> insert_end_child xl t (part_representation q)))"

context xml_documents
begin

lemma representation_kept [simp]:
  "is_representation xl (set_attribute xl a v x) = is_representation xl x"
  "is_representation xl (insert_first_child xl c x) = is_representation xl x"
  "is_representation xl (insert_end_child xl c x) = is_representation xl x"
  "\<not> is_representation xl (srd_property xl srd)"
  by (simp_all add: is_representation_def)

lemma representation_eq: "(\<lambda>c. is_element xl c ''Representation'') = is_representation xl"
  by (simp add: fun_eq_iff is_representation_def)

lemma template_no_representation: "is_element xl x ''SegmentTemplate'' \<Longrightarrow> \<not> is_representation xl x"
  using not_named by (auto simp: is_representation_def)

lemma number_single:
  assumes "filter (is_representation xl) (node_children xl a) = [r]"
  shows "number_representation xl text a =
    Inr (with_children xl a (map_where (is_representation xl) (set_attribute xl ''id'' text) (node_children xl a)))"
proof -
  obtain k where k: "position (is_representation xl) (node_children xl a) = Some k"
    using assms position_None [of "is_representation xl" "node_children xl a"] by (cases rule: option.exhaust) auto
  from position_update [OF k assms] last_position_single [OF assms] k show ?thesis
    by (simp add: number_representation_def representation_eq edit_child_def)
qed

lemma first_set:
  assumes "filter (is_representation xl) (node_children xl a) = [r]"
  shows "and_then (first_set_edit xl srd a) (number_representation xl text) =
    Inr (with_children xl a (first_children xl srd text (node_children xl a)))"
proof -
  let ?cs = "node_children xl a" and ?rep = "is_representation xl" and ?t = "\<lambda>c. is_element xl c ''SegmentTemplate''"
  let ?srd = "srd_property xl srd"
  obtain k where k: "position ?rep ?cs = Some k"
    using assms position_None [of ?rep ?cs] by (cases "position ?rep ?cs") auto
  show ?thesis
  proof (cases "position ?t ?cs")
    case None
    then have "first_set_edit xl srd a = Inr (with_children xl a (?srd # ?cs))"
      by (simp add: first_set_edit_def insert_first_child_def child_position_def)
    moreover have "number_representation xl text (with_children xl a (?srd # ?cs)) =
        Inr (with_children xl a (?srd # map_where ?rep (set_attribute xl ''id'' text) ?cs))"
      using assms by (subst number_single [of _ r]) simp_all
    ultimately show ?thesis
      by (simp add: first_children_def None remove_first_none)
  next
    case (Some t)
    let ?ins = "insert_first_child xl (?cs ! t)"
    let ?m = "map_where ?rep ?ins (remove_first ?t ?cs)"
    have "position ?t (map_where ?rep ?ins ?cs) = Some t"
      using Some by (subst position_map_where) simp_all
    from position_delete [OF this]
    have moved: "take t (map_where ?rep ?ins ?cs) @ drop (Suc t) (map_where ?rep ?ins ?cs) = ?m"
      by (subst (asm) position_map_where(2)) simp_all
    have "first_set_edit xl srd a = Inr (with_children xl a (?srd # ?m))"
      using Some k position_update [OF k assms, of ?ins] moved
      by (simp add: first_set_edit_def insert_first_child_def child_position_def edit_child_def delete_child_def
          representation_eq Let_def)
    moreover have single: "filter ?rep ?m = [?ins r]"
      using assms by (simp add: filter_map_where filter_remove_first template_no_representation)
    have "number_representation xl text (with_children xl a (?srd # ?m)) =
        Inr (with_children xl a (?srd # map_where ?rep (\<lambda>x. set_attribute xl ''id'' text (?ins x)) (remove_first ?t ?cs)))"
      using single by (subst number_single [of _ "?ins r"]) (simp_all add: map_where_map_where)
    ultimately show ?thesis
      by (simp add: first_children_def Some)
  qed
qed

lemma first_child_single:
  assumes "filter (is_representation xl) (node_children xl a) = [r]"
  shows "first_child xl ''Representation'' a = Some r"
proof -
  obtain k where "position (is_representation xl) (node_children xl a) = Some k"
    using assms position_None [of "is_representation xl" "node_children xl a"]
    by (cases "position (is_representation xl) (node_children xl a)") auto
  with position_filter [OF this assms] show ?thesis
    by (simp add: first_child_def child_position_def representation_eq)
qed

lemma later_set:
  assumes "manifest xl src q"
  shows "and_then (later_set_edit xl src a) (number_representation xl text) =
    Inr (insert_end_child xl (set_attribute xl ''id'' text (later_representation xl q)) a)"
proof -
  note parts = assms [unfolded manifest_def]
  have "first_child xl ''Representation'' (part_set q) = Some (part_representation q)"
    using parts first_child_single by blast
  then have "later_set_edit xl src a = Inr (insert_end_child xl (later_representation xl q) a)"
    using parts by (auto simp: later_set_edit_def later_representation_def split: option.splits)
  moreover have "is_representation xl (later_representation xl q)"
    using parts by (auto simp: later_representation_def filter_eq_Cons_iff split: option.splits)
  ultimately show ?thesis
    by (simp add: number_representation_def representation_eq last_position_end edit_child_def insert_end_child_def)
qed

end

section \<open>The merge\<close>

fun later_list :: "'x xml_lib \<Rightarrow> (int \<Rightarrow> string) \<Rightarrow> int \<Rightarrow> 'x manifest_parts list \<Rightarrow> 'x list" where
  "later_list xl fmt n [] = []"
| "later_list xl fmt n (q # qs) =
     set_attribute xl ''id'' (fmt (n + 1)) (later_representation xl q) # later_list xl fmt (n + 1) qs"

text \<open>The set of a tile whose representations get the numbers after \<open>n\<close>.\<close>

definition tile_set ::
  "'x xml_lib \<Rightarrow> (int \<Rightarrow> string) \<Rightarrow> string \<Rightarrow> int \<Rightarrow> 'x manifest_parts list \<Rightarrow> 'x" where
  "tile_set xl fmt srd n qs =
     with_children xl (part_set (hd qs))
       (first_children xl srd (fmt (n + 1)) (node_children xl (part_set (hd qs))) @
        later_list xl fmt (n + 1) (tl qs))"

fun tile_sets ::
  "command_lib \<Rightarrow> 'x xml_lib \<Rightarrow> command \<Rightarrow> (path \<Rightarrow> 'x manifest_parts) \<Rightarrow> int \<Rightarrow> mpd_paths \<Rightarrow> 'x list" where
  "tile_sets lib xl c parts n [] = []"
| "tile_sets lib xl c parts n ((k, ps) # tiles) =
     tile_set xl (format_int lib) (spatial_relationship (format_int lib) (wcrop c) (hcrop c) k) n (map parts ps) #
     tile_sets lib xl c parts (n + int (length ps)) tiles"

definition framed_state :: "'x xml_lib \<Rightarrow> 'x manifest_parts \<Rightarrow> string \<Rightarrow> 'x list \<Rightarrow> int \<Rightarrow> 'x merge_state" where
  "framed_state xl q title sets n = \<lparr>destination = framed xl q title sets, declaration_found = True,
     program_information = Some [1, 0], represent_index = n\<rparr>"

definition readable_manifest :: "'x xml_lib \<Rightarrow> (path \<Rightarrow> 'x manifest_parts) \<Rightarrow> path \<Rightarrow> bool" where
  "readable_manifest xl parts p \<longleftrightarrow> manifest xl (snd (load_file xl p)) (parts p)"

lemma xml_check_passes [simp]: "xml_check code = Inr ()"
  by (simp add: xml_check_def check_shift_def check_expect_def)

context xml_documents
begin

lemma edit_frame:
  assumes "and_then (f a) g = Inr y" and "k < length sets" and "sets ! k = a"
  obtains d where "edit_at_outcome xl [1, 1, k] f (framed xl q title sets) = Inr d"
    and "edit_at_outcome xl [1, 1, k] g d = Inr (framed xl q title (sets[k := y]))"
proof -
  from assms(1) obtain b where b: "f a = Inr b" "g b = Inr y"
    by (auto simp: outcome_simps)
  show thesis
  proof (rule that)
    show "edit_at_outcome xl [1, 1, k] f (framed xl q title sets) = Inr (framed xl q title (sets[k := b]))"
      using assms(2,3) b by (simp only: edit_at_outcome_def framed_edit and_then_simps)
    show "edit_at_outcome xl [1, 1, k] g (framed xl q title (sets[k := b])) = Inr (framed xl q title (sets[k := y]))"
      using assms(2,3) b
      by (simp only: edit_at_outcome_def framed_edit and_then_simps length_list_update nth_list_update_eq list_update_overwrite)
  qed
qed

lemma merge_later:
  assumes "readable_manifest xl parts p" and "k < length sets"
  shows "merge_mpd lib xl c title coordinate p (Some [1, 1, k], framed_state xl q title sets n) =
    Inr (Some [1, 1, k], framed_state xl q title (sets[k := insert_end_child xl
      (set_attribute xl ''id'' (format_int lib (n + 1)) (later_representation xl (parts p))) (sets ! k)]) (n + 1))"
proof -
  obtain d where d:
    "edit_at_outcome xl [1, 1, k] (later_set_edit xl (snd (load_file xl p))) (framed xl q title sets) = Inr d"
    "edit_at_outcome xl [1, 1, k] (number_representation xl (format_int lib (n + 1))) d =
      Inr (framed xl q title (sets[k := insert_end_child xl
        (set_attribute xl ''id'' (format_int lib (n + 1)) (later_representation xl (parts p))) (sets ! k)]))"
    by (rule edit_frame [OF later_set [OF assms(1) [unfolded readable_manifest_def]] assms(2) refl])
  then show ?thesis
    by (simp add: merge_mpd_def framed_state_def case_prod_unfold Let_def ensure_declaration_def
        ensure_program_information_def clone_element_if_null_def)
qed

text \<open>The first manifest of a tile, into a frame and as the very first one.\<close>

lemma first_of_tile:
  assumes "readable_manifest xl parts p"
  obtains d where "edit_at_outcome xl [1, 1, length sets] (first_set_edit xl srd)
      (framed xl q title (sets @ [part_set (parts p)])) = Inr d"
    and "edit_at_outcome xl [1, 1, length sets] (number_representation xl (fmt (n + 1))) d =
      Inr (framed xl q title (sets @ [tile_set xl fmt srd n [parts p]]))"
proof -
  have single: "filter (is_representation xl) (node_children xl (part_set (parts p))) = [part_representation (parts p)]"
    using assms by (simp add: readable_manifest_def manifest_def)
  let ?sets = "sets @ [part_set (parts p)]"
  have "length sets < length ?sets" "?sets ! length sets = part_set (parts p)" by simp_all
  from edit_frame [where k = "length sets" and sets = ?sets and a = "part_set (parts p)" and q = q and title = title
      and f = "first_set_edit xl srd" and g = "number_representation xl (fmt (n + 1))",
      OF first_set [OF single, of srd "fmt (n + 1)"] this]
  obtain d where "edit_at_outcome xl [1, 1, length sets] (first_set_edit xl srd) (framed xl q title ?sets) = Inr d"
    "edit_at_outcome xl [1, 1, length sets] (number_representation xl (fmt (n + 1))) d =
      Inr (framed xl q title (?sets[length sets := with_children xl (part_set (parts p))
        (first_children xl srd (fmt (n + 1)) (node_children xl (part_set (parts p))))]))" by blast
  then show thesis using that by (simp add: tile_set_def)
qed

lemma merge_new:
  assumes "readable_manifest xl parts p" and "manifest xl src0 q"
  shows "merge_mpd lib xl c title coordinate p (None, framed_state xl q title sets n) =
    Inr (Some [1, 1, length sets], framed_state xl q title (sets @ [tile_set xl (format_int lib)
      (spatial_relationship (format_int lib) (wcrop c) (hcrop c) coordinate) n [parts p]]) (n + 1))"
proof -
  let ?srd = "spatial_relationship (format_int lib) (wcrop c) (hcrop c) coordinate"
  obtain d where "edit_at_outcome xl [1, 1, length sets] (first_set_edit xl ?srd)
      (framed xl q title (sets @ [part_set (parts p)])) = Inr d"
    "edit_at_outcome xl [1, 1, length sets] (number_representation xl (format_int lib (n + 1))) d =
      Inr (framed xl q title (sets @ [tile_set xl (format_int lib) ?srd n [parts p]]))"
    by (rule first_of_tile [OF assms(1)])
  then show ?thesis
    using clone_set_into_frame [OF assms(2) assms(1) [unfolded readable_manifest_def]]
    by (simp add: merge_mpd_def framed_state_def case_prod_unfold Let_def ensure_declaration_def
        ensure_program_information_def clone_element_if_null_def [of xl _ "Some _"])
qed

lemma merge_first:
  assumes "readable_manifest xl parts p"
  shows "merge_mpd lib xl c title coordinate p (None, merge_start xl) =
    Inr (Some [1, 1, 0], framed_state xl (parts p) title [tile_set xl (format_int lib)
      (spatial_relationship (format_int lib) (wcrop c) (hcrop c) coordinate) 0 [parts p]] 1)"
proof -
  let ?srd = "spatial_relationship (format_int lib) (wcrop c) (hcrop c) coordinate"
  obtain d where "edit_at_outcome xl [1, 1, length ([]::'x list)] (first_set_edit xl ?srd)
      (framed xl (parts p) title ([] @ [part_set (parts p)])) = Inr d"
    "edit_at_outcome xl [1, 1, length ([]::'x list)] (number_representation xl (format_int lib (0 + 1))) d =
      Inr (framed xl (parts p) title ([] @ [tile_set xl (format_int lib) ?srd 0 [parts p]]))"
    by (rule first_of_tile [OF assms, where sets = "[]" and srd = ?srd and q = "parts p" and title = title
        and fmt = "format_int lib" and n = 0])
  then show ?thesis
    using first_frame [OF assms [unfolded readable_manifest_def]]
    by (simp add: merge_mpd_def framed_state_def case_prod_unfold Let_def)
qed

lemma merge_rest_of_tile:
  assumes "\<forall>p\<in>set ps. readable_manifest xl parts p"
  shows "for_each (merge_mpd lib xl c title coordinate) ps
      (Some [1, 1, length sets], framed_state xl q title (sets @ [with_children xl b cs]) n) =
    Inr (Some [1, 1, length sets], framed_state xl q title
      (sets @ [with_children xl b (cs @ later_list xl (format_int lib) n (map parts ps))]) (n + int (length ps)))"
  using assms
proof (induction ps arbitrary: cs n)
  case (Cons p ps)
  have "readable_manifest xl parts p" using Cons.prems by simp
  from merge_later [OF this, of "length sets" "sets @ [with_children xl b cs]"]
  have step: "merge_mpd lib xl c title coordinate p
      (Some [1, 1, length sets], framed_state xl q title (sets @ [with_children xl b cs]) n) =
    Inr (Some [1, 1, length sets], framed_state xl q title (sets @ [with_children xl b
      (cs @ [set_attribute xl ''id'' (format_int lib (n + 1)) (later_representation xl (parts p))])]) (n + 1))"
    by (simp add: insert_end_child_def)
  show ?case
    using Cons by (simp add: step [unfolded One_nat_def] add.assoc)
qed simp

lemma tile_set_Cons:
  "tile_set xl fmt srd n (q # qs) = with_children xl (part_set q)
     (node_children xl (tile_set xl fmt srd n [q]) @ later_list xl fmt (n + 1) qs)"
  by (simp add: tile_set_def)

lemma tile_set_single: "tile_set xl fmt srd n [q] = with_children xl (part_set q) (node_children xl (tile_set xl fmt srd n [q]))"
  by (simp add: tile_set_def)

lemma merge_next_tile:
  assumes "ps \<noteq> []" and "\<forall>p\<in>set ps. readable_manifest xl parts p" and "manifest xl src0 q"
  shows "merge_tile lib xl c title (coordinate, ps) (framed_state xl q title sets n) =
    Inr (framed_state xl q title (sets @ [tile_set xl (format_int lib)
      (spatial_relationship (format_int lib) (wcrop c) (hcrop c) coordinate) n (map parts ps)]) (n + int (length ps)))"
proof -
  let ?srd = "spatial_relationship (format_int lib) (wcrop c) (hcrop c) coordinate"
  obtain p qs where ps: "ps = p # qs" using assms(1) by (cases ps) auto
  with assms(2) have p: "readable_manifest xl parts p" and qs: "\<forall>p\<in>set qs. readable_manifest xl parts p" by simp_all
  from merge_rest_of_tile [OF qs, of lib c title coordinate sets q "part_set (parts p)"
      "node_children xl (tile_set xl (format_int lib) ?srd n [parts p])" "n + 1"]
  show ?thesis
    by (simp add: merge_tile_def ps merge_new [OF p assms(3)] tile_set_single [symmetric] tile_set_Cons [symmetric]
        add.assoc del: children_with)
qed

lemma merge_first_tile:
  assumes "ps \<noteq> []" and "\<forall>p\<in>set ps. readable_manifest xl parts p"
  shows "merge_tile lib xl c title (coordinate, ps) (merge_start xl) =
    Inr (framed_state xl (parts (hd ps)) title [tile_set xl (format_int lib)
      (spatial_relationship (format_int lib) (wcrop c) (hcrop c) coordinate) 0 (map parts ps)] (int (length ps)))"
proof -
  let ?srd = "spatial_relationship (format_int lib) (wcrop c) (hcrop c) coordinate"
  obtain p qs where ps: "ps = p # qs" using assms(1) by (cases ps) auto
  with assms(2) have p: "readable_manifest xl parts p" and qs: "\<forall>p\<in>set qs. readable_manifest xl parts p" by simp_all
  from merge_rest_of_tile [OF qs, of lib c title coordinate "[]" "parts p" "part_set (parts p)"
      "node_children xl (tile_set xl (format_int lib) ?srd 0 [parts p])" "1"]
  show ?thesis
    by (simp add: merge_tile_def ps merge_first [OF p] tile_set_single [symmetric]
        tile_set_Cons [of "format_int lib" ?srd 0 "parts p" "map parts qs", simplified, symmetric]
        del: children_with)
qed

lemma merge_next_tiles:
  assumes "\<forall>(k, ps)\<in>set tiles. ps \<noteq> [] \<and> (\<forall>p\<in>set ps. readable_manifest xl parts p)" and "manifest xl src0 q"
  shows "for_each (merge_tile lib xl c title) tiles (framed_state xl q title sets n) =
    Inr (framed_state xl q title (sets @ tile_sets lib xl c parts n tiles)
      (n + int (sum_list (map (\<lambda>(k, ps). length ps) tiles))))"
  using assms(1)
proof (induction tiles arbitrary: sets n)
  case (Cons tile tiles)
  obtain k ps where tile: "tile = (k, ps)" by (cases tile)
  have "merge_tile lib xl c title (k, ps) (framed_state xl q title sets n) =
      Inr (framed_state xl q title (sets @ [tile_set xl (format_int lib)
        (spatial_relationship (format_int lib) (wcrop c) (hcrop c) k) n (map parts ps)]) (n + int (length ps)))"
    using Cons.prems tile by (intro merge_next_tile [OF _ _ assms(2)]) simp_all
  with Cons tile show ?case by (simp add: add.assoc)
qed simp

lemma merge_all_tiles:
  assumes "tiles \<noteq> []" and "\<forall>(k, ps)\<in>set tiles. ps \<noteq> [] \<and> (\<forall>p\<in>set ps. readable_manifest xl parts p)"
  shows "for_each (merge_tile lib xl c title) tiles (merge_start xl) =
    Inr (framed_state xl (parts (hd (snd (hd tiles)))) title (tile_sets lib xl c parts 0 tiles)
      (int (sum_list (map (\<lambda>(k, ps). length ps) tiles))))"
proof -
  obtain k ps rest where tiles: "tiles = (k, ps) # rest" using assms(1) by (cases tiles) auto
  with assms(2) have ps: "ps \<noteq> []" "\<forall>p\<in>set ps. readable_manifest xl parts p"
    and rest: "\<forall>(k, ps)\<in>set rest. ps \<noteq> [] \<and> (\<forall>p\<in>set ps. readable_manifest xl parts p)" by auto
  have "manifest xl (snd (load_file xl (hd ps))) (parts (hd ps))"
    using ps by (simp add: readable_manifest_def)
  from merge_next_tiles [OF rest this] merge_first_tile [OF ps] show ?thesis
    by (simp add: tiles)
qed

end

lemma tile_mpd_path_map_nonempty:
  assumes "tile_mpd_path_map lib c s = Inr m"
  shows "\<forall>(k, ps)\<in>set m. ps \<noteq> []"
proof -
  have "by_tile lib [] []" by (simp add: by_tile_def in_order_def)
  from for_each_enter_mesh [OF _ this] assms obtain ps where "by_tile lib ps m"
    by (auto simp: tile_mpd_path_map_def outcome_simps)
  then show ?thesis by (auto simp: by_tile_def)
qed


definition sample_parts :: "xnode manifest_parts" where
  "sample_parts =
     (let element = (\<lambda>n cs. Xnode (Element_node n [] None) cs);
          representation = element ''Representation'' [];
          adaptation = element ''AdaptationSet'' [element ''SegmentTemplate'' [], representation];
          period = element ''Period'' [adaptation];
          info = element ''ProgramInformation'' [element ''Title'' []]
      in \<lparr>part_declaration = Xnode Declaration_node [], part_mpd = element ''MPD'' [info, period], part_info = info,
           part_period = period, part_set = adaptation, part_representation = representation\<rparr>)"

definition sample_manifest :: xnode where
  "sample_manifest = Xnode Document_node [part_declaration sample_parts, part_mpd sample_parts]"

definition sample_xml :: "xnode xml_lib" where
  "sample_xml = tree_xml (\<lambda>p. (0, sample_manifest)) (\<lambda>p x s. (0, s @ [(p, File 1)]))"


end
