(* ===== verification/Media.thy ===== *)
theory Media
  imports Random_Access Core_Verify
begin

text \<open>
  \<^verbatim>\<open>src/multimedia/media.h\<close>, \<^verbatim>\<open>media.cpp\<close>, \<^verbatim>\<open>context.h\<close> and \<^verbatim>\<open>context.cpp\<close>: packets and frames, the format
  context that demultiplexes packets, the codec context that decodes them, and the availability of an
  io context. FFmpeg's demultiplexer and decoder are parameters with a state of their own. A loop
  that asks them until they answer otherwise may not end; then its value is \<open>None\<close>.
\<close>

section \<open>Packets and frames\<close>

datatype media_type = Audio_type | Video_type | Subtitle_type | Unknown_type

fun type_value :: "media_type \<Rightarrow> int" where
  "type_value Unknown_type = -1"
| "type_value Video_type = 0"
| "type_value Audio_type = 1"
| "type_value Subtitle_type = 3"

text \<open>A handle can be null; the data of a packet has its size.\<close>

record av_packet =
  stream_index :: nat
  packet_data :: "byte list"

type_synonym packet = "av_packet option"

definition packet_empty :: "packet \<Rightarrow> bool" where
  "packet_empty packet = (case packet of None \<Rightarrow> True | Some p \<Rightarrow> packet_data p = [])"

definition packet_size :: "packet \<Rightarrow> nat" where
  "packet_size packet = (case packet of None \<Rightarrow> 0 | Some p \<Rightarrow> length (packet_data p))"

definition packet_buffer :: "packet \<Rightarrow> byte list outcome" where
  "packet_buffer packet = (case packet of None \<Rightarrow> Inl Undefined_behaviour | Some p \<Rightarrow> Inr (packet_data p))"

text \<open>A packet as \<^verbatim>\<open>av_packet_alloc\<close> makes it and as a failed read leaves it.\<close>

definition blank_packet :: av_packet where
  "blank_packet = \<lparr>stream_index = 0, packet_data = []\<rparr>"

text \<open>The constructor from bytes verifies the allocation and that taking over the data answers zero.\<close>

definition packet_from_bytes :: "bool \<Rightarrow> int \<Rightarrow> byte list \<Rightarrow> packet outcome" where
  "packet_from_bytes allocated from_data bytes =
     and_then (verify [Pointer allocated]) (\<lambda>_.
     and_then (verify [Condition (from_data = 0)]) (\<lambda>_.
       Inr (Some \<lparr>stream_index = 0, packet_data = bytes\<rparr>)))"

text \<open>A frame is null or has its first plane, or not.\<close>

type_synonym 'f frame = "'f option option"

definition frame_empty :: "'f frame \<Rightarrow> bool" where
  "frame_empty frame = (case frame of None \<Rightarrow> True | Some plane \<Rightarrow> plane = None)"

section \<open>Streams\<close>

text \<open>What is read of a stream and its codec parameters; the type is cast to an enumeration of 16 bits.\<close>

record av_stream =
  stream_number :: nat
  stream_codec_type :: int
  stream_width :: int
  stream_height :: int
  stream_frames :: int

definition stream_media :: "av_stream \<Rightarrow> int" where
  "stream_media st = sint (word_of_int (stream_codec_type st) :: 16 word)"

definition stream_scale :: "av_stream \<Rightarrow> int \<times> int" where
  "stream_scale st = (stream_width st, stream_height st)"

definition stream_index_of :: "av_stream \<Rightarrow> nat" where
  "stream_index_of st = stream_number st"

text \<open>Casting back and forth keeps the types of FFmpeg, which are small.\<close>

lemma stream_media_type: "stream_codec_type st = type_value t \<Longrightarrow> stream_media st = type_value t"
  by (cases t) (simp_all add: stream_media_def)

section \<open>The format context\<close>

text \<open>Opening must succeed (an assertion) and finding the stream information must not be negative.\<close>

definition format_context_open :: "int \<Rightarrow> 'd \<Rightarrow> int \<Rightarrow> 'd outcome" where
  "format_context_open success demuxer find_stream_info =
     assert_that (success = 0) (and_then (verify [Signed find_stream_info]) (\<lambda>_. Inr demuxer))"

definition format_context_sink :: "'d outcome" where
  "format_context_sink = Inl (Throw Not_implemented_error)"

text \<open>The best stream is used as an index without a check; with a codec, a miss gives the first stream.\<close>

definition demux :: "'s list \<Rightarrow> int \<Rightarrow> 's outcome" where
  "demux streams best =
     (if 0 \<le> best \<and> nat best < length streams then Inr (streams ! nat best) else Inl Undefined_behaviour)"

definition demux_with_codec :: "'s list \<Rightarrow> int \<Rightarrow> 'k option \<Rightarrow> ('k \<times> 's) outcome" where
  "demux_with_codec streams index cdc =
     (case cdc of
        None \<Rightarrow> Inl Undefined_behaviour
      | Some codec \<Rightarrow>
          let position = (if index \<ge> 0 then nat index else 0)
          in if position < length streams then Inr (codec, streams ! position) else Inl Undefined_behaviour)"

text \<open>
  The next packet of a type; packets of other types are dropped. At the end of the stream, or at an
  error, the packet is blank.
\<close>

partial_function (option) read_packet ::
  "('d \<Rightarrow> av_packet option \<times> 'd) \<Rightarrow> (nat \<Rightarrow> int) \<Rightarrow> media_type \<Rightarrow> 'd \<Rightarrow> (av_packet \<times> 'd) option" where
  "read_packet av_read_frame codec_type mtype d =
     (case av_read_frame d of
        (None, d1) \<Rightarrow> Some (blank_packet, d1)
      | (Some p, d1) \<Rightarrow>
          if mtype \<noteq> Unknown_type \<and> \<not> underlying_same type_value id mtype (codec_type (stream_index p))
          then read_packet av_read_frame codec_type mtype d1
          else Some (p, d1))"

fun read_packets ::
  "('d \<Rightarrow> av_packet option \<times> 'd) \<Rightarrow> (nat \<Rightarrow> int) \<Rightarrow> media_type \<Rightarrow> nat \<Rightarrow> 'd \<Rightarrow> (av_packet list \<times> 'd) option" where
  "read_packets av_read_frame codec_type mtype 0 d = Some ([], d)"
| "read_packets av_read_frame codec_type mtype (Suc count) d =
     Option.bind (read_packet av_read_frame codec_type mtype d) (\<lambda>(p, d1).
       map_option (\<lambda>(ps, d2). (p # ps, d2)) (read_packets av_read_frame codec_type mtype count d1))"

section \<open>The codec context\<close>

record 'c codec_context =
  decoder :: 'c
  format_stream :: nat
  dispose_count :: nat
  flushed :: bool

definition codec_context_open :: "int \<Rightarrow> int \<Rightarrow> int \<Rightarrow> int \<Rightarrow> 'c \<Rightarrow> nat \<Rightarrow> 'c codec_context outcome" where
  "codec_context_open parameters refcounted threads open2 c stream =
     and_then (verify [Signed parameters]) (\<lambda>_.
     and_then (verify [Signed refcounted]) (\<lambda>_.
     and_then (verify [Signed threads]) (\<lambda>_.
     and_then (verify [Signed open2]) (\<lambda>_.
       Inr \<lparr>decoder = c, format_stream = stream, dispose_count = 0, flushed = False\<rparr>))))"

definition valid :: "'c codec_context \<Rightarrow> bool" where
  "valid k = (\<not> flushed k)"

text \<open>How many frames were given out, and how many the stream says it has.\<close>

definition disposed_frames :: "'c codec_context \<Rightarrow> nat" where
  "disposed_frames k = dispose_count k"

definition frame_count :: "av_stream list \<Rightarrow> 'c codec_context \<Rightarrow> int outcome" where
  "frame_count streams k =
     (if format_stream k < length streams then Inr (stream_frames (streams ! format_stream k)) else Inl Undefined_behaviour)"

text \<open>Frames are received until the decoder has no more.\<close>

partial_function (option) receive_frames ::
  "('c \<Rightarrow> 'f option \<times> 'c) \<Rightarrow> 'c \<Rightarrow> ('f list \<times> 'c) option" where
  "receive_frames avcodec_receive_frame c =
     (case avcodec_receive_frame c of
        (None, c1) \<Rightarrow> Some ([], c1)
      | (Some f, c1) \<Rightarrow>
          Option.bind (receive_frames avcodec_receive_frame c1) (\<lambda>(fs, c2). Some (f # fs, c2)))"

declare read_packet.simps [code] receive_frames.simps [code]

text \<open>An empty packet flushes; the flag is set before the assertions and the decoder are reached.\<close>

definition decode ::
  "('c \<Rightarrow> av_packet \<Rightarrow> int \<times> 'c) \<Rightarrow> ('c \<Rightarrow> 'f option \<times> 'c) \<Rightarrow> av_packet \<Rightarrow> 'c codec_context \<Rightarrow>
   ('f list outcome \<times> 'c codec_context) option" where
  "decode avcodec_send_packet avcodec_receive_frame packets k =
     (let was_flushed = flushed k;
          k1 = k\<lparr>flushed := packet_empty (Some packets)\<rparr>
      in if was_flushed then Some (Inl Assert_failed, k1)
         else if format_stream k1 \<noteq> stream_index packets then Some (Inl Assert_failed, k1)
         else let (result, c) = avcodec_send_packet (decoder k1) packets;
                  k2 = k1\<lparr>decoder := c\<rparr>
              in case verify [Signed result] of
                   Inl e \<Rightarrow> Some (Inl e, k2)
                 | Inr _ \<Rightarrow>
                     map_option (\<lambda>(full_frames, c2).
                         (Inr full_frames, k2\<lparr>decoder := c2, dispose_count := dispose_count k2 + length full_frames\<rparr>))
                       (receive_frames avcodec_receive_frame c))"

section \<open>The io context\<close>

text \<open>The callbacks are handed over according to what the source can do.\<close>

definition io_callbacks :: "'s io_base \<Rightarrow> bool \<times> bool \<times> bool" where
  "io_callbacks io = (readable io, writable io, seekable io)"

text \<open>\<open>available\<close> is \<open>noexcept\<close>: an exception of the source ends the program.\<close>

definition io_available :: "'s io_base option \<Rightarrow> bool outcome" where
  "io_available io =
     (case io of
        None \<Rightarrow> Inr False
      | Some base \<Rightarrow> (case available base of Inl (Throw e) \<Rightarrow> Inl Terminated | r \<Rightarrow> r))"

end
