(* ===== verification/Tile_Stream.thy ===== *)
theory Tile_Stream
  imports Core_Values Media
begin

text \<open>
  One tile of the player: \<^verbatim>\<open>stream_context\<close> of \<^verbatim>\<open>src/gallery/plugin.context.h\<close> and what
  \<^verbatim>\<open>src/gallery/plugin.cpp\<close> does with it: the decoding thread of \<open>stream_mpeg_dash\<close>, the polls of the
  update thread and the texture events of the render thread. Each handler is a function on the
  stream; an interleaving of the three threads is a sequence of their steps. The segmentor, the
  buffers it is made of and the planes of a frame are parameters.
\<close>

section \<open>State\<close>

text \<open>What the decoding thread hands over: a frame, null at the end, or the exception that ended it.\<close>

datatype 'f decode_frame = Frame "'f frame" | Ending exn

record stream_base =
  tile_number :: int
  tile_coordinate_of :: coordinate
  tile_offset :: dimension

record stream_options = stream_base +
  decode_limit :: nat
  render_limit :: nat

text \<open>
  \<open>frame_held\<close> says that the pointer \<^verbatim>\<open>render.frame\<close> is not null; it then points to the front of the
  render queue. The set of planes stands for the bit set \<^verbatim>\<open>texture_state\<close>.
\<close>

record 'f tile_stream = stream_base +
  decode_queue :: "'f decode_frame list"
  decode_capacity :: nat
  decode_count :: int
  decode_try :: int
  decode_success :: int
  render_finish :: int
  texture_state :: "nat set"
  frame_held :: bool
  render_queue :: "'f frame list"
  render_begin :: int
  render_end :: int

definition default_options :: stream_options where
  "default_options = \<lparr>tile_number = 0, tile_coordinate_of = Coordinate 0 0, tile_offset = Dimension 0 0,
     decode_limit = 30, render_limit = 15\<rparr>"

definition with_index :: "int \<Rightarrow> stream_options \<Rightarrow> stream_options" where
  "with_index i s = s\<lparr>tile_number := i\<rparr>"

definition with_coordinate :: "int \<Rightarrow> int \<Rightarrow> stream_options \<Rightarrow> stream_options" where
  "with_coordinate c r s = s\<lparr>tile_coordinate_of := Coordinate c r\<rparr>"

definition with_offset :: "int \<Rightarrow> int \<Rightarrow> stream_options \<Rightarrow> stream_options" where
  "with_offset w h s = s\<lparr>tile_offset := Dimension w h\<rparr>"

definition with_capacity :: "nat \<Rightarrow> nat \<Rightarrow> stream_options \<Rightarrow> stream_options" where
  "with_capacity d r s = s\<lparr>decode_limit := d, render_limit := r\<rparr>"

definition make_stream_context :: "stream_options \<Rightarrow> 'f tile_stream" where
  "make_stream_context s = \<lparr>tile_number = tile_number s, tile_coordinate_of = tile_coordinate_of s,
     tile_offset = tile_offset s, decode_queue = [], decode_capacity = decode_limit s, decode_count = 0,
     decode_try = 0, decode_success = 0, render_finish = 0, texture_state = {}, frame_held = False,
     render_queue = [], render_begin = 0, render_end = 0\<rparr>"

section \<open>The end of the stream\<close>

text \<open>
  \<open>state::stream::available\<close> with the static flag as state: without an argument it only answers; a
  frame sets the flag to its emptiness and a null pointer clears it.
\<close>

definition stream_available :: "'f frame option option \<Rightarrow> bool \<Rightarrow> bool \<times> bool" where
  "stream_available arg end_of_stream =
     (let flag = (case arg of
                    None \<Rightarrow> end_of_stream
                  | Some None \<Rightarrow> False
                  | Some (Some frame) \<Rightarrow> frame_empty frame)
      in (\<not> flag, flag))"

section \<open>The update thread\<close>

definition tile_poll_update :: "bool \<Rightarrow> bool \<times> 'f tile_stream \<Rightarrow> bool \<times> bool \<times> 'f tile_stream" where
  "tile_poll_update decode_enable = (\<lambda>(end_of_stream, t).
     let t1 = t\<lparr>decode_try := decode_try t + 1\<rparr>
     in case decode_queue t1 of
          [] \<Rightarrow> (False, end_of_stream, t1)
        | frame # queue \<Rightarrow>
            let t2 = t1\<lparr>decode_queue := queue, decode_success := decode_success t1 + 1\<rparr>
            in case frame of
                 Ending e \<Rightarrow> (True, snd (stream_available (Some (Some (None :: 'f frame))) end_of_stream), t2)
               | Frame f \<Rightarrow>
                   (True, end_of_stream,
                    if decode_enable then t2\<lparr>render_queue := render_queue t2 @ [f]\<rparr> else t2))"

section \<open>The render thread\<close>

text \<open>
  The first plane of a frame takes the front of the render queue, if any, and tells from it whether
  the stream goes on. Reading a null pointer's planes is undefined.
\<close>

definition texture_begin ::
  "('f frame \<Rightarrow> nat \<Rightarrow> 'd) \<Rightarrow> nat \<Rightarrow> bool \<Rightarrow> bool \<times> 'f tile_stream \<Rightarrow> ('d option \<times> bool \<times> 'f tile_stream) outcome" where
  "texture_begin plane_data planar format_ok = (\<lambda>(end_of_stream, t).
     and_then
       (if texture_state t = {}
        then assert_that (planar = 0) (assert_that (\<not> frame_held t)
               (let front = (case render_queue t of [] \<Rightarrow> None | f # fs \<Rightarrow> Some f);
                    (available, flag) = stream_available (Some front) end_of_stream
                in Inr (available, flag, t\<lparr>frame_held := front \<noteq> None\<rparr>)))
        else Inr (True, end_of_stream, t)) (\<lambda>(go_on, flag, t1).
     if \<not> go_on then Inr (None, flag, t1)
     else assert_that (frame_held t1)
       (let t2 = t1\<lparr>render_begin := render_begin t1 + 1\<rparr>
        in assert_that (planar \<notin> texture_state t2) (assert_that format_ok
             (let t3 = t2\<lparr>texture_state := insert planar (texture_state t2)\<rparr>
              in case render_queue t3 of
                   [] \<Rightarrow> Inl Undefined_behaviour
                 | f # fs \<Rightarrow> Inr (Some (plane_data f planar), flag, t3))))))"

definition texture_end :: "nat \<Rightarrow> 'f tile_stream \<Rightarrow> 'f tile_stream outcome" where
  "texture_end planar t =
     assert_that (frame_held t)
       (let t1 = t\<lparr>render_end := render_end t + 1\<rparr>
        in assert_that (render_end t1 \<le> render_begin t1) (assert_that (planar \<in> texture_state t1)
             (if texture_state t1 = {0, 1, 2}
              then (let t2 = t1\<lparr>render_finish := render_finish t1 + 1, texture_state := {}, frame_held := False,
                      render_queue := tl (render_queue t1)\<rparr>
                    in assert_that (planar = 2) (Inr t2))
              else Inr t1)))"

section \<open>The decoding thread\<close>

text \<open>
  Where the thread stands: waiting for the buffer it asked for, about to ask the segmentor for
  frames, writing the frames it got, writing the two entries of a finished stream, or done.
\<close>

datatype ('f, 'g) decoder =
    Awaiting
  | Consuming 'g
  | Writing "'f frame list" bool 'g \<comment> \<open>what is left, whether the list was empty\<close>
  | Closing "'f decode_frame list"
  | Ended

record ('b, 'f, 'g) decoder_lib =
  open_segmentor :: "'b \<Rightarrow> 'g outcome"
  segmentor_valid :: "'g \<Rightarrow> bool"
  segmentor_available :: "'g \<Rightarrow> bool"
  segmentor_consume :: "'g \<Rightarrow> ('f frame list outcome \<times> 'g) option" \<comment> \<open>None when it does not return\<close>
  large_frame :: "'f frame \<Rightarrow> bool"

text \<open>The catch clauses.\<close>

definition catch_in_stream :: "bool \<Rightarrow> fault \<Rightarrow> ('f, 'g) decoder outcome" where
  "catch_in_stream running e =
     (case e of
        Throw Bad_response_error \<Rightarrow> Inr (Closing [Frame None, Ending Bad_response_error])
      | Throw Aborted_error \<Rightarrow> assert_that (\<not> running) (Inr Ended)
      | Throw _ \<Rightarrow> Inl Assert_failed
      | _ \<Rightarrow> Inl e)"

text \<open>The buffer arrives; the next one is asked for before the segmentor is made.\<close>

definition on_buffer ::
  "('b, 'f, 'g) decoder_lib \<Rightarrow> bool \<Rightarrow> 'b outcome \<Rightarrow> nat \<Rightarrow> (('f, 'g) decoder \<times> nat) outcome" where
  "on_buffer lib running buffer requested =
     (case buffer of
        Inl e \<Rightarrow> and_then (catch_in_stream running e) (\<lambda>d. Inr (d, requested))
      | Inr b \<Rightarrow>
          (case open_segmentor lib b of
             Inl e \<Rightarrow> and_then (catch_in_stream running e) (\<lambda>d. Inr (d, requested + 1))
           | Inr g \<Rightarrow> assert_that (segmentor_valid lib g) (Inr (Consuming g, requested + 1))))"

text \<open>
  The bounded queue: a write that finds no room times out and is tried again while the stream runs. A
  call of the segmentor that does not return leaves the thread where it is.
\<close>

definition decoder_step ::
  "('b, 'f, 'g) decoder_lib \<Rightarrow> bool \<Rightarrow> bool \<Rightarrow> ('f, 'g) decoder \<Rightarrow> 'f tile_stream \<Rightarrow>
   (('f, 'g) decoder \<times> 'f tile_stream) outcome" where
  "decoder_step lib decode_enable running d t =
     (case d of
        Awaiting \<Rightarrow> Inr (Awaiting, t)
      | Consuming g \<Rightarrow>
          if segmentor_available lib g
          then (case segmentor_consume lib g of
                  None \<Rightarrow> Inr (Consuming g, t)
                | Some (Inl e, g1) \<Rightarrow> and_then (catch_in_stream running e) (\<lambda>d1. Inr (d1, t))
                | Some (Inr frames, g1) \<Rightarrow> Inr (Writing frames (frames = []) g1, t))
          else Inr (Awaiting, t)
      | Writing [] none g \<Rightarrow> Inr (if \<not> decode_enable \<and> none then Awaiting else Consuming g, t)
      | Writing (f # fs) none g \<Rightarrow>
          assert_that (decode_enable \<longrightarrow> large_frame lib f)
            (if \<not> running then and_then (catch_in_stream running (Throw Aborted_error)) (\<lambda>d1. Inr (d1, t))
             else if length (decode_queue t) < decode_capacity t
             then Inr (Writing fs none g,
                    t\<lparr>decode_queue := decode_queue t @ [Frame f], decode_count := decode_count t + 1\<rparr>)
             else Inr (Writing (f # fs) none g, t))
      | Closing [] \<Rightarrow> Inr (Ended, t)
      | Closing (q # qs) \<Rightarrow>
          if length (decode_queue t) < decode_capacity t
          then Inr (Closing qs, t\<lparr>decode_queue := decode_queue t @ [q]\<rparr>) else Inr (Closing (q # qs), t)
      | Ended \<Rightarrow> Inr (Ended, t))"

section \<open>The three threads together\<close>

text \<open>
  The tile with its threads. What is added to the code's state records the run: the frames the
  segmentors gave, all that was written into the bounded queue, the frames taken off the render queue
  and the planes given to the textures.
\<close>

record ('f, 'g, 'd) tile_run =
  tile :: "'f tile_stream"
  thread :: "('f, 'g) decoder"
  end_of_stream :: bool
  stream_running :: bool
  requested :: nat
  decoded_frames :: "'f frame list"
  written :: "'f decode_frame list"
  shown :: "'f frame list"
  textures :: "'d list"

datatype 'b tile_event =
    Buffer_ready "'b outcome" | Decoder | Poll | Begin_plane nat bool | End_plane nat | Stop_stream | Other_tile_ended

definition start_run :: "stream_options \<Rightarrow> ('f, 'g, 'd) tile_run" where
  "start_run options = \<lparr>tile = make_stream_context options, thread = Awaiting, end_of_stream = False,
     stream_running = True, requested = 1, decoded_frames = [], written = [], shown = [], textures = []\<rparr>"

definition new_frames :: "('b, 'f, 'g) decoder_lib \<Rightarrow> ('f, 'g) decoder \<Rightarrow> 'f frame list" where
  "new_frames lib d =
     (case d of
        Consuming g \<Rightarrow>
          if segmentor_available lib g
          then (case segmentor_consume lib g of Some (Inr frames, g1) \<Rightarrow> frames | _ \<Rightarrow> []) else []
      | _ \<Rightarrow> [])"

fun run_event ::
  "('b, 'f, 'g) decoder_lib \<Rightarrow> bool \<Rightarrow> ('f frame \<Rightarrow> nat \<Rightarrow> 'd) \<Rightarrow> 'b tile_event \<Rightarrow> ('f, 'g, 'd) tile_run \<Rightarrow>
   ('f, 'g, 'd) tile_run outcome option" where
  "run_event lib enable plane_data (Buffer_ready b) s =
     (if thread s = Awaiting
      then Some (and_then (on_buffer lib (stream_running s) b (requested s)) (\<lambda>(d, n).
             Inr (s\<lparr>thread := d, requested := n\<rparr>)))
      else None)"
| "run_event lib enable plane_data Decoder s =
     Some (and_then (decoder_step lib enable (stream_running s) (thread s) (tile s)) (\<lambda>(d, t).
       Inr (s\<lparr>thread := d, tile := t, decoded_frames := decoded_frames s @ new_frames lib (thread s),
              written := written s @ drop (length (decode_queue (tile s))) (decode_queue t)\<rparr>)))"
| "run_event lib enable plane_data Poll s =
     (let (answer, flag, t) = tile_poll_update enable (end_of_stream s, tile s)
      in Some (Inr (s\<lparr>end_of_stream := flag, tile := t\<rparr>)))"
| "run_event lib enable plane_data (Begin_plane planar format_ok) s =
     (if end_of_stream s then Some (Inr s)
      else Some (and_then (texture_begin plane_data planar format_ok (end_of_stream s, tile s)) (\<lambda>(data, flag, t).
             Inr (s\<lparr>end_of_stream := flag, tile := t,
                    textures := textures s @ (case data of None \<Rightarrow> [] | Some x \<Rightarrow> [x])\<rparr>))))"
| "run_event lib enable plane_data (End_plane planar) s =
     (if end_of_stream s then Some (Inr s)
      else Some (and_then (texture_end planar (tile s)) (\<lambda>t.
             Inr (s\<lparr>tile := t,
                    shown := shown s @ take (length (render_queue (tile s)) - length (render_queue t)) (render_queue (tile s))\<rparr>))))"
| "run_event lib enable plane_data Stop_stream s = Some (Inr (s\<lparr>stream_running := False\<rparr>))"
| "run_event lib enable plane_data Other_tile_ended s = Some (Inr (s\<lparr>end_of_stream := True\<rparr>))"

text \<open>
  How the render thread is driven: the planes of a frame in turn, each begun and ended, and a frame
  begun only when a poll has delivered one.
\<close>

fun scheduled :: "'b tile_event \<Rightarrow> ('f, 'g, 'd) tile_run \<Rightarrow> bool" where
  "scheduled (Begin_plane p format_ok) s \<longleftrightarrow> format_ok \<and> render_begin (tile s) = render_end (tile s) \<and>
     int p = render_begin (tile s) - 3 * render_finish (tile s) \<and> (p = 0 \<longrightarrow> render_queue (tile s) \<noteq> [])"
| "scheduled (End_plane p) s \<longleftrightarrow> render_begin (tile s) = render_end (tile s) + 1 \<and>
     int p = render_end (tile s) - 3 * render_finish (tile s)"
| "scheduled _ s \<longleftrightarrow> True"

inductive run_step ::
  "('b, 'f, 'g) decoder_lib \<Rightarrow> ('f frame \<Rightarrow> nat \<Rightarrow> 'd) \<Rightarrow> ('f, 'g, 'd) tile_run \<Rightarrow> ('f, 'g, 'd) tile_run \<Rightarrow> bool"
  for lib plane_data where
  run_event: "scheduled ev s \<Longrightarrow> run_event lib True plane_data ev s = Some (Inr t) \<Longrightarrow> run_step lib plane_data s t"

fun frames_of :: "'f decode_frame list \<Rightarrow> 'f frame list" where
  "frames_of [] = []"
| "frames_of (Frame f # qs) = f # frames_of qs"
| "frames_of (Ending e # qs) = frames_of qs"

lemma frames_of_append [simp]: "frames_of (xs @ ys) = frames_of xs @ frames_of ys"
  by (induction xs rule: frames_of.induct) auto

lemma frames_of_Frame [simp]: "frames_of (map Frame fs) = fs"
  by (induction fs) auto

definition final_entries :: "'f decode_frame list" where
  "final_entries = [Frame None, Ending Bad_response_error]"

text \<open>What the decoding thread still has to write.\<close>

fun thread_ok :: "('f, 'g) decoder \<Rightarrow> 'f frame list \<Rightarrow> 'f decode_frame list \<Rightarrow> bool" where
  "thread_ok Awaiting fs ws \<longleftrightarrow> ws = map Frame fs"
| "thread_ok (Consuming g) fs ws \<longleftrightarrow> ws = map Frame fs"
| "thread_ok (Writing rest none g) fs ws \<longleftrightarrow> ws @ map Frame rest = map Frame fs"
| "thread_ok (Closing rest) fs ws \<longleftrightarrow> ws @ rest = map Frame fs @ final_entries"
| "thread_ok Ended fs ws \<longleftrightarrow> (\<exists>rest. ws @ rest = map Frame fs @ final_entries)"

definition decoder_ok :: "('f, 'g, 'd) tile_run \<Rightarrow> bool" where
  "decoder_ok s \<longleftrightarrow> thread_ok (thread s) (decoded_frames s) (written s) \<and>
     length (decode_queue (tile s)) \<le> decode_capacity (tile s)"

definition queues_ok :: "('f, 'g, 'd) tile_run \<Rightarrow> bool" where
  "queues_ok s \<longleftrightarrow> frames_of (written s) = shown s @ render_queue (tile s) @ frames_of (decode_queue (tile s)) \<and>
     int (length (written s)) = decode_success (tile s) + int (length (decode_queue (tile s))) \<and>
     decode_success (tile s) \<le> decode_try (tile s)"

definition planes_ok :: "('f frame \<Rightarrow> nat \<Rightarrow> 'd) \<Rightarrow> ('f, 'g, 'd) tile_run \<Rightarrow> bool" where
  "planes_ok plane_data s \<longleftrightarrow> (\<exists>k\<le>3. texture_state (tile s) = {..<k} \<and>
     (0 < k \<longrightarrow> frame_held (tile s)) \<and> (\<not> end_of_stream s \<longrightarrow> k = 0 \<longrightarrow> \<not> frame_held (tile s)) \<and>
     (frame_held (tile s) \<longrightarrow> render_queue (tile s) \<noteq> []) \<and>
     render_finish (tile s) = int (length (shown s)) \<and>
     render_begin (tile s) = 3 * render_finish (tile s) + int k \<and>
     render_end (tile s) \<le> render_begin (tile s) \<and> render_begin (tile s) \<le> render_end (tile s) + 1 \<and>
     (k = 0 \<longrightarrow> render_end (tile s) = render_begin (tile s)) \<and> (k = 3 \<longrightarrow> render_end (tile s) < render_begin (tile s)) \<and>
     textures s = concat (map (\<lambda>f. map (plane_data f) [0, 1, 2]) (shown s)) @
       map (plane_data (hd (render_queue (tile s)))) [0..<k])"

lemma catch_Inr:
  "catch_in_stream running e = Inr d \<Longrightarrow> d = Closing final_entries \<or> d = Ended"
  by (auto simp: catch_in_stream_def final_entries_def outcome_simps split: fault.splits exn.splits)

lemma thread_ok_catch:
  assumes "catch_in_stream running e = Inr d" and "ws @ map Frame rest = map Frame fs"
  shows "rest = [] \<Longrightarrow> thread_ok d fs ws" and "d = Ended \<Longrightarrow> thread_ok d fs ws"
proof -
  have "ws @ map Frame rest @ final_entries = map Frame fs @ final_entries"
    using assms(2) by (simp add: append_assoc [symmetric])
  then show "rest = [] \<Longrightarrow> thread_ok d fs ws" "d = Ended \<Longrightarrow> thread_ok d fs ws"
    using catch_Inr [OF assms(1)] by (auto intro!: exI [of _ "map Frame rest @ final_entries"])
qed

lemma catch_aborted: "catch_in_stream running (Throw Aborted_error) = Inr d \<Longrightarrow> d = Ended"
  by (simp add: catch_in_stream_def outcome_simps)

text \<open>
  A step of the decoding thread writes at most one entry, only into a queue with room, and keeps the
  account of what is left to write.
\<close>

lemma decoder_step_ok:
  assumes step: "decoder_step lib enable running d t = Inr (d', t')" and ok: "thread_ok d fs ws"
  shows "\<exists>qs n. t' = t\<lparr>decode_queue := decode_queue t @ qs, decode_count := n\<rparr> \<and>
    (qs = [] \<or> length (decode_queue t @ qs) \<le> decode_capacity t) \<and> thread_ok d' (fs @ new_frames lib d) (ws @ qs)"
proof (cases d)
  case (Consuming g)
  show ?thesis
  proof (cases "segmentor_available lib g")
    case True
    consider "segmentor_consume lib g = None" | e g1 where "segmentor_consume lib g = Some (Inl e, g1)"
      | frames g1 where "segmentor_consume lib g = Some (Inr frames, g1)"
      by (cases "segmentor_consume lib g") (force split: sum.splits, metis prod.exhaust sum.exhaust)
    then show ?thesis
    proof cases
      case 1
      with step True Consuming ok show ?thesis
        by (intro exI [of _ "[]"] exI [of _ "decode_count t"]) (auto simp: decoder_step_def new_frames_def)
    next
      case r: (2 e g1)
      with step True Consuming have "catch_in_stream running e = Inr d'" "t' = t"
        by (auto simp: decoder_step_def outcome_simps)
      with thread_ok_catch(1) [of running e d' ws "[]" fs] ok True r Consuming show ?thesis
        by (intro exI [of _ "[]"] exI [of _ "decode_count t"]) (simp add: new_frames_def)
    next
      case (3 frames g1)
      with step True Consuming ok show ?thesis
        by (intro exI [of _ "[]"] exI [of _ "decode_count t"]) (auto simp: decoder_step_def new_frames_def)
    qed
  next
    case False
    with step Consuming ok show ?thesis
      by (intro exI [of _ "[]"] exI [of _ "decode_count t"]) (simp add: decoder_step_def new_frames_def)
  qed
next
  case (Writing rest none g)
  show ?thesis
  proof (cases rest)
    case Nil
    with step Writing ok show ?thesis
      by (intro exI [of _ "[]"] exI [of _ "decode_count t"])
        (auto simp: decoder_step_def new_frames_def split: if_splits)
  next
    case (Cons f rest')
    consider "\<not> running" | "running" "length (decode_queue t) < decode_capacity t"
      | "running" "\<not> length (decode_queue t) < decode_capacity t" by blast
    then show ?thesis
    proof cases
      case 1
      with step Writing Cons have caught: "catch_in_stream running (Throw Aborted_error) = Inr d'" and "t' = t"
        by (auto simp: decoder_step_def outcome_simps)
      moreover have "thread_ok d' fs ws"
        using ok Writing by (intro thread_ok_catch(2) [OF caught _ catch_aborted [OF caught], of _ rest]) simp
      ultimately show ?thesis
        using Writing by (intro exI [of _ "[]"] exI [of _ "decode_count t"]) (simp add: new_frames_def)
    next
      case 2
      with step Writing Cons ok show ?thesis
        by (intro exI [of _ "[Frame f]"] exI [of _ "decode_count t + 1"])
          (auto simp: decoder_step_def new_frames_def outcome_simps)
    next
      case 3
      with step Writing Cons ok show ?thesis
        by (intro exI [of _ "[]"] exI [of _ "decode_count t"])
          (auto simp: decoder_step_def new_frames_def outcome_simps)
    qed
  qed
next
  case (Closing rest)
  show ?thesis
  proof (cases rest)
    case Nil
    with step Closing ok show ?thesis
      by (intro exI [of _ "[]"] exI [of _ "decode_count t"]) (auto simp: decoder_step_def new_frames_def)
  next
    case (Cons q rest')
    with step Closing ok show ?thesis
      by (cases "length (decode_queue t) < decode_capacity t")
        (intro exI [of _ "if length (decode_queue t) < decode_capacity t then [q] else []"] exI [of _ "decode_count t"];
         auto simp: decoder_step_def new_frames_def)+
  qed
qed (use step ok in \<open>intro exI [of _ "[]"] exI [of _ "decode_count t"], simp add: decoder_step_def new_frames_def\<close>)+

lemma on_buffer_ok:
  assumes "on_buffer lib running b n = Inr (d, m)"
  shows "thread_ok d fs (map Frame fs)"
proof -
  from assms consider e where "catch_in_stream running e = Inr d" | g where "d = Consuming g"
    by (auto simp: on_buffer_def outcome_simps split: sum.splits)
  then show ?thesis
  proof cases
    case (1 e)
    from thread_ok_catch(1) [OF this, of "map Frame fs" "[]" fs] show ?thesis by simp
  qed simp
qed

lemma decoder_ok_event:
  assumes "run_event lib True plane_data ev s = Some (Inr t)" and "decoder_ok s"
  shows "decoder_ok t"
proof (cases ev)
  case (Buffer_ready b)
  with assms on_buffer_ok show ?thesis
    by (auto simp: decoder_ok_def outcome_simps split: if_splits)
next
  case Decoder
  then obtain d' t' where step: "decoder_step lib True (stream_running s) (thread s) (tile s) = Inr (d', t')"
    and t: "t = s\<lparr>thread := d', tile := t', decoded_frames := decoded_frames s @ new_frames lib (thread s),
      written := written s @ drop (length (decode_queue (tile s))) (decode_queue t')\<rparr>"
    using assms(1) by (auto simp: outcome_simps)
  from decoder_step_ok [OF step, of "decoded_frames s" "written s"] assms(2) show ?thesis
    by (auto simp: decoder_ok_def t)
qed (use assms in \<open>auto simp: decoder_ok_def tile_poll_update_def texture_begin_def texture_end_def outcome_simps Let_def
      split: list.splits decode_frame.splits if_splits prod.splits\<close>)

lemma poll_Inr:
  assumes "tile_poll_update enable (flag, t) = (answer, flag', t')"
  obtains "decode_queue t = []" "t' = t\<lparr>decode_try := decode_try t + 1\<rparr>" "flag' = flag" "\<not> answer"
  | e q where "decode_queue t = Ending e # q" "flag'" "answer"
      "t' = t\<lparr>decode_queue := q, decode_try := decode_try t + 1, decode_success := decode_success t + 1\<rparr>"
  | f q where "decode_queue t = Frame f # q" "flag' = flag" "answer"
      "t' = t\<lparr>decode_queue := q, decode_try := decode_try t + 1, decode_success := decode_success t + 1,
        render_queue := render_queue t @ (if enable then [f] else [])\<rparr>"
  using assms
  by (auto simp: tile_poll_update_def Let_def stream_available_def frame_empty_def split: list.splits decode_frame.splits)

lemma texture_begin_Inr:
  assumes "texture_begin plane_data p format_ok (False, t) = Inr (data, flag, t')"
  obtains f fs where "texture_state t = {}" "p = 0" "\<not> frame_held t" "render_queue t = f # fs" "frame_empty f"
      "t' = t\<lparr>frame_held := True\<rparr>" "flag" "data = None"
  | f fs where "texture_state t = {}" "p = 0" "\<not> frame_held t" "render_queue t = f # fs" "\<not> frame_empty f" "\<not> flag"
      "t' = t\<lparr>frame_held := True, render_begin := render_begin t + 1, texture_state := {0}\<rparr>"
      "data = Some (plane_data f 0)" "format_ok"
  | f fs where "texture_state t \<noteq> {}" "p \<notin> texture_state t" "frame_held t" "render_queue t = f # fs" "\<not> flag"
      "t' = t\<lparr>render_begin := render_begin t + 1, texture_state := insert p (texture_state t)\<rparr>"
      "data = Some (plane_data f p)" "format_ok"
proof (cases "texture_state t = {}")
  case True
  with assms obtain f fs where rq: "render_queue t = f # fs"
    by (cases "render_queue t") (auto simp: texture_begin_def Let_def stream_available_def outcome_simps)
  show ?thesis
  proof (cases "frame_empty f")
    case True
    with \<open>texture_state t = {}\<close> rq assms that(1) show ?thesis
      by (auto simp: texture_begin_def Let_def stream_available_def outcome_simps)
  next
    case False
    with \<open>texture_state t = {}\<close> rq assms that(2) show ?thesis
      by (auto simp: texture_begin_def Let_def stream_available_def outcome_simps)
  qed
next
  case False
  with assms that(3) show ?thesis
    by (auto simp: texture_begin_def Let_def outcome_simps split: list.splits)
qed

lemma texture_end_Inr:
  assumes "texture_end p t = Inr t'"
  obtains "texture_state t = {0, 1, 2}" "p = 2" "frame_held t" "render_end t + 1 \<le> render_begin t"
      "t' = t\<lparr>render_end := render_end t + 1, render_finish := render_finish t + 1, texture_state := {},
        frame_held := False, render_queue := tl (render_queue t)\<rparr>"
  | "texture_state t \<noteq> {0, 1, 2}" "p \<in> texture_state t" "frame_held t" "render_end t + 1 \<le> render_begin t"
      "t' = t\<lparr>render_end := render_end t + 1\<rparr>"
  using assms by (auto simp: texture_end_def Let_def outcome_simps split: if_splits)

lemma decoder_event:
  assumes "run_event lib True plane_data Decoder s = Some (Inr t)" and "decoder_ok s"
  obtains d qs n fs where "t = s\<lparr>thread := d, tile := (tile s)\<lparr>decode_queue := decode_queue (tile s) @ qs, decode_count := n\<rparr>,
    decoded_frames := fs, written := written s @ qs\<rparr>"
proof -
  from assms(1) obtain d t' where step: "decoder_step lib True (stream_running s) (thread s) (tile s) = Inr (d, t')"
    and t: "t = s\<lparr>thread := d, tile := t', decoded_frames := decoded_frames s @ new_frames lib (thread s),
      written := written s @ drop (length (decode_queue (tile s))) (decode_queue t')\<rparr>"
    by (auto simp: outcome_simps)
  from decoder_step_ok [OF step, of "decoded_frames s" "written s"] assms(2)
  obtain qs n where "t' = (tile s)\<lparr>decode_queue := decode_queue (tile s) @ qs, decode_count := n\<rparr>"
    by (auto simp: decoder_ok_def)
  with t show thesis using that by simp
qed

lemma front_taken [simp]:
  "take (length q - (length q - Suc 0)) q @ tl q = q"
  "take (length q - (length q - Suc 0)) q @ tl q @ r = q @ r"
  by (cases q; simp)+

lemma queues_ok_event:
  assumes "run_event lib True plane_data ev s = Some (Inr t)" and "decoder_ok s" and "queues_ok s"
  shows "queues_ok t"
proof (cases ev)
  case Decoder
  with assms(1) have "run_event lib True plane_data Decoder s = Some (Inr t)" by simp
  then show ?thesis
    using assms(2,3) by (rule_tac decoder_event) (auto simp: queues_ok_def)
next
  case Poll
  obtain answer flag t' where polled: "tile_poll_update True (end_of_stream s, tile s) = (answer, flag, t')"
    by (cases "tile_poll_update True (end_of_stream s, tile s)")
  with Poll assms(1) have t: "t = s\<lparr>end_of_stream := flag, tile := t'\<rparr>" by (simp add: Let_def)
  from polled assms(3) show ?thesis
    by (cases rule: poll_Inr) (auto simp: t queues_ok_def)
next
  case (Begin_plane p format_ok)
  show ?thesis
  proof (cases "end_of_stream s")
    case False
    with Begin_plane assms(1) obtain data flag t' where
      begun: "texture_begin plane_data p format_ok (False, tile s) = Inr (data, flag, t')"
      and t: "t = s\<lparr>end_of_stream := flag, tile := t', textures := textures s @ (case data of None \<Rightarrow> [] | Some x \<Rightarrow> [x])\<rparr>"
      by (auto simp: outcome_simps)
    from begun assms(3) show ?thesis
      by (cases rule: texture_begin_Inr) (simp_all add: t queues_ok_def)
  qed (use assms Begin_plane in simp)
next
  case (End_plane p)
  show ?thesis
  proof (cases "end_of_stream s")
    case False
    with End_plane assms(1) obtain t' where ended: "texture_end p (tile s) = Inr t'"
      and t: "t = s\<lparr>tile := t', shown := shown s @
        take (length (render_queue (tile s)) - length (render_queue t')) (render_queue (tile s))\<rparr>"
      by (auto simp: outcome_simps)
    from ended assms(3) show ?thesis
      by (cases rule: texture_end_Inr) (simp_all add: t queues_ok_def)
  qed (use assms End_plane in simp)
qed (use assms in \<open>auto simp: queues_ok_def outcome_simps split: if_splits\<close>)

lemma planes_okI:
  assumes "k \<le> 3" "texture_state (tile s) = {..<k}" "0 < k \<Longrightarrow> frame_held (tile s)"
    "\<not> end_of_stream s \<Longrightarrow> k = 0 \<Longrightarrow> \<not> frame_held (tile s)"
    "frame_held (tile s) \<Longrightarrow> render_queue (tile s) \<noteq> []"
    "render_finish (tile s) = int (length (shown s))"
    "render_begin (tile s) = 3 * render_finish (tile s) + int k"
    "render_end (tile s) \<le> render_begin (tile s)" "render_begin (tile s) \<le> render_end (tile s) + 1"
    "k = 0 \<Longrightarrow> render_end (tile s) = render_begin (tile s)" "k = 3 \<Longrightarrow> render_end (tile s) < render_begin (tile s)"
    "textures s = concat (map (\<lambda>f. map (plane_data f) [0, 1, 2]) (shown s)) @
       map (plane_data (hd (render_queue (tile s)))) [0..<k]"
  shows "planes_ok plane_data s"
  unfolding planes_ok_def using assms by blast

lemma planes_okE:
  assumes "planes_ok plane_data s"
  obtains k where "k \<le> 3" "texture_state (tile s) = {..<k}" "0 < k \<Longrightarrow> frame_held (tile s)"
    "\<not> end_of_stream s \<Longrightarrow> k = 0 \<Longrightarrow> \<not> frame_held (tile s)"
    "frame_held (tile s) \<Longrightarrow> render_queue (tile s) \<noteq> []"
    "render_finish (tile s) = int (length (shown s))"
    "render_begin (tile s) = 3 * render_finish (tile s) + int k"
    "render_end (tile s) \<le> render_begin (tile s)" "render_begin (tile s) \<le> render_end (tile s) + 1"
    "k = 0 \<Longrightarrow> render_end (tile s) = render_begin (tile s)" "k = 3 \<Longrightarrow> render_end (tile s) < render_begin (tile s)"
    "textures s = concat (map (\<lambda>f. map (plane_data f) [0, 1, 2]) (shown s)) @
       map (plane_data (hd (render_queue (tile s)))) [0..<k]"
  using assms unfolding planes_ok_def by blast

lemma three_planes: "{..<k} = {0, 1, 2} \<longleftrightarrow> k = (3::nat)"
proof
  assume "{..<k} = {0, 1, 2}"
  then have "card {..<k} = card {0, 1, 2::nat}" by simp
  then show "k = 3" by simp
qed auto

lemma planes_ok_begin:
  assumes "planes_ok plane_data s" and "scheduled (Begin_plane p format_ok) s" and "\<not> end_of_stream s"
    and "texture_begin plane_data p format_ok (False, tile s) = Inr (data, flag, t')"
  shows "planes_ok plane_data (s\<lparr>end_of_stream := flag, tile := t',
    textures := textures s @ (case data of None \<Rightarrow> [] | Some x \<Rightarrow> [x])\<rparr>)"
  using assms(1)
proof (cases rule: planes_okE)
  case k: (1 k)
  have p: "p = k" using assms(2) k(7) by simp
  from assms(4) show ?thesis
  proof (cases rule: texture_begin_Inr)
    case (1 f fs)
    from 1(1) k(2) have "k = 0" by (cases k) auto
    with 1 k show ?thesis by (intro planes_okI [of 0]) simp_all
  next
    case (2 f fs)
    with k p have "k = 0" by simp
    with 2 k assms(2) show ?thesis by (intro planes_okI [of 1]) (auto simp: lessThan_Suc)
  next
    case (3 f fs)
    from 3(1) k(2) have "0 < k" by (cases k) auto
    moreover have "k < 3"
      using k(1,8,9,11) assms(2) by (cases "k = 3") auto
    ultimately show ?thesis
      using 3 k p assms(2) by (intro planes_okI [of "Suc k"]) (auto simp: lessThan_Suc)
  qed
qed

lemma planes_ok_end:
  assumes "planes_ok plane_data s" and "scheduled (End_plane p :: 'b tile_event) s" and "\<not> end_of_stream s"
    and "texture_end p (tile s) = Inr t'"
  shows "planes_ok plane_data (s\<lparr>tile := t', shown := shown s @
    take (length (render_queue (tile s)) - length (render_queue t')) (render_queue (tile s))\<rparr>)"
  using assms(1)
proof (cases rule: planes_okE)
  case k: (1 k)
  from assms(4) show ?thesis
  proof (cases rule: texture_end_Inr)
    case 1
    have "k = 3" using 1(1) k(2) three_planes by simp
    moreover obtain f fs where "render_queue (tile s) = f # fs"
      using k(5) 1(3) by (cases "render_queue (tile s)") auto
    moreover have "[0..<3] = [0, 1, 2::nat]" by (simp add: upt_rec)
    ultimately show ?thesis
      using 1 k assms(2) by (intro planes_okI [of 0]) simp_all
  next
    case 2
    have "k \<noteq> 3" "k \<noteq> 0" using 2(1,2) k(2) three_planes [of k] by auto
    with 2 k assms(2) show ?thesis by (intro planes_okI [of k]) simp_all
  qed
qed

lemma planes_ok_event:
  assumes "scheduled ev s" and "run_event lib True plane_data ev s = Some (Inr t)" and "decoder_ok s" and "planes_ok plane_data s"
  shows "planes_ok plane_data t"
proof (cases ev)
  case (Buffer_ready b)
  with assms(2,4) show ?thesis by (auto simp: planes_ok_def outcome_simps split: if_splits)
next
  case Decoder
  with assms(2) have "run_event lib True plane_data Decoder s = Some (Inr t)" by simp
  then show ?thesis
    using assms(3,4) by (rule_tac decoder_event) (auto simp: planes_ok_def)
next
  case Poll
  obtain answer flag t' where polled: "tile_poll_update True (end_of_stream s, tile s) = (answer, flag, t')"
    by (cases "tile_poll_update True (end_of_stream s, tile s)")
  with Poll assms(2) have t: "t = s\<lparr>end_of_stream := flag, tile := t'\<rparr>" by (simp add: Let_def)
  from assms(4) show ?thesis
  proof (cases rule: planes_okE)
    case k: (1 k)
    have hd: "map (plane_data (hd (render_queue (tile s) @ q))) [0..<k] = map (plane_data (hd (render_queue (tile s)))) [0..<k]" for q
      using k(3,5) by (cases "k = 0") simp_all
    from polled show ?thesis
    proof (cases rule: poll_Inr)
      case 1
      with k show ?thesis unfolding t by (intro planes_okI [of k]) simp_all
    next
      case (2 e q)
      with k show ?thesis unfolding t by (intro planes_okI [of k]) simp_all
    next
      case (3 f q)
      with k hd [of "[f]"] show ?thesis unfolding t by (intro planes_okI [of k]) simp_all
    qed
  qed
next
  case (Begin_plane p format_ok)
  then show ?thesis
    using assms planes_ok_begin [of plane_data s p format_ok] by (cases "end_of_stream s") (auto simp: outcome_simps)
next
  case (End_plane p)
  then show ?thesis
    using assms planes_ok_end [of plane_data s p] by (cases "end_of_stream s") (auto simp: outcome_simps)
qed (use assms in \<open>auto simp: planes_ok_def\<close>)

section \<open>A run in steps\<close>

fun run_tile_events ::
  "('b, 'f, 'g) decoder_lib \<Rightarrow> ('f frame \<Rightarrow> nat \<Rightarrow> 'd) \<Rightarrow> 'b tile_event list \<Rightarrow> ('f, 'g, 'd) tile_run \<Rightarrow>
   ('f, 'g, 'd) tile_run option" where
  "run_tile_events lib plane_data [] s = Some s"
| "run_tile_events lib plane_data (ev # evs) s =
     (if scheduled ev s
      then (case run_event lib True plane_data ev s of Some (Inr t) \<Rightarrow> run_tile_events lib plane_data evs t | _ \<Rightarrow> None)
      else None)"

lemma run_tile_events_steps:
  "run_tile_events lib plane_data evs s = Some t \<Longrightarrow> (run_step lib plane_data)\<^sup>*\<^sup>* s t"
proof (induction evs arbitrary: s)
  case (Cons ev evs)
  then obtain u where "scheduled ev s" "run_event lib True plane_data ev s = Some (Inr u)"
    "run_tile_events lib plane_data evs u = Some t"
    by (auto split: if_splits option.splits sum.splits)
  then show ?case
    using Cons.IH by (meson converse_rtranclp_into_rtranclp run_step.run_event)
qed simp

text \<open>Two frames in one buffer, then a bad response; the first frame is shown in part.\<close>

definition sample_decoder :: "(nat list, nat, nat list) decoder_lib" where
  "sample_decoder = \<lparr>open_segmentor = Inr, segmentor_valid = (\<lambda>g. True), segmentor_available = (\<lambda>g. g \<noteq> []),
     segmentor_consume = (\<lambda>g. Some (Inr (map (\<lambda>f. Some (Some f)) (take 1 g)), drop 1 g)), large_frame = (\<lambda>f. True)\<rparr>"

definition sample_plane :: "nat frame \<Rightarrow> nat \<Rightarrow> nat \<times> nat" where
  "sample_plane f p = (case f of Some (Some n) \<Rightarrow> (n, p) | _ \<Rightarrow> (0, p))"

definition sample_tile_events :: "nat list tile_event list" where
  "sample_tile_events = [Buffer_ready (Inr [7, 8]), Decoder, Decoder, Poll, Decoder, Decoder, Decoder, Poll, Begin_plane 0 True,
     End_plane 0, Begin_plane 1 True, End_plane 1, Begin_plane 2 True, End_plane 2, Decoder, Decoder,
     Buffer_ready (Inl (Throw Bad_response_error)), Decoder, Begin_plane 0 True]"

lemma sample_tile_run:
  "case run_tile_events sample_decoder sample_plane sample_tile_events (start_run default_options) of None \<Rightarrow> False | Some s \<Rightarrow>
     shown s = [Some (Some 7)] \<and> textures s = [(7, 0), (7, 1), (7, 2), (8, 0)] \<and> thread s = Closing [Ending Bad_response_error]"
  by code_simp

section \<open>Properties of every run\<close>

definition run_ok :: "('f frame \<Rightarrow> nat \<Rightarrow> 'd) \<Rightarrow> ('f, 'g, 'd) tile_run \<Rightarrow> bool" where
  "run_ok plane_data s \<longleftrightarrow> decoder_ok s \<and> queues_ok s \<and> planes_ok plane_data s"

lemma run_ok_start: "run_ok plane_data (start_run options)"
  by (auto simp: run_ok_def decoder_ok_def queues_ok_def start_run_def make_stream_context_def intro!: planes_okI [of 0])

lemma run_ok_step: "run_step lib plane_data s t \<Longrightarrow> run_ok plane_data s \<Longrightarrow> run_ok plane_data t"
  by (induction rule: run_step.induct)
    (auto simp: run_ok_def intro: decoder_ok_event queues_ok_event planes_ok_event)

lemma run_ok_reachable:
  "(run_step lib plane_data)\<^sup>*\<^sup>* (start_run options) s \<Longrightarrow> run_ok plane_data s"
  by (induction rule: rtranclp_induct) (auto intro: run_ok_start run_ok_step)

lemma thread_ok_prefix: "thread_ok d fs ws \<Longrightarrow> \<exists>rest. ws @ rest = map Frame fs @ final_entries"
proof (cases d)
  case (Writing rest none g)
  moreover assume "thread_ok d fs ws"
  ultimately have "ws @ map Frame rest @ final_entries = map Frame fs @ final_entries"
    by (simp add: append_assoc [symmetric])
  then show ?thesis by blast
qed auto

text \<open>
  Claim C23. In every interleaving of the decoding thread, the polls and the texture events, the frames
  written are a prefix of what the segmentors gave, in order, followed by the null frame and the
  exception; the frames shown, those waiting to be shown and those waiting to be polled are exactly
  the frames written, in that order; the textures got the three planes of each shown frame and then
  the planes begun of the next one; and the bounded queue never holds more than its capacity.
\<close>

theorem tile_frames_in_order:
  assumes "(run_step lib plane_data)\<^sup>*\<^sup>* (start_run options) s"
  shows "(\<exists>rest. written s @ rest = map Frame (decoded_frames s) @ final_entries) \<and>
    frames_of (written s) = shown s @ render_queue (tile s) @ frames_of (decode_queue (tile s)) \<and>
    (\<exists>k\<le>3. texture_state (tile s) = {..<k} \<and> render_begin (tile s) = 3 * int (length (shown s)) + int k \<and>
      textures s = concat (map (\<lambda>f. map (plane_data f) [0, 1, 2]) (shown s)) @
        map (plane_data (hd (render_queue (tile s)))) [0..<k]) \<and>
    length (decode_queue (tile s)) \<le> decode_capacity (tile s)"
proof -
  note ok = run_ok_reachable [OF assms]
  from ok obtain k where "k \<le> 3" "texture_state (tile s) = {..<k}"
    "render_begin (tile s) = 3 * int (length (shown s)) + int k"
    "textures s = concat (map (\<lambda>f. map (plane_data f) [0, 1, 2]) (shown s)) @
        map (plane_data (hd (render_queue (tile s)))) [0..<k]"
    unfolding run_ok_def planes_ok_def by auto
  moreover have "\<exists>rest. written s @ rest = map Frame (decoded_frames s) @ final_entries"
    using ok thread_ok_prefix unfolding run_ok_def decoder_ok_def by blast
  ultimately show ?thesis
    using ok unfolding run_ok_def decoder_ok_def queues_ok_def by blast
qed

theorem tile_frames_in_order_witness:
  "\<exists>s::(nat, nat list, nat \<times> nat) tile_run. shown s = [Some (Some 7)] \<and>
     frames_of (written s) = Some (Some 7) # render_queue (tile s) @ frames_of (decode_queue (tile s))"
proof -
  obtain s where s: "run_tile_events sample_decoder sample_plane sample_tile_events (start_run default_options) = Some s"
    "shown s = [Some (Some 7)]" using sample_tile_run by (auto split: option.splits)
  from tile_frames_in_order [OF run_tile_events_steps [OF s(1)]] s(2) show ?thesis by auto
qed

lemma begin_no_fault:
  assumes "planes_ok plane_data s" and "scheduled (Begin_plane p format_ok :: 'b tile_event) s" and "\<not> end_of_stream s"
  shows "\<exists>r. texture_begin plane_data p format_ok (False, tile s) = Inr r"
  using assms(1)
proof (cases rule: planes_okE)
  case k: (1 k)
  have p: "p = k" and format_ok: "format_ok" using assms(2) k(7) by simp_all
  show ?thesis
  proof (cases "k = 0")
    case True
    with assms(2,3) k p format_ok obtain f fs where "render_queue (tile s) = f # fs" "\<not> frame_held (tile s)"
      by (cases "render_queue (tile s)") auto
    with True k p format_ok show ?thesis
      by (cases "frame_empty f") (auto simp: texture_begin_def stream_available_def Let_def)
  next
    case False
    with k obtain f fs where "render_queue (tile s) = f # fs" "frame_held (tile s)"
      by (cases "render_queue (tile s)") auto
    with False k p format_ok show ?thesis
      by (auto simp: texture_begin_def Let_def)
  qed
qed

lemma end_no_fault:
  assumes "planes_ok plane_data s" and "scheduled (End_plane p :: 'b tile_event) s"
  shows "\<exists>t. texture_end p (tile s) = Inr t"
  using assms(1)
proof (cases rule: planes_okE)
  case k: (1 k)
  have "k = Suc p" using assms(2) k(7) by simp
  with k assms(2) show ?thesis
    by (auto simp: texture_end_def Let_def three_planes)
qed

lemma decoder_fault:
  assumes "decoder_step lib enable running d t = Inl e"
  shows "(\<exists>g g1 x. d = Consuming g \<and> segmentor_consume lib g = Some (Inl x, g1) \<and> x \<noteq> Throw Bad_response_error) \<or>
    (\<exists>f fs none g. d = Writing (f # fs) none g \<and> enable \<and> \<not> large_frame lib f)"
  using assms
  by (auto simp: decoder_step_def catch_in_stream_def assert_that_def
      split: decoder.splits list.splits if_splits sum.splits option.splits prod.splits fault.splits exn.splits)


definition strict_decoder :: "(nat list, nat, nat list) decoder_lib" where
  "strict_decoder = sample_decoder\<lparr>large_frame := (\<lambda>f. False)\<rparr>"


end
