(* ===== verification/Player_Config.thy ===== *)
theory Player_Config
  imports Core_Files Documents
begin

text \<open>
  The configuration of the player: \<^verbatim>\<open>src/gallery/plugin.config.h\<close> and the loading functions of
  \<^verbatim>\<open>src/gallery/plugin.cpp\<close>. The JSON library, the environment, the clock and the URL parser are
  parameters.
\<close>

section \<open>A value with an alternate\<close>

record 'v alternate =
  main_value :: 'v
  alternate_value :: "'v option"

definition make_alternate :: "'v \<Rightarrow> 'v alternate" where
  "make_alternate v = \<lparr>main_value = v, alternate_value = None\<rparr>"

text \<open>Assigning \<^verbatim>\<open>nullptr\<close> or \<^verbatim>\<open>nullopt\<close> removes the alternate.\<close>

definition assign_alternate :: "'v option \<Rightarrow> 'v alternate \<Rightarrow> 'v alternate" where
  "assign_alternate v a = a\<lparr>alternate_value := v\<rparr>"

definition read_alternate :: "'v alternate \<Rightarrow> 'v" where
  "read_alternate a = (case alternate_value a of None \<Rightarrow> main_value a | Some v \<Rightarrow> v)"

lemma read_alternate_assign [simp]:
  "read_alternate (assign_alternate (Some v) a) = v"
  "read_alternate (assign_alternate None a) = main_value a"
  "read_alternate (make_alternate v) = v"
  by (simp_all add: read_alternate_def assign_alternate_def make_alternate_def)

section \<open>The configuration\<close>

record ('u, 'j, 'r) config =
  mpd_uri :: "'u option"
  workset_directory :: path
  document_path :: path
  document :: 'j
  trace_directory :: path
  trace_prefix :: string
  trace_enable :: bool
  predict_degrade_factor :: 'r
  decode_capacity_of :: nat
  decode_enable :: bool
  network_concurrency :: "nat alternate"
  executor_concurrency :: "nat alternate"
  decoder_concurrency :: "nat alternate"

definition default_config :: "nat \<Rightarrow> 'j \<Rightarrow> 'r \<Rightarrow> ('u, 'j, 'r) config" where
  "default_config hardware_concurrency null one = \<lparr>mpd_uri = None, workset_directory = [], document_path = [],
     document = null, trace_directory = [], trace_prefix = [], trace_enable = False, predict_degrade_factor = one,
     decode_capacity_of = 30, decode_enable = True, network_concurrency = make_alternate hardware_concurrency,
     executor_concurrency = make_alternate hardware_concurrency, decoder_concurrency = make_alternate 2\<rparr>"

text \<open>What is used of the JSON library and of the URL parser; each can throw.\<close>

record ('u, 'j, 'r) config_lib =
  json_at :: "string \<Rightarrow> 'j \<Rightarrow> 'j outcome"
  json_at_position :: "int \<Rightarrow> 'j \<Rightarrow> 'j outcome"
  json_to_string :: "'j \<Rightarrow> string outcome"
  json_to_bool :: "'j \<Rightarrow> bool outcome"
  json_to_int :: "'j \<Rightarrow> int outcome"
  json_to_size :: "'j \<Rightarrow> nat outcome"
  json_to_double :: "'j \<Rightarrow> 'r outcome"
  parse_uri :: "string \<Rightarrow> 'u outcome"
  parse_document :: "path \<Rightarrow> 'j option outcome" \<comment> \<open>\<open>None\<close> when the stream fails\<close>
  local_date_time :: string

definition json_path :: "('u, 'j, 'r) config_lib \<Rightarrow> 'j \<Rightarrow> string \<Rightarrow> string \<Rightarrow> 'j outcome" where
  "json_path lib j a b = and_then (json_at lib a j) (json_at lib b)"

text \<open>
  \<open>from_json\<close> assigns field by field; a throw leaves the fields assigned before it. The result pairs
  the configuration with the outcome.
\<close>

definition assign_field ::
  "'v outcome \<Rightarrow> ('v \<Rightarrow> 'c \<Rightarrow> 'c) \<Rightarrow> 'c \<times> unit outcome \<Rightarrow> 'c \<times> unit outcome" where
  "assign_field r store = (\<lambda>(c, done).
     case done of
       Inl e \<Rightarrow> (c, Inl e)
     | Inr _ \<Rightarrow> (case r of Inl e \<Rightarrow> (c, Inl e) | Inr v \<Rightarrow> (store v c, Inr ())))"

definition from_json ::
  "('u, 'j, 'r) config_lib \<Rightarrow> 'j \<Rightarrow> ('u, 'j, 'r) config \<Rightarrow> ('u, 'j, 'r) config \<times> unit outcome" where
  "from_json lib j c =
     (let prefix = and_then (json_path lib j ''TraceEvent'' ''NamePrefix'') (json_to_string lib);
          enable = and_then (json_path lib j ''TraceEvent'' ''Enable'') (json_to_bool lib);
          uri = and_then (json_path lib j ''Dash'' ''UriIndex'') (\<lambda>v. and_then (json_to_int lib v) (\<lambda>mpd_uri_index.
                and_then (json_path lib j ''Dash'' ''Uri'') (\<lambda>uris. and_then (json_at_position lib mpd_uri_index uris) (\<lambda>u.
                and_then (json_to_string lib u) (parse_uri lib)))));
          factor = and_then (json_path lib j ''System'' ''PredictFactor'') (json_to_double lib);
          capacity = and_then (json_path lib j ''System'' ''DecodeCapacity'') (json_to_size lib)
      in assign_field capacity (\<lambda>v c. c\<lparr>decode_capacity_of := v\<rparr>)
         (assign_field factor (\<lambda>v c. c\<lparr>predict_degrade_factor := v\<rparr>)
         (assign_field uri (\<lambda>v c. c\<lparr>mpd_uri := Some v\<rparr>)
         (assign_field enable (\<lambda>v c. c\<lparr>trace_enable := v\<rparr>)
         (assign_field prefix (\<lambda>v c. c\<lparr>trace_prefix := v\<rparr>) (c, Inr ()))))))"

section \<open>Loading\<close>

text \<open>The directory must be new (an assertion).\<close>

definition make_log_directory ::
  "('u, 'j, 'r) config_lib \<Rightarrow> fs \<Rightarrow> path \<Rightarrow> string \<Rightarrow> (path \<times> fs) outcome" where
  "make_log_directory lib s workset name_prefix =
     (let d = path_append workset [name_prefix @ ''.'' @ local_date_time lib]
      in and_then (create_directories s d) (\<lambda>(created, s'). assert_that created (Inr (d, s'))))"

definition config_from_template ::
  "('u, 'j, 'r) config_lib \<Rightarrow> string option \<Rightarrow> fs \<Rightarrow> ('u, 'j, 'r) config \<Rightarrow> (bool \<times> ('u, 'j, 'r) config \<times> fs) outcome" where
  "config_from_template lib mpd_url s c =
     (case mpd_url of
        Some (ch # url) \<Rightarrow>
          and_then (make_log_directory lib s (workset_directory c) ''TraceTest'') (\<lambda>(d, s').
          and_then (parse_uri lib (ch # url)) (\<lambda>u.
            Inr (True, c\<lparr>trace_enable := False, trace_directory := d, decode_capacity_of := 30, decode_enable := False,
                         mpd_uri := Some u\<rparr>, s')))
      | _ \<Rightarrow> Inr (False, c, s))"

definition regular_file :: "fs \<Rightarrow> path \<Rightarrow> bool" where
  "regular_file s p \<longleftrightarrow> (case map_of s p of Some (File t) \<Rightarrow> True | _ \<Rightarrow> False)"

text \<open>
  What \<open>makeTryWith\<close> runs: read the document, take the fields, and make the directory of the trace. An
  exception becomes a failed try; a failed assertion ends the program.
\<close>

definition parse_config ::
  "('u, 'j, 'r) config_lib \<Rightarrow> fs \<Rightarrow> ('u, 'j, 'r) config \<Rightarrow> bool outcome \<times> ('u, 'j, 'r) config \<times> fs" where
  "parse_config lib s c =
     (case parse_document lib (document_path c) of
        Inl e \<Rightarrow> (Inl e, c, s)
      | Inr None \<Rightarrow> (Inr False, c, s)
      | Inr (Some j) \<Rightarrow>
          (case from_json lib j (c\<lparr>document := j\<rparr>) of
             (c1, Inl e) \<Rightarrow> (Inl e, c1, s)
           | (c1, Inr _) \<Rightarrow>
               if trace_enable c1
               then (case make_log_directory lib s (workset_directory c1) (trace_prefix c1) of
                       Inl e \<Rightarrow> (Inl e, c1, s)
                     | Inr (d, s') \<Rightarrow> (Inr True, c1\<lparr>trace_directory := d\<rparr>, s'))
               else (Inr True, c1, s)))"

definition native_library_config_load ::
  "('u, 'j, 'r) config_lib \<Rightarrow> path option \<Rightarrow> string option \<Rightarrow> fs \<Rightarrow> ('u, 'j, 'r) config \<Rightarrow>
   (bool \<times> ('u, 'j, 'r) config \<times> fs) outcome" where
  "native_library_config_load lib workset_environment mpd_url s c =
     (case workset_environment of
        None \<Rightarrow> Inr (False, c, s)
      | Some w \<Rightarrow>
          let c1 = c\<lparr>workset_directory := w\<rparr>
          in if \<not> is_directory s w then Inr (False, c1, s)
             else and_then (config_from_template lib mpd_url s c1) (\<lambda>(templated, c2, s2).
               if templated then Inr (True, c2, s2)
               else let c3 = c2\<lparr>document_path := path_append w [''config.json'']\<rparr>
                    in if \<not> regular_file s2 (document_path c3) then Inr (False, c3, s2)
                       else (case parse_config lib s2 c3 of
                               (Inr loaded, c4, s4) \<Rightarrow> Inr (loaded, c4, s4)
                             | (Inl (Throw e), c4, s4) \<Rightarrow> Inr (False, c4, s4)
                             | (Inl e, c4, s4) \<Rightarrow> Inl e)))"

section \<open>What loading answers\<close>

lemma assign_field_simps [simp]:
  "assign_field r store (c, Inl e) = (c, Inl e)"
  "assign_field (Inr v) store (c, Inr u) = (store v c, Inr ())"
  "assign_field (Inl e) store (c, Inr u) = (c, Inl e)"
  by (simp_all add: assign_field_def)

text \<open>What the document says for a field, as the loader reads it.\<close>

definition document_fields ::
  "('u, 'j, 'r) config_lib \<Rightarrow> 'j \<Rightarrow> string outcome \<times> bool outcome \<times> 'u outcome \<times> 'r outcome \<times> nat outcome" where
  "document_fields lib j =
     (and_then (json_path lib j ''TraceEvent'' ''NamePrefix'') (json_to_string lib),
      and_then (json_path lib j ''TraceEvent'' ''Enable'') (json_to_bool lib),
      and_then (json_path lib j ''Dash'' ''UriIndex'') (\<lambda>v. and_then (json_to_int lib v) (\<lambda>mpd_uri_index.
        and_then (json_path lib j ''Dash'' ''Uri'') (\<lambda>uris. and_then (json_at_position lib mpd_uri_index uris) (\<lambda>u.
        and_then (json_to_string lib u) (parse_uri lib))))),
      and_then (json_path lib j ''System'' ''PredictFactor'') (json_to_double lib),
      and_then (json_path lib j ''System'' ''DecodeCapacity'') (json_to_size lib))"

lemma from_json_fields:
  assumes "document_fields lib j = (name_prefix, enable, uri, factor, capacity)"
  shows "from_json lib j c =
    assign_field capacity (\<lambda>v c. c\<lparr>decode_capacity_of := v\<rparr>)
      (assign_field factor (\<lambda>v c. c\<lparr>predict_degrade_factor := v\<rparr>)
      (assign_field uri (\<lambda>v c. c\<lparr>mpd_uri := Some v\<rparr>)
      (assign_field enable (\<lambda>v c. c\<lparr>trace_enable := v\<rparr>)
      (assign_field name_prefix (\<lambda>v c. c\<lparr>trace_prefix := v\<rparr>) (c, Inr ())))))"
  using assms unfolding document_fields_def from_json_def Let_def by auto

lemma load_document:
  assumes "is_directory s w" and "mpd_url \<in> {None, Some []}" and "regular_file s (path_append w [''config.json''])"
  shows "native_library_config_load lib (Some w) mpd_url s c =
    (case parse_config lib s (c\<lparr>workset_directory := w, document_path := path_append w [''config.json'']\<rparr>) of
       (Inr loaded, c', s') \<Rightarrow> Inr (loaded, c', s')
     | (Inl (Throw e), c', s') \<Rightarrow> Inr (False, c', s')
     | (Inl e, c', s') \<Rightarrow> Inl e)"
  using assms by (auto simp: native_library_config_load_def config_from_template_def Let_def)

text \<open>
  Loading without a URL reads the document field by field in a fixed order. When every field
  can be read the answer is true and exactly those fields are set; when the last one, the decoding
  capacity, throws, the answer is false but the four fields before it keep their new values.
\<close>

theorem config_load_fields:
  assumes "is_directory s w" and "mpd_url \<in> {None, Some []}" and "regular_file s (path_append w [''config.json''])"
    and "parse_document lib (path_append w [''config.json'']) = Inr (Some j)"
    and "document_fields lib j = (Inr name_prefix, Inr False, Inr uri, Inr factor, capacity)"
    and "d = c\<lparr>workset_directory := w, document_path := path_append w [''config.json''], document := j,
      trace_prefix := name_prefix, trace_enable := False, mpd_uri := Some uri, predict_degrade_factor := factor\<rparr>"
  shows "native_library_config_load lib (Some w) mpd_url s c =
    (case capacity of
       Inr n \<Rightarrow> Inr (True, d\<lparr>decode_capacity_of := n\<rparr>, s)
     | Inl (Throw e) \<Rightarrow> Inr (False, d, s)
     | Inl e \<Rightarrow> Inl e)"
  unfolding load_document [OF assms(1-3)]
  using assms(4,6) from_json_fields [OF assms(5)]
  by (auto simp: parse_config_def split: sum.split fault.split)

definition sample_config_lib :: "(string, json, nat) config_lib" where
  "sample_config_lib = \<lparr>json_at = (\<lambda>n j. case json_get_field j n of None \<Rightarrow> Inl (Throw Out_of_range_error) | Some v \<Rightarrow> Inr v),
     json_at_position = (\<lambda>i j. case j of Json_array vs \<Rightarrow> Inr (vs ! nat i) | _ \<Rightarrow> Inl type_error),
     json_to_string = json_string,
     json_to_bool = (\<lambda>j. case j of Json_boolean b \<Rightarrow> Inr b | _ \<Rightarrow> Inl type_error),
     json_to_int = (\<lambda>j. case j of Json_number n \<Rightarrow> Inr n | _ \<Rightarrow> Inl type_error),
     json_to_size = (\<lambda>j. case j of Json_number n \<Rightarrow> Inr (nat n) | _ \<Rightarrow> Inl type_error),
     json_to_double = (\<lambda>j. case j of Json_number n \<Rightarrow> Inr (nat n) | _ \<Rightarrow> Inl type_error),
     parse_uri = Inr,
     parse_document = (\<lambda>p. Inr (Some (Json_object
       [(''TraceEvent'', Json_object [(''NamePrefix'', Json_string ''t''), (''Enable'', Json_boolean False)]),
        (''Dash'', Json_object [(''UriIndex'', Json_number 1), (''Uri'', Json_array [Json_string ''a'', Json_string ''b''])]),
        (''System'', Json_object [(''PredictFactor'', Json_number 2)])]))),
     local_date_time = ''now''\<rparr>"

text \<open>The sample document has no decoding capacity: the answer is false, the address is the new one.\<close>

theorem config_load_fields_witness:
  "\<exists>d. native_library_config_load sample_config_lib (Some [''w'']) None
      [([''w''], Directory), ([''w'', ''config.json''], File 1)] (default_config 8 Json_null 1) =
      Inr (False, d, [([''w''], Directory), ([''w'', ''config.json''], File 1)]) \<and> mpd_uri d = Some ''b''"
proof -
  let ?s = "[([''w''], Directory), ([''w'', ''config.json''], File 1)]"
  obtain j where j: "parse_document sample_config_lib [''w'', ''config.json''] = Inr (Some j)"
    and fields: "document_fields sample_config_lib j =
      (Inr ''t'', Inr False, Inr ''b'', Inr 2, Inl (Throw Out_of_range_error))"
    by (simp add: sample_config_lib_def document_fields_def json_path_def json_get_field_def json_string_def)
  have "is_directory ?s [''w'']" "regular_file ?s (path_append [''w''] [''config.json''])"
    "path_append [''w''] [''config.json''] = [''w'', ''config.json'']"
    by (simp_all add: is_directory_def regular_file_def path_append_def has_filename_def)
  then show ?thesis
    using config_load_fields [of ?s "[''w'']" None sample_config_lib j, OF _ _ _ _ fields refl] j by simp
qed

end
