(* ===== verification/Dash_Protocol.thy ===== *)
theory Dash_Protocol
  imports Core_Values Documents "HOL-Library.Sublist"
begin

text \<open>
  \<^verbatim>\<open>src/network/dash.protocal.h\<close> and \<^verbatim>\<open>dash.protocal.cpp\<close>: the MPD parser. It walks the XML document
  (the interface \<open>dom\<close>), converts attributes with \<^verbatim>\<open>folly::to<int>\<close> (the parameter \<open>to_int\<close>), matches
  durations with two regular expressions, and collects the adaptation sets by tile coordinate.
\<close>

section \<open>Data\<close>

record represent =
  represent_id :: int
  bandwidth :: int
  media :: string
  initial :: string
  initial_buffer :: "nat option" \<comment> \<open>the request whose response it splits\<close>

record adaptation_set =
  codecs :: string
  mime_type :: string
  represents :: "represent list"

record video_adaptation_set = adaptation_set +
  set_coordinate :: coordinate
  set_dimension :: dimension

record audio_adaptation_set = adaptation_set +
  sample_rate :: int

record dash_parser =
  video_adaptation_sets :: "(coordinate \<times> video_adaptation_set) list"
  audio_set :: audio_adaptation_set
  title :: string
  min_buffer_time :: int
  max_segment_duration :: int
  presentation_time :: int
  grid :: coordinate
  scale :: dimension

section \<open>Text\<close>

definition to_int_or_throw :: "(string \<Rightarrow> int option) \<Rightarrow> string \<Rightarrow> int outcome" where
  "to_int_or_throw to_int s =
     (case to_int s of None \<Rightarrow> Inl (Throw (Runtime_error ''conversion'')) | Some n \<Rightarrow> Inr n)"

text \<open>What follows the first comma, or the whole text when there is none.\<close>

definition after_comma :: "string \<Rightarrow> string" where
  "after_comma srd = (if CHR '','' \<in> set srd then tl (dropWhile (\<lambda>c. c \<noteq> CHR '','') srd) else srd)"

text \<open>The fields are written one after the other into an array of six; a seventh overruns it.\<close>

fun fill_spatial :: "(string \<Rightarrow> int option) \<Rightarrow> string list \<Rightarrow> nat \<Rightarrow> int list \<Rightarrow> int list outcome" where
  "fill_spatial to_int [] k spatial = Inr spatial"
| "fill_spatial to_int (f # fs) k spatial =
     and_then (to_int_or_throw to_int f) (\<lambda>n.
       if k < length spatial then fill_spatial to_int fs (Suc k) (spatial[k := n])
       else Inl Undefined_behaviour)"

definition split_spatial_description :: "(string \<Rightarrow> int option) \<Rightarrow> string \<Rightarrow> int list outcome" where
  "split_spatial_description to_int srd =
     fill_spatial to_int (split_on (CHR '','') (after_comma srd)) 0 (replicate 6 0)"

text \<open>\<^verbatim>\<open>RE2::Replace\<close> with a literal pattern replaces its first occurrence.\<close>

fun replace_first :: "string \<Rightarrow> string \<Rightarrow> string \<Rightarrow> string option" where
  "replace_first p r [] = (if p = [] then Some r else None)"
| "replace_first p r (c # cs) =
     (if prefix p (c # cs) then Some (r @ drop (length p) (c # cs))
      else map_option (\<lambda>t. c # t) (replace_first p r cs))"

definition format_media :: "string \<Rightarrow> string outcome" where
  "format_media str =
     (case replace_first ''$Number$'' ''{}'' str of None \<Rightarrow> Inl Assert_failed | Some t \<Rightarrow> Inr t)"

subsection \<open>Durations\<close>

definition is_digit :: "char \<Rightarrow> bool" where
  "is_digit c \<longleftrightarrow> c \<in> set digits"

text \<open>The text of \<^verbatim>\<open>(\d+\.\d+)S\<close> at the end of a duration.\<close>

definition seconds_capture :: "string \<Rightarrow> string option" where
  "seconds_capture s =
     (let whole = takeWhile is_digit s; rest = dropWhile is_digit s;
          part = takeWhile is_digit (tl rest)
      in if whole \<noteq> [] \<and> part \<noteq> [] \<and> rest = CHR ''.'' # part @ ''S''
         then Some (whole @ CHR ''.'' # part) else None)"

text \<open>
  The captures for hour, minute and second of \<^verbatim>\<open>PT(((\d+)H)?(\d+)M)?(\d+\.\d+)S\<close>; a group that takes
  no part captures the empty text.
\<close>

definition duration_captures :: "string \<Rightarrow> (string \<times> string \<times> string) option" where
  "duration_captures s =
     (if \<not> prefix ''PT'' s then None
      else let body_text = drop 2 s; n = takeWhile is_digit body_text; rest = dropWhile is_digit body_text
           in if n \<noteq> [] \<and> prefix ''H'' rest
              then let m = takeWhile is_digit (tl rest); rest1 = dropWhile is_digit (tl rest)
                   in if m \<noteq> [] \<and> prefix ''M'' rest1
                      then map_option (\<lambda>sec. (n, m, sec)) (seconds_capture (tl rest1)) else None
              else if n \<noteq> [] \<and> prefix ''M'' rest
              then map_option (\<lambda>sec. ([], n, sec)) (seconds_capture (tl rest))
              else map_option (\<lambda>sec. ([], [], sec)) (seconds_capture body_text))"

text \<open>
  A match also needs every capture to convert, so a duration without hours or minutes fails the first
  pattern, and only one without both can match the second. The conversion of the seconds to a double
  and of the double to milliseconds is the parameter \<open>to_milliseconds\<close>, and RE2's conversion to an integer
  is \<open>re2_int\<close>.
\<close>

definition parse_duration ::
  "(string \<Rightarrow> int option) \<Rightarrow> (string \<Rightarrow> int) \<Rightarrow> string \<Rightarrow> int outcome" where
  "parse_duration re2_int to_milliseconds duration =
     (case duration_captures duration of
        Some (h, m, sec) \<Rightarrow>
          (case (re2_int h, re2_int m) of
             (Some hour, Some minute) \<Rightarrow>
               Inr (hour * 3600000 + minute * 60000 + to_milliseconds sec)
           | _ \<Rightarrow>
               (case (if prefix ''PT'' duration then seconds_capture (drop 2 duration) else None) of
                  Some sec' \<Rightarrow> Inr (to_milliseconds sec')
                | None \<Rightarrow> Inl (Throw (Runtime_error ''duration_parse_mismatch''))))
      | None \<Rightarrow> Inl (Throw (Runtime_error ''duration_parse_mismatch'')))"

section \<open>Elements\<close>

text \<open>The second element of the list is the next sibling of any name, the later ones have the name.\<close>

definition list_next_sibling :: "'e dom \<Rightarrow> string \<Rightarrow> 'e option \<Rightarrow> 'e list outcome" where
  "list_next_sibling d name first_element =
     and_then (deref first_element) (\<lambda>e.
       Inr (e # (case later_siblings d e of
                   [] \<Rightarrow> []
                 | next_element # rest \<Rightarrow> next_element # filter (\<lambda>s. element_name d s = name) rest)))"

definition attribute_of :: "'e dom \<Rightarrow> 'e option \<Rightarrow> string \<Rightarrow> string outcome" where
  "attribute_of d e name = and_then (deref e) (\<lambda>x. deref (attribute d x name))"

definition int_attribute :: "(string \<Rightarrow> int option) \<Rightarrow> 'e dom \<Rightarrow> 'e option \<Rightarrow> string \<Rightarrow> int outcome" where
  "int_attribute to_int d e name = and_then (attribute_of d e name) (to_int_or_throw to_int)"

definition parse_represent :: "(string \<Rightarrow> int option) \<Rightarrow> 'e dom \<Rightarrow> 'e \<Rightarrow> represent outcome" where
  "parse_represent to_int d element =
     and_then (int_attribute to_int d (Some element) ''id'') (\<lambda>id_value.
     and_then (int_attribute to_int d (Some element) ''bandwidth'') (\<lambda>bandwidth_value.
     and_then (and_then (attribute_of d (first_child_element d ''SegmentTemplate'' element) ''media'')
                 format_media) (\<lambda>media_value.
     and_then (attribute_of d (first_child_element d ''SegmentTemplate'' element) ''initialization'') (\<lambda>initial_value.
       Inr \<lparr>represent_id = id_value, bandwidth = bandwidth_value, media = media_value,
            initial = initial_value, initial_buffer = None\<rparr>))))"

text \<open>A parallel algorithm turns an exception of its function into \<^verbatim>\<open>std::terminate\<close>.\<close>

fun parallel_map :: "('a \<Rightarrow> 'b outcome) \<Rightarrow> 'a list \<Rightarrow> 'b list outcome" where
  "parallel_map f [] = Inr []"
| "parallel_map f (x # xs) =
     (case f x of
        Inl (Throw e) \<Rightarrow> Inl Terminated
      | Inl e \<Rightarrow> Inl e
      | Inr y \<Rightarrow> and_then (parallel_map f xs) (\<lambda>ys. Inr (y # ys)))"

definition make_video_set :: "(string \<Rightarrow> int option) \<Rightarrow> 'e dom \<Rightarrow> 'e \<Rightarrow> video_adaptation_set outcome" where
  "make_video_set to_int d element =
     and_then (list_next_sibling d ''Representation'' (first_child_element d ''Representation'' element)) (\<lambda>elements.
     and_then (attribute_of d (Some (hd elements)) ''codecs'') (\<lambda>codecs_value.
     and_then (attribute_of d (Some (hd elements)) ''mimeType'') (\<lambda>mime_value.
     and_then (int_attribute to_int d (Some element) ''maxWidth'') (\<lambda>width_value.
     and_then (int_attribute to_int d (Some element) ''maxHeight'') (\<lambda>height_value.
     and_then (and_then (attribute_of d (first_child_element d ''SupplementalProperty'' element) ''value'')
                 (split_spatial_description to_int)) (\<lambda>spatial.
     and_then (parallel_map (parse_represent to_int d) elements) (\<lambda>represents_value.
       Inr \<lparr>codecs = codecs_value, mime_type = mime_value, represents = represents_value,
            set_coordinate = Coordinate (spatial ! 0) (spatial ! 1),
            set_dimension = Dimension width_value height_value\<rparr>)))))))"

text \<open>
  The reduction enters each set under its coordinate; \<^verbatim>\<open>try_emplace\<close> must succeed (an assertion).
\<close>

fun reduce_video_sets ::
  "(string \<Rightarrow> int option) \<Rightarrow> 'e dom \<Rightarrow> (coordinate \<times> video_adaptation_set) list \<Rightarrow> 'e list \<Rightarrow>
   (coordinate \<times> video_adaptation_set) list outcome" where
  "reduce_video_sets to_int d sets [] = Inr sets"
| "reduce_video_sets to_int d sets (element # elements) =
     and_then (make_video_set to_int d element) (\<lambda>video_set.
       if map_of sets (set_coordinate video_set) \<noteq> None then Inl Assert_failed
       else reduce_video_sets to_int d (sets @ [(set_coordinate video_set, video_set)]) elements)"

definition parse_video_adaptation_set ::
  "(string \<Rightarrow> int option) \<Rightarrow> 'e dom \<Rightarrow> 'e list \<Rightarrow> dash_parser \<Rightarrow> dash_parser outcome" where
  "parse_video_adaptation_set to_int d elements p =
     and_then (reduce_video_sets to_int d [] elements) (\<lambda>sets. Inr (p\<lparr>video_adaptation_sets := sets\<rparr>))"

text \<open>
  The audio set is filled field by field, so an exception leaves the fields set before it; the result
  is the set with how the parse ended.
\<close>

definition parse_audio_adaptation_set ::
  "(string \<Rightarrow> int option) \<Rightarrow> 'e dom \<Rightarrow> 'e \<Rightarrow> audio_adaptation_set \<Rightarrow> unit outcome \<times> audio_adaptation_set" where
  "parse_audio_adaptation_set to_int d element a =
     (let e = first_child_element d ''Representation'' element
      in case attribute_of d e ''codecs'' of Inl f \<Rightarrow> (Inl f, a) | Inr codecs_value \<Rightarrow>
         let a1 = a\<lparr>codecs := codecs_value\<rparr>
      in case attribute_of d e ''mimeType'' of Inl f \<Rightarrow> (Inl f, a1) | Inr mime_value \<Rightarrow>
         let a2 = a1\<lparr>mime_type := mime_value\<rparr>
      in case and_then (int_attribute to_int d e ''id'') (\<lambda>id_value.
              and_then (int_attribute to_int d e ''bandwidth'') (\<lambda>bandwidth_value.
              and_then (deref e) (\<lambda>x.
              and_then (attribute_of d (first_child_element d ''SegmentTemplate'' x) ''media'') (\<lambda>media_value.
              and_then (attribute_of d (first_child_element d ''SegmentTemplate'' x) ''initialization'') (\<lambda>initial_value.
                Inr \<lparr>represent_id = id_value, bandwidth = bandwidth_value, media = media_value,
                     initial = initial_value, initial_buffer = None\<rparr>)))))
         of Inl f \<Rightarrow> (Inl f, a2) | Inr r \<Rightarrow>
         let a3 = a2\<lparr>represents := represents a2 @ [r]\<rparr>
      in case int_attribute to_int d e ''audioSamplingRate'' of Inl f \<Rightarrow> (Inl f, a3)
         | Inr rate \<Rightarrow> (Inr (), a3\<lparr>sample_rate := rate\<rparr>))"

definition parse_grid_size :: "(string \<Rightarrow> int option) \<Rightarrow> 'e dom \<Rightarrow> 'e \<Rightarrow> dash_parser \<Rightarrow> dash_parser outcome" where
  "parse_grid_size to_int d element p =
     and_then (and_then (attribute_of d (first_child_element d ''SupplementalProperty'' element) ''value'')
                 (split_spatial_description to_int)) (\<lambda>spatial.
       Inr (p\<lparr>grid := Coordinate (spatial ! 4) (spatial ! 5)\<rparr>))"

definition parse_scale_size :: "dash_parser \<Rightarrow> dash_parser outcome" where
  "parse_scale_size p =
     (let sum = foldr (\<lambda>(c, video_set) acc. Dimension (width (set_dimension video_set) + width acc)
                  (height (set_dimension video_set) + height acc)) (video_adaptation_sets p) (Dimension 0 0)
      in and_then (cdiv (width sum) (row (grid p))) (\<lambda>w.
         and_then (cdiv (height sum) (col (grid p))) (\<lambda>h.
           Inr (p\<lparr>scale := Dimension w h\<rparr>))))"

section \<open>The constructor\<close>

text \<open>A set is an audio set when the type of its first representation contains \<^verbatim>\<open>audio\<close>.\<close>

definition is_audio :: "'e dom \<Rightarrow> 'e \<Rightarrow> bool outcome" where
  "is_audio d element =
     and_then (attribute_of d (first_child_element d ''Representation'' element) ''mimeType'') (\<lambda>mime.
       Inr (sublist ''audio'' mime))"

fun audio_flags :: "'e dom \<Rightarrow> 'e list \<Rightarrow> bool list outcome" where
  "audio_flags d [] = Inr []"
| "audio_flags d (e # es) =
     and_then (is_audio d e) (\<lambda>b. and_then (audio_flags d es) (\<lambda>bs. Inr (b # bs)))"

text \<open>
  \<^verbatim>\<open>std::remove_if\<close> moves the kept elements to the front and returns their end; behind it the list
  keeps the elements that were there.
\<close>

definition remove_if :: "bool list \<Rightarrow> 'a list \<Rightarrow> 'a list \<times> nat" where
  "remove_if flags xs =
     (let kept = map fst (filter (\<lambda>(x, b). \<not> b) (zip xs flags))
      in (kept @ drop (length kept) xs, length kept))"

text \<open>The tasks run on the executor and their exceptions stay in futures that nobody reads.\<close>

definition run_task :: "'s \<Rightarrow> 's outcome \<Rightarrow> 's outcome" where
  "run_task s r = (case r of Inl (Throw e) \<Rightarrow> Inr s | _ \<Rightarrow> r)"

definition run_audio_task :: "dash_parser \<Rightarrow> unit outcome \<times> audio_adaptation_set \<Rightarrow> dash_parser outcome" where
  "run_audio_task p r =
     (case fst r of
        Inl (Throw e) \<Rightarrow> Inr (p\<lparr>audio_set := snd r\<rparr>)
      | Inl f \<Rightarrow> Inl f
      | Inr _ \<Rightarrow> Inr (p\<lparr>audio_set := snd r\<rparr>))"

definition empty_parser :: dash_parser where
  "empty_parser = \<lparr>video_adaptation_sets = [],
     audio_set = \<lparr>codecs = [], mime_type = [], represents = [], sample_rate = 0\<rparr>, title = [],
     min_buffer_time = 0, max_segment_duration = 0, presentation_time = 0,
     grid = Coordinate 0 0, scale = Dimension 0 0\<rparr>"

definition parse_sets :: "(string \<Rightarrow> int option) \<Rightarrow> 'e dom \<Rightarrow> 'e list \<Rightarrow> dash_parser \<Rightarrow> dash_parser outcome" where
  "parse_sets to_int d adaptation_sets p =
     and_then (audio_flags d adaptation_sets) (\<lambda>flags.
       let (elements, audio_set_iter) = remove_if flags adaptation_sets
       in and_then (run_task p (parse_video_adaptation_set to_int d (take audio_set_iter elements) p)) (\<lambda>p1.
          and_then (run_task p1 (parse_grid_size to_int d (hd elements) p1)) (\<lambda>p2.
          and_then (run_task p2 (parse_scale_size p2)) (\<lambda>p3.
            if audio_set_iter < length elements
            then run_audio_task p3 (parse_audio_adaptation_set to_int d (elements ! audio_set_iter) (audio_set p3))
            else Inr p3))))"

definition parser_create ::
  "(string \<Rightarrow> int option) \<Rightarrow> (string \<Rightarrow> int option) \<Rightarrow> (string \<Rightarrow> int) \<Rightarrow> 'e dom \<Rightarrow> 'e option \<Rightarrow> dash_parser outcome" where
  "parser_create to_int re2_int to_milliseconds d document_root =
     (case document_root of None \<Rightarrow> Inl Assert_failed | Some xml_root \<Rightarrow>
     and_then (and_then (attribute_of d (Some xml_root) ''mediaPresentationDuration'')
                 (parse_duration re2_int to_milliseconds)) (\<lambda>presentation.
     and_then (and_then (attribute_of d (Some xml_root) ''minBufferTime'')
                 (parse_duration re2_int to_milliseconds)) (\<lambda>min_buffer.
     and_then (and_then (attribute_of d (Some xml_root) ''maxSegmentDuration'')
                 (parse_duration re2_int to_milliseconds)) (\<lambda>max_segment.
     and_then (deref (first_child_element d ''ProgramInformation'' xml_root)) (\<lambda>information.
     and_then (deref (first_child_element d ''Title'' information)) (\<lambda>title_element.
     and_then (deref (get_text d title_element)) (\<lambda>title_value.
     and_then (deref (first_child_element d ''Period'' xml_root)) (\<lambda>period.
     and_then (list_next_sibling d ''AdaptationSet'' (first_child_element d ''AdaptationSet'' period)) (\<lambda>adaptation_sets.
       parse_sets to_int d adaptation_sets (empty_parser\<lparr>presentation_time := presentation,
         min_buffer_time := min_buffer, max_segment_duration := max_segment, title := title_value\<rparr>))))))))))"

text \<open>Looking up a coordinate without a set is out of range.\<close>

definition video_set :: "dash_parser \<Rightarrow> coordinate \<Rightarrow> video_adaptation_set outcome" where
  "video_set p coordinate =
     (case map_of (video_adaptation_sets p) coordinate of
        None \<Rightarrow> Inl (Throw Out_of_range_error) | Some v \<Rightarrow> Inr v)"

section \<open>Spatial descriptions\<close>

lemma after_comma_field: "CHR '','' \<notin> set f \<Longrightarrow> after_comma (f @ CHR '','' # s) = s"
  by (induction f) (auto simp: after_comma_def)

context decimal_text
begin

lemma fill_spatial_fmt:
  "k + length ns = length spatial \<Longrightarrow>
     fill_spatial to_int (map fmt_int ns) k spatial = Inr (take k spatial @ ns)"
proof (induction ns arbitrary: k spatial)
  case (Cons n ns)
  then have "fill_spatial to_int (map fmt_int ns) (Suc k) (spatial[k := n]) =
      Inr (take (Suc k) (spatial[k := n]) @ ns)" by simp
  with Cons.prems show ?case
    by (simp add: to_int_or_throw_def to_int_fmt take_Suc_conv_app_nth)
qed simp

lemma split_spatial_description_fmt:
  assumes "CHR '','' \<notin> set f" and "length ns = 6" and "\<forall>n\<in>set ns. 0 \<le> n"
  shows "split_spatial_description to_int (f @ CHR '','' # join (CHR '','') (map fmt_int ns)) = Inr ns"
proof -
  have "\<forall>x\<in>set (map fmt_int ns). CHR '','' \<notin> set x"
    using assms(3) fmt_int_no minus_not_digit(2) by auto
  then have "split_on (CHR '','') (join (CHR '','') (map fmt_int ns)) = map fmt_int ns"
    using assms(2) by (intro split_on_join) auto
  then show ?thesis
    using assms(2) fill_spatial_fmt [of 0 ns "replicate 6 0"]
    by (simp add: split_spatial_description_def after_comma_field [OF assms(1)])
qed

end

section \<open>Durations\<close>

lemma digit_span:
  assumes "set n \<subseteq> set digits" and "\<not> is_digit c"
  shows "takeWhile is_digit (n @ c # s) = n" and "dropWhile is_digit (n @ c # s) = c # s"
  using assms by (auto simp: is_digit_def subset_iff intro!: takeWhile_dropWhile_unique)

lemma unit_not_digit: "\<not> is_digit (CHR ''H'')" "\<not> is_digit (CHR ''M'')" "\<not> is_digit (CHR ''S'')"
    "\<not> is_digit (CHR ''.'')"
  by (simp_all add: is_digit_def digits_def)

lemma seconds_capture_text:
  assumes "set a \<subseteq> set digits" "a \<noteq> []" "set b \<subseteq> set digits" "b \<noteq> []"
  shows "seconds_capture (a @ CHR ''.'' # b @ ''S'') = Some (a @ CHR ''.'' # b)"
  using assms digit_span [OF assms(1) unit_not_digit(4), of "b @ ''S''"]
    digit_span [OF assms(3) unit_not_digit(3), of "[]"]
  by (simp add: seconds_capture_def Let_def)

text \<open>
  The durations the parser accepts: with hours, minutes and seconds, and with seconds only.
  A duration with minutes but no hours is rejected, although the pattern makes the hours optional:
  the empty capture of the hours does not convert.
\<close>

theorem parse_duration_forms:
  assumes "\<And>n. n \<noteq> [] \<Longrightarrow> set n \<subseteq> set digits \<Longrightarrow> length n \<le> 9 \<Longrightarrow> re2_int n = read_int n"
    and "re2_int [] = None"
    and "set h \<subseteq> set digits" "h \<noteq> []" "length h \<le> 9" "set m \<subseteq> set digits" "m \<noteq> []" "length m \<le> 9"
    and "set a \<subseteq> set digits" "a \<noteq> []" "set b \<subseteq> set digits" "b \<noteq> []"
    and "read_int h = Some hour" "read_int m = Some minute"
  shows "parse_duration re2_int ms (''PT'' @ h @ ''H'' @ m @ ''M'' @ a @ ''.'' @ b @ ''S'') =
      Inr (hour * 3600000 + minute * 60000 + ms (a @ ''.'' @ b)) \<and>
    parse_duration re2_int ms (''PT'' @ a @ ''.'' @ b @ ''S'') = Inr (ms (a @ ''.'' @ b)) \<and>
    parse_duration re2_int ms (''PT'' @ m @ ''M'' @ a @ ''.'' @ b @ ''S'') =
      Inl (Throw (Runtime_error ''duration_parse_mismatch''))"
proof (intro conjI)
  note sec = seconds_capture_text [OF assms(9-12)]
  have "duration_captures (''PT'' @ h @ ''H'' @ m @ ''M'' @ a @ ''.'' @ b @ ''S'') = Some (h, m, a @ ''.'' @ b)"
    using assms(3-8) sec digit_span [OF assms(3) unit_not_digit(1), of "m @ ''M'' @ a @ ''.'' @ b @ ''S''"]
      digit_span [OF assms(6) unit_not_digit(2), of "a @ ''.'' @ b @ ''S''"]
    by (simp add: duration_captures_def Let_def)
  then show "parse_duration re2_int ms (''PT'' @ h @ ''H'' @ m @ ''M'' @ a @ ''.'' @ b @ ''S'') =
      Inr (hour * 3600000 + minute * 60000 + ms (a @ ''.'' @ b))"
    using assms by (simp add: parse_duration_def)
  have "duration_captures (''PT'' @ a @ ''.'' @ b @ ''S'') = Some ([], [], a @ ''.'' @ b)"
    using assms(9-12) sec digit_span [OF assms(9) unit_not_digit(4), of "b @ ''S''"]
    by (simp add: duration_captures_def Let_def)
  then show "parse_duration re2_int ms (''PT'' @ a @ ''.'' @ b @ ''S'') = Inr (ms (a @ ''.'' @ b))"
    using assms(2) sec by (simp add: parse_duration_def)
  have "duration_captures (''PT'' @ m @ ''M'' @ a @ ''.'' @ b @ ''S'') = Some ([], m, a @ ''.'' @ b)"
    using assms(6,7) sec digit_span [OF assms(6) unit_not_digit(2), of "a @ ''.'' @ b @ ''S''"]
    by (simp add: duration_captures_def Let_def)
  moreover have "seconds_capture (m @ ''M'' @ a @ ''.'' @ b @ ''S'') = None"
    using digit_span [OF assms(6) unit_not_digit(2), of "a @ ''.'' @ b @ ''S''"]
    by (simp add: seconds_capture_def Let_def)
  ultimately show "parse_duration re2_int ms (''PT'' @ m @ ''M'' @ a @ ''.'' @ b @ ''S'') =
      Inl (Throw (Runtime_error ''duration_parse_mismatch''))"
    using assms(2) by (simp add: parse_duration_def)
qed

theorem parse_duration_forms_witness:
  "parse_duration read_int (\<lambda>_. 1500) ''PT1H2M1.5S'' = Inr 3721500 \<and>
   parse_duration read_int (\<lambda>_. 1500) ''PT2M1.5S'' = Inl (Throw (Runtime_error ''duration_parse_mismatch''))"
  using parse_duration_forms [of read_int "''1''" "''2''" "''1''" "''5''" 1 2 "\<lambda>_. 1500"]
  by (simp add: digits_def digit_value_def upt_rec)

section \<open>Adaptation sets\<close>

lemma reduce_video_sets_Inr:
  assumes "reduce_video_sets to_int d sets elements = Inr sets'" and "distinct (map fst sets)"
  shows "\<exists>vs. list_all2 (\<lambda>e v. make_video_set to_int d e = Inr v) elements vs \<and>
    sets' = sets @ map (\<lambda>v. (set_coordinate v, v)) vs \<and> distinct (map fst sets')"
  using assms
proof (induction elements arbitrary: sets)
  case (Cons e es)
  then obtain v where v: "make_video_set to_int d e = Inr v" "set_coordinate v \<notin> fst ` set sets"
    and rest: "reduce_video_sets to_int d (sets @ [(set_coordinate v, v)]) es = Inr sets'"
    by (auto simp: outcome_simps map_of_eq_None_iff split: if_splits)
  have "distinct (map fst (sets @ [(set_coordinate v, v)]))"
    using Cons.prems(2) v(2) by simp
  from Cons.IH [OF rest this] obtain vs where
    "list_all2 (\<lambda>e v. make_video_set to_int d e = Inr v) es vs"
    "sets' = sets @ map (\<lambda>v. (set_coordinate v, v)) (v # vs)" "distinct (map fst sets')" by auto
  with v(1) show ?case by (intro exI [of _ "v # vs"]) simp
qed simp

text \<open>
  Claim C17. When the video sets parse, the set found for a coordinate is a set of the document with
  that coordinate, every parsed set is found under its own coordinate, and any other coordinate is
  out of range; so the assertions of \<open>tile_streamer\<close> on the coordinate always hold.
\<close>

theorem video_sets_by_coordinate:
  assumes "parse_video_adaptation_set to_int d elements p = Inr q"
  shows "(\<exists>vs. list_all2 (\<lambda>e v. make_video_set to_int d e = Inr v) elements vs \<and>
      {(c, v). video_set q c = Inr v} = {(set_coordinate v, v) | v. v \<in> set vs}) \<and>
    {c. video_set q c = Inl (Throw Out_of_range_error)} =
      - fst ` set (video_adaptation_sets q)"
proof -
  obtain sets where sets: "reduce_video_sets to_int d [] elements = Inr sets"
    and q: "q = p\<lparr>video_adaptation_sets := sets\<rparr>"
    using assms by (auto simp: parse_video_adaptation_set_def outcome_simps)
  from reduce_video_sets_Inr [OF sets] obtain vs where
    vs: "list_all2 (\<lambda>e v. make_video_set to_int d e = Inr v) elements vs"
    "sets = map (\<lambda>v. (set_coordinate v, v)) vs" "distinct (map fst sets)" by auto
  have found: "video_set q c = Inr v \<longleftrightarrow> (c, v) \<in> set sets" for c v
    unfolding map_of_eq_Some_iff [OF vs(3), symmetric] using q
    by (auto simp: video_set_def split: option.splits)
  then have "{(c, v). video_set q c = Inr v} = {(set_coordinate v, v) | v. v \<in> set vs}"
    using vs(2) by auto
  moreover have "{c. video_set q c = Inl (Throw Out_of_range_error)} = - fst ` set sets"
    using q by (auto simp: video_set_def map_of_eq_None_iff split: option.splits)
  ultimately show ?thesis using vs(1) q by auto
qed

text \<open>A document with two tiles.\<close>

definition sample_set :: "string \<Rightarrow> xml" where
  "sample_set srd = Xml ''AdaptationSet'' [(''maxWidth'', ''640''), (''maxHeight'', ''360'')] None
     [Xml ''SupplementalProperty'' [(''value'', srd)] None [],
      Xml ''Representation''
        [(''codecs'', ''hev1''), (''mimeType'', ''video/mp4''), (''id'', ''1''), (''bandwidth'', ''500'')] None
        [Xml ''SegmentTemplate'' [(''media'', ''a_$Number$.m4s''), (''initialization'', ''a_init.mp4'')] None []]]"

definition sample_elements :: "xml list list" where
  "sample_elements = suffixes_from [sample_set ''0,0,0,1,1,2,1'', sample_set ''0,1,0,1,1,2,1'']"

lemma sample_elements_parse:
  "map_option (map fst) (case reduce_video_sets read_int tree_dom [] sample_elements of
      Inr sets \<Rightarrow> Some sets | Inl e \<Rightarrow> None) = Some [Coordinate 0 0, Coordinate 1 0]"
  by code_simp

theorem video_sets_by_coordinate_witness:
  "\<exists>q. parse_video_adaptation_set read_int tree_dom sample_elements empty_parser = Inr q \<and>
     {c. video_set q c = Inl (Throw Out_of_range_error)} = - {Coordinate 0 0, Coordinate 1 0}"
proof -
  obtain sets where sets: "reduce_video_sets read_int tree_dom [] sample_elements = Inr sets"
    and keys: "map fst sets = [Coordinate 0 0, Coordinate 1 0]"
    using sample_elements_parse by (auto split: sum.splits)
  then have q: "parse_video_adaptation_set read_int tree_dom sample_elements empty_parser =
      Inr (empty_parser\<lparr>video_adaptation_sets := sets\<rparr>)"
    by (simp add: parse_video_adaptation_set_def)
  have "fst ` set sets = {Coordinate 0 0, Coordinate 1 0}"
    using arg_cong [OF keys, of set] by simp
  with video_sets_by_coordinate [OF q] q show ?thesis by auto
qed

section \<open>The frame size\<close>

lemma sum_of_dimensions:
  assumes "\<forall>(c, v)\<in>set sets. set_dimension v = Dimension w h"
  shows "foldr (\<lambda>(c, video_set) acc. Dimension (width (set_dimension video_set) + width acc)
      (height (set_dimension video_set) + height acc)) sets (Dimension 0 0) =
    Dimension (int (length sets) * w) (int (length sets) * h)"
  using assms by (induction sets) (auto simp: algebra_simps)

text \<open>
  The frame size of a uniform grid: when there is one set of size \<open>w\<close> by \<open>h\<close> for each of the
  \<open>columns * rows\<close> tiles, summing the sizes and dividing by the number of rows and of columns gives
  the size of the whole frame. An empty grid divides by zero.
\<close>

lemma frame_size_of_grid:
  assumes "\<forall>(c, v)\<in>set (video_adaptation_sets p). set_dimension v = Dimension w h"
    and "grid p = Coordinate columns rows" and "0 \<le> columns" "0 \<le> rows" "0 \<le> w" "0 \<le> h"
    and "int (length (video_adaptation_sets p)) = columns * rows"
  shows "parse_scale_size p =
    (if columns = 0 \<or> rows = 0 then Inl Undefined_behaviour
     else Inr (p\<lparr>scale := Dimension (columns * w) (rows * h)\<rparr>))"
proof -
  have "(columns * rows * w) sdiv rows = columns * w" if "rows \<noteq> 0"
    using that assms(3-6) by (simp add: mult.commute mult.left_commute)
  moreover have "(columns * rows * h) sdiv columns = rows * h" if "columns \<noteq> 0"
    using that assms(3-6) by (simp add: mult.assoc)
  ultimately show ?thesis
    using assms(2,7) by (auto simp: parse_scale_size_def sum_of_dimensions [OF assms(1)] cdiv_def Let_def)
qed

definition sample_video_set :: "int \<Rightarrow> int \<Rightarrow> video_adaptation_set" where
  "sample_video_set x y = \<lparr>codecs = [], mime_type = [], represents = [], set_coordinate = Coordinate x y,
     set_dimension = Dimension 640 360\<rparr>"

definition sample_parser :: dash_parser where
  "sample_parser = empty_parser\<lparr>grid := Coordinate 3 1,
     video_adaptation_sets := map (\<lambda>x. (Coordinate x 0, sample_video_set x 0)) [0, 1, 2]\<rparr>"

section \<open>Lists of elements\<close>

lemma kept_of_flags:
  "map fst (filter (\<lambda>(x, b). \<not> b) (zip vs (map (\<lambda>_. False) vs))) = vs"
  "filter (\<lambda>(x, b). \<not> b) (zip vs (map (\<lambda>_. True) vs)) = []"
  by (induction vs) auto

text \<open>
  The audio set is taken from the position behind the kept sets. That is the first audio
  element when the audio sets come last in the document; when one comes first, before video sets, it
  is the last video element.
\<close>

theorem audio_set_position:
  "remove_if (map (\<lambda>_. False) videos @ map (\<lambda>_. True) audios) (videos @ audios) =
     (videos @ audios, length videos) \<and>
   (videos = [] \<or> (fst (remove_if (True # map (\<lambda>_. False) videos) (audio # videos))) !
     snd (remove_if (True # map (\<lambda>_. False) videos) (audio # videos)) = last videos)"
proof
  show "remove_if (map (\<lambda>_. False) videos @ map (\<lambda>_. True) audios) (videos @ audios) =
     (videos @ audios, length videos)"
    by (simp add: remove_if_def kept_of_flags)
  have "(audio # videos) ! length videos = last videos" if "videos \<noteq> []"
    using that by (simp add: last_conv_nth nth_Cons')
  then show "videos = [] \<or> (fst (remove_if (True # map (\<lambda>_. False) videos) (audio # videos))) !
     snd (remove_if (True # map (\<lambda>_. False) videos) (audio # videos)) = last videos"
    by (cases videos rule: rev_cases) (auto simp: remove_if_def kept_of_flags nth_append)
qed

end
