(* ===== verification/Dash_Manager.thy ===== *)
theory Dash_Manager
  imports Dash_Protocol Net_Http
begin

text \<open>
  \<^verbatim>\<open>src/network/dash.manager.h\<close> and \<^verbatim>\<open>dash.manager.cpp\<close>: the DASH client. For each tile it predicts the
  representation to download, numbers the segments, requests the initial segment of a representation
  once and every media segment through the HTTP session of the tile.

  The double arithmetic of the prediction and \<^verbatim>\<open>fmt::format\<close> are parameters.
\<close>

section \<open>State\<close>

record stream_context =
  trace :: "nat list"
  trace_index :: nat
  http_session :: "nat outcome" \<comment> \<open>the session, or why there is none\<close>
  drain :: bool

record dash_manager =
  mpd_host :: string
  mpd_path :: string
  mpd_parser :: "dash_parser option"
  contexts :: "coordinate \<Rightarrow> stream_context option"
  drain_count :: int
  sent :: "(nat \<times> http_request) list" \<comment> \<open>requests by session; the position is the handle\<close>

definition manager_create :: "string \<Rightarrow> string \<Rightarrow> dash_manager" where
  "manager_create host_name path =
     \<lparr>mpd_host = host_name, mpd_path = path, mpd_parser = None, contexts = (\<lambda>_. None), drain_count = 0,
      sent = []\<rparr>"

text \<open>\<open>request_stream_index\<close> asks for the MPD through the manager's own session, then parses it.\<close>

definition request_stream_index ::
  "nat outcome \<Rightarrow> (byte list \<Rightarrow> dash_parser outcome) \<Rightarrow> byte list settlement \<Rightarrow> dash_manager \<Rightarrow>
   unit outcome \<times> dash_manager" where
  "request_stream_index session parse response m =
     (case and_then session (\<lambda>s. and_then (make_http_request (mpd_host m) (mpd_path m)) (\<lambda>r. Inr (s, r))) of
        Inl e \<Rightarrow> (Inl e, m)
      | Inr request \<Rightarrow>
          let m1 = m\<lparr>sent := sent m @ [request]\<rparr>
          in case response of
               Settled_exception e \<Rightarrow> (Inl (Throw (fst e)), m1)
             | Settled_value mpd_content \<Rightarrow>
                 (case parse mpd_content of
                    Inl e \<Rightarrow> (Inl e, m1)
                  | Inr p \<Rightarrow> (Inr (), m1\<lparr>mpd_parser := Some p\<rparr>)))"

section \<open>Geometry\<close>

definition frame_size :: "dash_manager \<Rightarrow> dimension outcome" where
  "frame_size m = and_then (deref (mpd_parser m)) (\<lambda>p. Inr (scale p))"

definition grid_size :: "dash_manager \<Rightarrow> coordinate outcome" where
  "grid_size m = and_then (deref (mpd_parser m)) (\<lambda>p. Inr (grid p))"

definition tile_size :: "dash_manager \<Rightarrow> dimension outcome" where
  "tile_size m =
     and_then (frame_size m) (\<lambda>frame. and_then (grid_size m) (\<lambda>g.
       and_then (cdiv (width frame) (col g)) (\<lambda>w. and_then (cdiv (height frame) (row g)) (\<lambda>h.
         Inr (Dimension w h)))))"

definition tile_count :: "dash_manager \<Rightarrow> int outcome" where
  "tile_count m = and_then (grid_size m) (\<lambda>g. Inr (col g * row g))"

section \<open>Draining\<close>

text \<open>The exchange of the flag has an empty branch, so every call counts.\<close>

definition mark_drained :: "coordinate \<Rightarrow> dash_manager \<Rightarrow> dash_manager outcome" where
  "mark_drained c m =
     and_then (deref (contexts m c)) (\<lambda>ctx.
       Inr (m\<lparr>contexts := (contexts m)(c \<mapsto> ctx\<lparr>drain := True\<rparr>), drain_count := drain_count m + 1\<rparr>))"

definition manager_available :: "dash_manager \<Rightarrow> bool" where
  "manager_available m \<longleftrightarrow> drain_count m = 0"

section \<open>Prediction\<close>

text \<open>
  The product of the number of representations and one minus the probability, truncated
  (\<open>trunc_scale\<close>), capped at the last index; the cap wraps around when there is no representation.
\<close>

definition predict_index :: "(nat \<Rightarrow> 'p \<Rightarrow> nat outcome) \<Rightarrow> nat \<Rightarrow> 'p \<Rightarrow> nat outcome" where
  "predict_index trunc_scale represent_size probability =
     and_then (trunc_scale represent_size probability) (\<lambda>index.
       Inr (min index (if represent_size = 0 then 2 ^ 64 - 1 else represent_size - 1)))"

text \<open>A circular buffer of 120 entries keeps the latest.\<close>

definition push_trace :: "nat \<Rightarrow> nat list \<Rightarrow> nat list" where
  "push_trace x xs = (let ys = xs @ [x] in drop (length ys - 120) ys)"

definition predict_represent ::
  "(nat \<Rightarrow> 'p \<Rightarrow> nat outcome) \<Rightarrow> 'p \<Rightarrow> video_adaptation_set \<Rightarrow> stream_context \<Rightarrow>
   (nat \<times> stream_context) outcome" where
  "predict_represent trunc_scale probability vs ctx =
     and_then (predict_index trunc_scale (length (represents vs)) probability) (\<lambda>represent_index.
       if represent_index < length (represents vs)
       then Inr (represent_index,
              ctx\<lparr>trace := push_trace represent_index (trace ctx), trace_index := trace_index ctx + 1\<rparr>)
       else Inl (Throw Out_of_range_error))"

section \<open>Requests\<close>

text \<open>The suffix replaces what follows the last slash of the path of the MPD.\<close>

definition directory_of :: "string \<Rightarrow> string" where
  "directory_of path = rev (dropWhile (\<lambda>c. c \<noteq> CHR ''/'') (rev path))"

definition replace_suffix :: "string \<Rightarrow> string \<Rightarrow> string outcome" where
  "replace_suffix path file_part =
     (if path = [] then Inr file_part
      else assert_that (hd path = CHR ''/'') (Inr (directory_of path @ file_part)))"

definition request_send ::
  "(string \<Rightarrow> nat \<Rightarrow> string outcome) \<Rightarrow> dash_manager \<Rightarrow> stream_context \<Rightarrow> represent \<Rightarrow> bool \<Rightarrow>
   (nat \<times> http_request) outcome" where
  "request_send fmt_format m ctx r is_initial =
     and_then (and_then (if is_initial then Inr (initial r) else fmt_format (media r) (trace_index ctx))
                 (replace_suffix (mpd_path m))) (\<lambda>url_path.
     and_then (http_session ctx) (\<lambda>session.
     and_then (make_http_request (mpd_host m) url_path) (\<lambda>request. Inr (session, request))))"

text \<open>The representation remembers the request of its initial segment.\<close>

definition set_initial_buffer :: "coordinate \<Rightarrow> nat \<Rightarrow> nat \<Rightarrow> dash_parser \<Rightarrow> dash_parser" where
  "set_initial_buffer c i handle p =
     p\<lparr>video_adaptation_sets := map (\<lambda>(k, v). (k,
        if k = c then v\<lparr>represents := (represents v)[i := (represents v ! i)\<lparr>initial_buffer := Some handle\<rparr>]\<rparr>
        else v)) (video_adaptation_sets p)\<rparr>"

definition request_initial_if_null ::
  "(string \<Rightarrow> nat \<Rightarrow> string outcome) \<Rightarrow> dash_manager \<Rightarrow> coordinate \<Rightarrow> stream_context \<Rightarrow> nat \<Rightarrow>
   represent \<Rightarrow> (nat \<times> dash_manager) outcome" where
  "request_initial_if_null fmt_format m c ctx i r =
     (case initial_buffer r of
        Some handle \<Rightarrow> Inr (handle, m)
      | None \<Rightarrow>
          and_then (request_send fmt_format m ctx r True) (\<lambda>request.
            let handle = length (sent m)
            in Inr (handle, m\<lparr>sent := sent m @ [request],
                             mpd_parser := map_option (set_initial_buffer c i handle) (mpd_parser m)\<rparr>)))"

section \<open>The streamer of a tile\<close>

text \<open>Setting up: the context is made once, the session anew.\<close>

definition tile_streamer :: "coordinate \<Rightarrow> nat outcome \<Rightarrow> dash_manager \<Rightarrow> dash_manager outcome" where
  "tile_streamer c session m =
     and_then (deref (mpd_parser m)) (\<lambda>p.
     and_then (video_set p c) (\<lambda>vs.
       assert_that (col (set_coordinate vs) = col c) (
       assert_that (row (set_coordinate vs) = row c) (
         let ctx = snd (access (contexts m c)
               \<lparr>trace = [], trace_index = 0, http_session = Inl (Throw Logic_error), drain = False\<rparr>)
         in Inr (m\<lparr>contexts := (contexts m)(c \<mapsto> ctx\<lparr>http_session := session\<rparr>)\<rparr>)))))"

text \<open>One call of the streamer: the handles of the initial and of the media request.\<close>

definition stream_tile ::
  "(nat \<Rightarrow> 'p \<Rightarrow> nat outcome) \<Rightarrow> (string \<Rightarrow> nat \<Rightarrow> string outcome) \<Rightarrow> coordinate \<Rightarrow> 'p \<Rightarrow> dash_manager \<Rightarrow>
   (nat \<times> nat) outcome \<times> dash_manager" where
  "stream_tile trunc_scale fmt_format c probability m =
     (case and_then (deref (mpd_parser m)) (\<lambda>p. and_then (video_set p c) (\<lambda>vs.
             and_then (deref (contexts m c)) (\<lambda>ctx. Inr (vs, ctx)))) of
        Inl e \<Rightarrow> (Inl e, m)
      | Inr (vs, ctx) \<Rightarrow>
          if drain ctx then (Inl (Throw Stream_drained_error), m)
          else case predict_represent trunc_scale probability vs ctx of
            Inl e \<Rightarrow> (Inl e, m)
          | Inr (i, ctx1) \<Rightarrow>
              let m1 = m\<lparr>contexts := (contexts m)(c \<mapsto> ctx1)\<rparr>; r = represents vs ! i
              in case request_initial_if_null fmt_format m1 c ctx1 i r of
                   Inl e \<Rightarrow> (Inl e, m1)
                 | Inr (initial_segment, m2) \<Rightarrow>
                     (case request_send fmt_format m2 ctx1 r False of
                        Inl e \<Rightarrow> (Inl e, m2)
                      | Inr request \<Rightarrow>
                          (Inr (initial_segment, length (sent m2)), m2\<lparr>sent := sent m2 @ [request]\<rparr>)))"

text \<open>The continuation: a failure of the media segment goes before one of the initial segment.\<close>

definition join_segments :: "'b settlement \<Rightarrow> 'b settlement \<Rightarrow> ('b \<times> 'b) settlement" where
  "join_segments initial_try data_try =
     (case data_try of
        Settled_exception e \<Rightarrow> Settled_exception e
      | Settled_value data_buffer \<Rightarrow>
          (case initial_try of
             Settled_exception e \<Rightarrow> Settled_exception e
           | Settled_value initial_segment \<Rightarrow> Settled_value (initial_segment, data_buffer)))"

fun stream_all ::
  "(nat \<Rightarrow> 'p \<Rightarrow> nat outcome) \<Rightarrow> (string \<Rightarrow> nat \<Rightarrow> string outcome) \<Rightarrow> coordinate \<Rightarrow> 'p list \<Rightarrow> dash_manager \<Rightarrow>
   (nat \<times> nat) outcome list \<times> dash_manager" where
  "stream_all trunc_scale fmt_format c [] m = ([], m)"
| "stream_all trunc_scale fmt_format c (p # ps) m =
     (let (r, m1) = stream_tile trunc_scale fmt_format c p m;
          (rs, m2) = stream_all trunc_scale fmt_format c ps m1
      in (r # rs, m2))"

section \<open>The requests of a tile\<close>

text \<open>
  The abstract streamer: for each chosen representation its initial segment unless it has been
  requested before, then the next media segment.
\<close>

datatype segment = Initial_segment nat | Media_segment nat nat

fun segment_plan :: "nat set \<Rightarrow> nat \<Rightarrow> nat list \<Rightarrow> segment list" where
  "segment_plan seen k [] = []"
| "segment_plan seen k (i # is) =
     (if i \<in> seen then [] else [Initial_segment i]) @ Media_segment i k # segment_plan (insert i seen) (Suc k) is"

fun segment_file :: "represent list \<Rightarrow> (nat \<Rightarrow> nat \<Rightarrow> string) \<Rightarrow> segment \<Rightarrow> string" where
  "segment_file rs media_file (Initial_segment i) = initial (rs ! i)"
| "segment_file rs media_file (Media_segment i k) = media_file i k"

definition segment_request :: "string \<Rightarrow> string \<Rightarrow> string \<Rightarrow> http_request" where
  "segment_request host_name path file_part =
     \<lparr>version = 11, http_method = Get, target = c_str (directory_of path @ file_part), keep_alive = True,
      host = host_name\<rparr>"

definition strip :: "represent \<Rightarrow> represent" where
  "strip r = r\<lparr>initial_buffer := None\<rparr>"

text \<open>The tile streams over the session with the representations \<open>rs\<close>, of which \<open>seen\<close> have been requested.\<close>

definition tile_ready :: "dash_manager \<Rightarrow> coordinate \<Rightarrow> nat \<Rightarrow> represent list \<Rightarrow> nat set \<Rightarrow> nat \<Rightarrow> bool" where
  "tile_ready m c session rs seen k \<longleftrightarrow> (\<exists>p vs ctx. mpd_parser m = Some p \<and> video_set p c = Inr vs \<and>
     contexts m c = Some ctx \<and> \<not> drain ctx \<and> http_session ctx = Inr session \<and> trace_index ctx = k \<and>
     map strip (represents vs) = rs \<and> {i. i < length rs \<and> initial_buffer (represents vs ! i) \<noteq> None} = seen)"

text \<open>A handle stands for the request of a segment; each representation remembers such a handle.\<close>

definition asked :: "dash_manager \<Rightarrow> nat \<Rightarrow> represent list \<Rightarrow> (nat \<Rightarrow> nat \<Rightarrow> string) \<Rightarrow> nat \<Rightarrow> segment \<Rightarrow> bool" where
  "asked m session rs media_file handle g \<longleftrightarrow> handle < length (sent m) \<and>
     sent m ! handle = (session, segment_request (mpd_host m) (mpd_path m) (segment_file rs media_file g))"

definition initials_asked ::
  "dash_manager \<Rightarrow> coordinate \<Rightarrow> nat \<Rightarrow> represent list \<Rightarrow> (nat \<Rightarrow> nat \<Rightarrow> string) \<Rightarrow> bool" where
  "initials_asked m c session rs media_file \<longleftrightarrow>
     (\<forall>p vs i handle. mpd_parser m = Some p \<longrightarrow> video_set p c = Inr vs \<longrightarrow> i < length rs \<longrightarrow>
        initial_buffer (represents vs ! i) = Some handle \<longrightarrow> asked m session rs media_file handle (Initial_segment i))"

lemma asked_mono:
  assumes "asked m session rs media_file handle g"
    and "sent m' = sent m @ xs" "mpd_host m' = mpd_host m" "mpd_path m' = mpd_path m"
  shows "asked m' session rs media_file handle g"
  using assms by (simp add: asked_def nth_append)

lemma initials_unasked:
  "tile_ready m c session rs {} k \<Longrightarrow> initials_asked m c session rs media_file"
  by (auto simp: tile_ready_def initials_asked_def)

lemma strip_fields [simp]:
  "media (strip r) = media r" "initial (strip r) = initial r" "strip (r\<lparr>initial_buffer := b\<rparr>) = strip r"
  by (simp_all add: strip_def)

lemma directory_of_not_Nil: "path \<noteq> [] \<Longrightarrow> hd path = CHR ''/'' \<Longrightarrow> directory_of path \<noteq> []"
  by (cases path) (auto simp: directory_of_def)

lemma request_send_ok:
  assumes "http_session ctx = Inr session" and "mpd_host m \<noteq> []" and "mpd_path m \<noteq> []" and "hd (mpd_path m) = CHR ''/''"
    and "(if b then Inr (initial r) else fmt_format (media r) (trace_index ctx)) = Inr file_part"
  shows "request_send fmt_format m ctx r b = Inr (session, segment_request (mpd_host m) (mpd_path m) file_part)"
  using assms directory_of_not_Nil
  by (simp add: request_send_def replace_suffix_def make_http_request_def segment_request_def)

lemma video_set_set_initial_buffer:
  "video_set p c = Inr vs \<Longrightarrow> video_set (set_initial_buffer c i h p) c =
     Inr (vs\<lparr>represents := (represents vs)[i := (represents vs ! i)\<lparr>initial_buffer := Some h\<rparr>]\<rparr>)"
  by (auto simp: video_set_def set_initial_buffer_def map_of_map_values [where f = "\<lambda>k v. if k = c then _ v else v"]
    split: option.splits)

lemma stream_tile_step:
  assumes ready: "tile_ready m c session rs seen k" and "i < length rs"
    and "predict_index trunc_scale (length rs) p = Inr i"
    and "fmt_format (media (rs ! i)) (Suc k) = Inr (media_file i (Suc k))"
    and url: "mpd_host m \<noteq> []" "mpd_path m \<noteq> []" "hd (mpd_path m) = CHR ''/''"
  shows "\<exists>r m'. stream_tile trunc_scale fmt_format c p m = (Inr r, m') \<and>
    sent m' = sent m @ map (\<lambda>g. (session, segment_request (mpd_host m) (mpd_path m) (segment_file rs media_file g)))
      ((if i \<in> seen then [] else [Initial_segment i]) @ [Media_segment i (Suc k)]) \<and>
    mpd_host m' = mpd_host m \<and> mpd_path m' = mpd_path m \<and> tile_ready m' c session rs (insert i seen) (Suc k) \<and>
    (initials_asked m c session rs media_file \<longrightarrow> initials_asked m' c session rs media_file \<and>
      asked m' session rs media_file (fst r) (Initial_segment i) \<and>
      asked m' session rs media_file (snd r) (Media_segment i (Suc k)))"
proof -
  from ready obtain ps vs ctx where st: "mpd_parser m = Some ps" "video_set ps c = Inr vs"
      "contexts m c = Some ctx" "\<not> drain ctx" "http_session ctx = Inr session" "trace_index ctx = k"
      "map strip (represents vs) = rs" "{i. i < length rs \<and> initial_buffer (represents vs ! i) \<noteq> None} = seen"
    by (auto simp: tile_ready_def)
  have len: "length (represents vs) = length rs" using st(7) by auto
  let ?r = "represents vs ! i"
  have r: "media (rs ! i) = media ?r" "initial (rs ! i) = initial ?r"
    using st(7) assms(2) by auto
  define ctx1 where "ctx1 = ctx\<lparr>trace := push_trace i (trace ctx), trace_index := trace_index ctx + 1\<rparr>"
  have ctx1: "http_session ctx1 = Inr session" "trace_index ctx1 = Suc k" "\<not> drain ctx1"
    using st by (simp_all add: ctx1_def)
  let ?m1 = "m\<lparr>contexts := (contexts m)(c \<mapsto> ctx1)\<rparr>"
  have pred: "predict_represent trunc_scale p vs ctx = Inr (i, ctx1)"
    using assms(2,3) len by (simp add: predict_represent_def ctx1_def)
  have media_ok: "request_send fmt_format m2 ctx1 ?r False =
      Inr (session, segment_request (mpd_host m) (mpd_path m) (media_file i (Suc k)))"
    if "mpd_host m2 = mpd_host m" "mpd_path m2 = mpd_path m" for m2
    using request_send_ok [OF ctx1(1), of m2 False ?r fmt_format "media_file i (Suc k)"] that url assms(4) r ctx1
    by simp
  show ?thesis
  proof (cases "i \<in> seen")
    case True
    then obtain handle where "initial_buffer ?r = Some handle" using st(8) by auto
    then have "stream_tile trunc_scale fmt_format c p m = (Inr (handle, length (sent m)),
        ?m1\<lparr>sent := sent m @ [(session, segment_request (mpd_host m) (mpd_path m) (media_file i (Suc k)))]\<rparr>)"
      using st pred media_ok by (simp add: stream_tile_def request_initial_if_null_def Let_def)
    then show ?thesis
      using True st ctx1 \<open>initial_buffer ?r = Some handle\<close> assms(2)
      by (auto simp: tile_ready_def insert_absorb initials_asked_def asked_def nth_append)
  next
    case False
    then have none: "initial_buffer ?r = None" using st(8) assms(2) by auto
    let ?init = "(session, segment_request (mpd_host m) (mpd_path m) (initial ?r))"
    let ?m2 = "?m1\<lparr>sent := sent m @ [?init], mpd_parser := Some (set_initial_buffer c i (length (sent m)) ps)\<rparr>"
    let ?m3 = "?m2\<lparr>sent := sent m @ [?init] @ [(session, segment_request (mpd_host m) (mpd_path m) (media_file i (Suc k)))]\<rparr>"
    have "request_send fmt_format ?m1 ctx1 ?r True = Inr ?init"
      using request_send_ok [OF ctx1(1), of ?m1 True ?r fmt_format "initial ?r"] url by simp
    then have run: "stream_tile trunc_scale fmt_format c p m = (Inr (length (sent m), Suc (length (sent m))), ?m3)"
      using st pred none media_ok by (simp add: stream_tile_def request_initial_if_null_def Let_def)
    let ?vs = "vs\<lparr>represents := (represents vs)[i := ?r\<lparr>initial_buffer := Some (length (sent m))\<rparr>]\<rparr>"
    have "map strip (represents ?vs) = rs"
      unfolding st(7) [symmetric] by (simp add: map_update) (metis list_update_beyond list_update_id map_update not_le)
    moreover have "{j. j < length rs \<and> initial_buffer (represents ?vs ! j) \<noteq> None} = insert i seen"
      unfolding st(8) [symmetric] using assms(2) len by (auto simp: nth_list_update)
    ultimately have "tile_ready ?m3 c session rs (insert i seen) (Suc k)"
      using video_set_set_initial_buffer [OF st(2), of i "length (sent m)"] ctx1
      by (simp add: tile_ready_def)
    moreover have "initials_asked ?m3 c session rs media_file" if "initials_asked m c session rs media_file"
      using that st(1,2) video_set_set_initial_buffer [OF st(2), of i "length (sent m)"] assms(2) len r
      by (auto simp: initials_asked_def asked_def nth_append nth_list_update split: if_splits)
    ultimately show ?thesis using run False r by (simp add: asked_def nth_append)
  qed
qed

text \<open>The handles of the calls stand for the initial and the media segments, call by call.\<close>

lemma stream_all_handles:
  assumes "tile_ready m c session rs seen k" and "initials_asked m c session rs media_file"
    and "\<forall>p\<in>set ps. predict_index trunc_scale (length rs) p = Inr (pick p) \<and> pick p < length rs"
    and "\<forall>i j. i < length rs \<longrightarrow> fmt_format (media (rs ! i)) j = Inr (media_file i j)"
    and "mpd_host m \<noteq> []" "mpd_path m \<noteq> []" "hd (mpd_path m) = CHR ''/''"
    and "stream_all trunc_scale fmt_format c ps m = (results, m')"
  shows "list_all2 (\<lambda>r (i, n). \<exists>h_initial h_media. r = Inr (h_initial, h_media) \<and>
      asked m' session rs media_file h_initial (Initial_segment i) \<and>
      asked m' session rs media_file h_media (Media_segment i n))
    results (zip (map pick ps) [Suc k..<Suc k + length ps]) \<and>
    (\<exists>xs. sent m' = sent m @ xs) \<and> mpd_host m' = mpd_host m \<and> mpd_path m' = mpd_path m"
  using assms
proof (induction ps arbitrary: m seen k results)
  case (Cons p ps)
  obtain r m1 where step: "stream_tile trunc_scale fmt_format c p m = (Inr r, m1)"
      "\<exists>xs. sent m1 = sent m @ xs" "mpd_host m1 = mpd_host m" "mpd_path m1 = mpd_path m"
      "tile_ready m1 c session rs (insert (pick p) seen) (Suc k)" "initials_asked m1 c session rs media_file"
      "asked m1 session rs media_file (fst r) (Initial_segment (pick p))"
      "asked m1 session rs media_file (snd r) (Media_segment (pick p) (Suc k))"
    using stream_tile_step [OF Cons.prems(1), of "pick p" trunc_scale p fmt_format media_file] Cons.prems
    by auto
  obtain rest where rest: "stream_all trunc_scale fmt_format c ps m1 = (rest, m')" and "results = Inr r # rest"
    using Cons.prems(8) step(1) by (auto simp: split_beta prod_eq_iff)
  from Cons.IH [OF step(5,6) _ _ _ _ _ rest] Cons.prems step(3,4) have
    "list_all2 (\<lambda>r (i, n). \<exists>h_initial h_media. r = Inr (h_initial, h_media) \<and>
      asked m' session rs media_file h_initial (Initial_segment i) \<and>
      asked m' session rs media_file h_media (Media_segment i n))
     rest (zip (map pick ps) [Suc (Suc k)..<Suc (Suc k) + length ps])"
    and grown: "\<exists>xs. sent m' = sent m1 @ xs" "mpd_host m' = mpd_host m1" "mpd_path m' = mpd_path m1"
    by auto
  moreover have "[Suc k..<Suc k + length (p # ps)] = Suc k # [Suc (Suc k)..<Suc (Suc k) + length ps]"
    using upt_conv_Cons [of "Suc k" "Suc k + length (p # ps)"] by (simp del: upt_Suc)
  moreover have "asked m' session rs media_file (fst r) (Initial_segment (pick p))"
    "asked m' session rs media_file (snd r) (Media_segment (pick p) (Suc k))"
    using step(7,8) grown asked_mono by blast+
  ultimately show ?case
    using \<open>results = Inr r # rest\<close> step(2-4) by (cases r) auto
qed auto

text \<open>
  Claim C11. What a tile downloads: with the representations \<open>pick p\<close> picked by the prediction, the
  calls of the streamer request exactly the planned segments, over the tile's session and beside the
  MPD: media segments numbered on from 1 without a gap, and before the first one of a representation
  its initial segment, which is never requested again.
\<close>

theorem tile_requests_planned:
  assumes "tile_ready m c session rs seen k"
    and "\<forall>p\<in>set ps. predict_index trunc_scale (length rs) p = Inr (pick p) \<and> pick p < length rs"
    and "\<forall>i j. i < length rs \<longrightarrow> fmt_format (media (rs ! i)) j = Inr (media_file i j)"
    and "mpd_host m \<noteq> []" "mpd_path m \<noteq> []" "hd (mpd_path m) = CHR ''/''"
  shows "sent (snd (stream_all trunc_scale fmt_format c ps m)) = sent m @
      map (\<lambda>g. (session, segment_request (mpd_host m) (mpd_path m) (segment_file rs media_file g)))
        (segment_plan seen (Suc k) (map pick ps)) \<and>
    list_all (\<lambda>r. \<exists>handles. r = Inr handles) (fst (stream_all trunc_scale fmt_format c ps m))"
  using assms
proof (induction ps arbitrary: m seen k)
  case (Cons p ps)
  obtain r m' where step: "stream_tile trunc_scale fmt_format c p m = (Inr r, m')"
      "sent m' = sent m @ map (\<lambda>g. (session, segment_request (mpd_host m) (mpd_path m) (segment_file rs media_file g)))
        ((if pick p \<in> seen then [] else [Initial_segment (pick p)]) @ [Media_segment (pick p) (Suc k)])"
      "mpd_host m' = mpd_host m" "mpd_path m' = mpd_path m"
      "tile_ready m' c session rs (insert (pick p) seen) (Suc k)"
    using stream_tile_step [OF Cons.prems(1), of "pick p" trunc_scale p fmt_format media_file] Cons.prems
    by auto
  have "sent (snd (stream_all trunc_scale fmt_format c ps m')) = sent m' @
      map (\<lambda>g. (session, segment_request (mpd_host m) (mpd_path m) (segment_file rs media_file g)))
        (segment_plan (insert (pick p) seen) (Suc (Suc k)) (map pick ps)) \<and>
    list_all (\<lambda>r. \<exists>handles. r = Inr handles) (fst (stream_all trunc_scale fmt_format c ps m'))"
    using Cons.IH [OF step(5)] Cons.prems step(3,4) by simp
  with step(1,2) show ?case by (auto simp: split_beta)
qed simp

definition sample_format :: "string \<Rightarrow> nat \<Rightarrow> string outcome" where
  "sample_format s k = (case replace_first ''{}'' (show_nat k) s of None \<Rightarrow> Inl (Throw Logic_error) | Some t \<Rightarrow> Inr t)"

definition sample_represents :: "represent list" where
  "sample_represents =
     [\<lparr>represent_id = 1, bandwidth = 9, media = ''h{}.m4s'', initial = ''h.mp4'', initial_buffer = None\<rparr>,
      \<lparr>represent_id = 2, bandwidth = 5, media = ''l{}.m4s'', initial = ''l.mp4'', initial_buffer = None\<rparr>]"

definition sample_manager :: dash_manager where
  "sample_manager = \<lparr>mpd_host = ''h'', mpd_path = ''/v/a.mpd'',
     mpd_parser = Some (empty_parser\<lparr>video_adaptation_sets := [(Coordinate 0 0,
       \<lparr>codecs = [], mime_type = [], represents = sample_represents, set_coordinate = Coordinate 0 0,
        set_dimension = Dimension 640 360\<rparr>)]\<rparr>),
     contexts = [Coordinate 0 0 \<mapsto> \<lparr>trace = [], trace_index = 0, http_session = Inr 7, drain = False\<rparr>],
     drain_count = 0, sent = []\<rparr>"

text \<open>Two calls with the second representation and one with the first.\<close>

theorem tile_requests_planned_witness:
  "\<exists>media_file. sent (snd (stream_all (\<lambda>n p. Inr p) sample_format (Coordinate 0 0) [5, 1, 0] sample_manager)) =
     map (\<lambda>g. (7, segment_request ''h'' ''/v/a.mpd'' (segment_file sample_represents media_file g)))
       [Initial_segment 1, Media_segment 1 1, Media_segment 1 2, Initial_segment 0, Media_segment 0 3]"
proof -
  let ?f = "\<lambda>i j. (if i = 0 then ''h'' else ''l'') @ show_nat j @ ''.m4s''"
  have "tile_ready sample_manager (Coordinate 0 0) 7 sample_represents {} 0"
    by (auto simp: tile_ready_def sample_manager_def sample_represents_def video_set_def strip_def
      nth_Cons' empty_parser_def)
  moreover have "\<forall>p\<in>set [5, 1, 0]. predict_index (\<lambda>n p. Inr p) (length sample_represents) p = Inr (min p 1) \<and>
      min p 1 < length sample_represents"
    by (simp add: predict_index_def sample_represents_def)
  moreover have "\<forall>i j. i < length sample_represents \<longrightarrow> sample_format (media (sample_represents ! i)) j = Inr (?f i j)"
    by (simp add: sample_represents_def sample_format_def less_Suc_eq nth_Cons')
  moreover have "mpd_host sample_manager = ''h''" "mpd_path sample_manager = ''/v/a.mpd''" "sent sample_manager = []"
    by (simp_all add: sample_manager_def)
  ultimately show ?thesis
    using tile_requests_planned [of sample_manager "Coordinate 0 0" 7 sample_represents "{}" 0 "[5, 1, 0]"
        "\<lambda>n p. Inr p" "\<lambda>p. min p 1" sample_format ?f]
    by (intro exI [of _ ?f]) (simp add: numeral_2_eq_2 numeral_3_eq_3 del: stream_all.simps)
qed

section \<open>Geometry of a uniform grid\<close>

text \<open>
  On a manifest with one set of size \<open>w\<close> by \<open>h\<close> for each tile of a \<open>columns\<close> by \<open>rows\<close> grid,
  the manager reports the size of the whole frame, tiles of size \<open>w\<close> by \<open>h\<close>, and as many tiles as there
  are sets.
\<close>

theorem tile_size_of_grid:
  assumes "parse_scale_size p = Inr q" and "mpd_parser m = Some q"
    and "\<forall>(c, v)\<in>set (video_adaptation_sets p). set_dimension v = Dimension w h"
    and "grid p = Coordinate columns rows" and "0 < columns" "0 < rows" "0 \<le> w" "0 \<le> h"
    and "int (length (video_adaptation_sets p)) = columns * rows"
  shows "frame_size m = Inr (Dimension (columns * w) (rows * h)) \<and> tile_size m = Inr (Dimension w h) \<and>
    tile_count m = Inr (int (length (video_adaptation_sets p)))"
proof -
  have q: "q = p\<lparr>scale := Dimension (columns * w) (rows * h)\<rparr>"
    using frame_size_of_grid [OF assms(3,4)] assms by simp
  then have "frame_size m = Inr (Dimension (columns * w) (rows * h))" "grid_size m = Inr (Coordinate columns rows)"
    using assms(2,4) by (simp_all add: frame_size_def grid_size_def)
  then show ?thesis
    using assms(5-9) by (simp add: tile_size_def tile_count_def cdiv_def)
qed

theorem tile_size_of_grid_witness:
  "\<exists>q m. parse_scale_size sample_parser = Inr q \<and> mpd_parser m = Some q \<and>
     frame_size m = Inr (Dimension 1920 360) \<and> tile_size m = Inr (Dimension 640 360) \<and> tile_count m = Inr 3"
proof -
  obtain q where q: "parse_scale_size sample_parser = Inr q"
    by (simp add: parse_scale_size_def sample_parser_def sample_video_set_def empty_parser_def cdiv_def Let_def)
  have m: "mpd_parser (sample_manager\<lparr>mpd_parser := Some q\<rparr>) = Some q" by simp
  show ?thesis
    using tile_size_of_grid [OF q m, of 640 360 3 1] q
    by (intro exI [of _ q] exI [of _ "sample_manager\<lparr>mpd_parser := Some q\<rparr>"])
      (simp add: sample_parser_def sample_video_set_def empty_parser_def)
qed

end
