(* ===== verification/Player.thy ===== *)
theory Player
  imports Tile_Stream Player_Config Dash_Manager
begin

text \<open>
  The player of \<^verbatim>\<open>src/gallery/plugin.cpp\<close>: the numbering of tiles, the table and the cache of tile
  streams, the functions the engine calls and the dispatch of texture events. A pointer to a stream is its position in the table, whose entries never move
  before the table is cleared. The manager's future is given by whether it is ready and its result.
\<close>

section \<open>State\<close>

record 'f player =
  grid_of_frame :: coordinate
  scale_of_frame :: dimension
  scale_of_tile :: dimension
  count_of_tiles :: int
  stream_table :: "'f tile_stream list"
  stream_cache :: "nat option list"
  field_of_view :: coordinate
  stream_ended :: bool
  stream_runs :: bool

section \<open>Numbering tiles\<close>

definition tile_index :: "coordinate \<Rightarrow> int \<Rightarrow> int \<Rightarrow> int" where
  "tile_index frame_grid c r = c + r * col frame_grid + 1"

definition tile_coordinate :: "coordinate \<Rightarrow> int \<Rightarrow> (int \<times> int) outcome" where
  "tile_coordinate frame_grid i =
     (if col frame_grid = 0 then Inl Undefined_behaviour
      else Inr ((i - 1) smod col frame_grid, (i - 1) sdiv col frame_grid))"

definition inside :: "coordinate \<Rightarrow> int \<Rightarrow> int \<Rightarrow> bool" where
  "inside frame_grid c r \<longleftrightarrow> 0 \<le> c \<and> c < col frame_grid \<and> 0 \<le> r \<and> r < row frame_grid"

lemma tile_index_coordinate:
  assumes "inside g c r"
  shows "tile_coordinate g (tile_index g c r) = Inr (c, r)"
  using assms by (simp add: inside_def tile_coordinate_def tile_index_def)

lemma tile_index_inj:
  "inside g c r \<Longrightarrow> inside g d q \<Longrightarrow> tile_index g c r = tile_index g d q \<longleftrightarrow> c = d \<and> r = q"
  using tile_index_coordinate by (metis Inr_inject prod.inject)

lemma tile_index_range:
  assumes "inside g c r"
  shows "1 \<le> tile_index g c r" and "tile_index g c r \<le> col g * row g"
proof -
  have "r * col g \<le> (row g - 1) * col g"
    using assms by (intro mult_right_mono) (auto simp: inside_def)
  moreover have "c < col g" using assms by (simp add: inside_def)
  ultimately have "c + r * col g < col g + (row g - 1) * col g" by linarith
  also have "\<dots> = col g * row g" by (simp add: algebra_simps)
  finally show "tile_index g c r \<le> col g * row g" by (simp add: tile_index_def)
  have "0 \<le> r * col g" using assms by (simp add: inside_def)
  with assms show "1 \<le> tile_index g c r" unfolding tile_index_def inside_def by linarith
qed

section \<open>Information from the manager\<close>

text \<open>
  The callback given to the manager. Both offsets are computed from the columns, and the answer does not
  depend on them.
\<close>

definition trim_offset :: "int \<Rightarrow> int \<Rightarrow> int \<Rightarrow> int" where
  "trim_offset tile_place view frame =
     (let distance = \<bar>tile_place - view\<bar> in if distance > frame sdiv 2 then frame - distance else distance)"

definition predict_callback :: "'f player \<Rightarrow> int \<Rightarrow> int \<Rightarrow> int outcome" where
  "predict_callback p tile_col tile_row =
     (let col_offset = trim_offset tile_col (col (field_of_view p)) (col (grid_of_frame p));
          row_offset = trim_offset tile_col (col (field_of_view p)) (col (grid_of_frame p))
      in assert_that (col_offset \<ge> 0 \<and> row_offset \<ge> 0) (Inr 1))"

definition native_dash_graphic_info ::
  "nat \<Rightarrow> dash_manager option \<Rightarrow> ('u, 'j, 'r) config \<times> 'f player \<Rightarrow>
   ((int \<times> int \<times> int \<times> int) option \<times> ('u, 'j, 'r) config \<times> 'f player) outcome" where
  "native_dash_graphic_info hardware_concurrency manager = (\<lambda>(c, p).
     case manager of
       None \<Rightarrow> Inr (None, c, p)
     | Some m \<Rightarrow>
         and_then (grid_size m) (\<lambda>g. and_then (frame_size m) (\<lambda>f. and_then (tile_size m) (\<lambda>t.
         and_then (tile_count m) (\<lambda>n.
           let p1 = p\<lparr>grid_of_frame := g, scale_of_frame := f, scale_of_tile := t, count_of_tiles := n\<rparr>;
               divisor = nat (n mod 2 ^ 32)
           in if divisor = 0 then Inl Undefined_behaviour
              else let c1 = c\<lparr>decoder_concurrency := assign_alternate (Some (max 1 (hardware_concurrency div divisor)))
                     (decoder_concurrency c)\<rparr>
                   in assert_that (read_alternate (decoder_concurrency c1) \<ge> 1)
                     (assert_that (read_alternate (network_concurrency c1) \<ge> 2)
                     (assert_that (read_alternate (executor_concurrency c1) \<ge> 2)
                       (Inr (Some (col g, row g, width f, height f), c1, p1)))))))))"

section \<open>The table of tile streams\<close>

text \<open>The insertion fails when the number or the coordinate is there; the cache is sized on first use.\<close>

definition table_accepts :: "'f tile_stream \<Rightarrow> 'f tile_stream list \<Rightarrow> bool" where
  "table_accepts t table \<longleftrightarrow>
     (\<forall>u\<in>set table. tile_number u \<noteq> tile_number t \<and> tile_coordinate_of u \<noteq> tile_coordinate_of t)"

definition native_dash_create_tile_stream ::
  "bool \<Rightarrow> nat \<Rightarrow> int \<Rightarrow> int \<Rightarrow> int \<Rightarrow> 'f player \<Rightarrow> (nat \<times> 'f player) outcome" where
  "native_dash_create_tile_stream manager_has_value capacity c r i p =
     assert_that manager_has_value
       (let t = make_stream_context (with_capacity capacity 15 (with_offset (c * width (scale_of_tile p))
                  (r * height (scale_of_tile p)) (with_coordinate c r (with_index i default_options))))
        in assert_that (table_accepts t (stream_table p))
          (let pointer = length (stream_table p);
               cache = (if stream_cache p = [] then replicate (nat (count_of_tiles p)) None else stream_cache p)
           in if 0 \<le> i - 1 \<and> nat (i - 1) < length cache
              then Inr (pointer, p\<lparr>stream_table := stream_table p @ [t], stream_cache := cache[nat (i - 1) := Some pointer]\<rparr>)
              else Inl (Throw Out_of_range_error)))"

text \<open>The streams whose decoding threads are started.\<close>

definition native_dash_prefetch :: "bool \<Rightarrow> 'f player \<Rightarrow> coordinate list outcome" where
  "native_dash_prefetch manager_has_value p =
     assert_that (int (length (stream_table p)) = col (grid_of_frame p) * row (grid_of_frame p))
       (assert_that manager_has_value
         (assert_that (fst (stream_available (None :: 'f frame option option) (stream_ended p)))
           (Inr (map tile_coordinate_of (stream_table p)))))"

definition native_dash_available :: "'f player \<Rightarrow> bool" where
  "native_dash_available p = fst (stream_available (None :: 'f frame option option) (stream_ended p))"

text \<open>A poll through a pointer, and by coordinate; modifying at the end of the table is undefined.\<close>

definition native_dash_tile_ptr_poll_update :: "bool \<Rightarrow> nat \<Rightarrow> 'f player \<Rightarrow> (bool \<times> 'f player) outcome" where
  "native_dash_tile_ptr_poll_update enable pointer p =
     (if pointer < length (stream_table p)
      then (let (answer, ended, t) = tile_poll_update enable (stream_ended p, stream_table p ! pointer)
            in Inr (answer, p\<lparr>stream_ended := ended, stream_table := (stream_table p)[pointer := t]\<rparr>))
      else Inl Undefined_behaviour)"

fun position_of :: "('a \<Rightarrow> bool) \<Rightarrow> 'a list \<Rightarrow> nat option" where
  "position_of P [] = None"
| "position_of P (x # xs) = (if P x then Some 0 else map_option Suc (position_of P xs))"

definition native_dash_tile_poll_update :: "bool \<Rightarrow> int \<Rightarrow> int \<Rightarrow> 'f player \<Rightarrow> (bool \<times> 'f player) outcome" where
  "native_dash_tile_poll_update enable c r p =
     (case position_of (\<lambda>t. tile_coordinate_of t = Coordinate c r) (stream_table p) of
        None \<Rightarrow> Inl Undefined_behaviour
      | Some pointer \<Rightarrow> native_dash_tile_ptr_poll_update enable pointer p)"

definition native_dash_tile_field_of_view :: "int \<Rightarrow> int \<Rightarrow> 'f player \<Rightarrow> 'f player" where
  "native_dash_tile_field_of_view c r p = p\<lparr>field_of_view := Coordinate c r\<rparr>"

section \<open>Texture events\<close>

datatype texture_event = Update_begin | Update_end | Unknown_event

text \<open>The user data names the tile's place in the cache and the plane; a bad place is undefined.\<close>

definition on_texture_update_event ::
  "('f frame \<Rightarrow> nat \<Rightarrow> 'd) \<Rightarrow> texture_event \<Rightarrow> nat \<Rightarrow> bool \<Rightarrow> 'f player \<Rightarrow> ('d option \<times> 'f player) outcome" where
  "on_texture_update_event plane_data event user_data format_ok p =
     (let place = user_data div 3; planar = user_data mod 3
      in if \<not> native_dash_available p then Inr (None, p)
         else if place \<ge> length (stream_cache p) then Inl Undefined_behaviour
         else case stream_cache p ! place of
                None \<Rightarrow> Inl Undefined_behaviour
              | Some pointer \<Rightarrow>
                  (case event of
                     Update_begin \<Rightarrow>
                       and_then (texture_begin plane_data planar format_ok (stream_ended p, stream_table p ! pointer))
                         (\<lambda>(data, ended, t). Inr (data, p\<lparr>stream_ended := ended, stream_table := (stream_table p)[pointer := t]\<rparr>))
                   | Update_end \<Rightarrow>
                       and_then (texture_end planar (stream_table p ! pointer))
                         (\<lambda>t. Inr (None, p\<lparr>stream_table := (stream_table p)[pointer := t]\<rparr>))
                   | Unknown_event \<Rightarrow> Inl Assert_failed))"

section \<open>Creating the streams of a grid\<close>

fun create_tiles :: "nat \<Rightarrow> (int \<times> int) list \<Rightarrow> 'f player \<Rightarrow> 'f player outcome" where
  "create_tiles capacity [] p = Inr p"
| "create_tiles capacity ((c, r) # cs) p =
     and_then (native_dash_create_tile_stream True capacity c r (tile_index (grid_of_frame p) c r) p)
       (\<lambda>(pointer, p1). create_tiles capacity cs p1)"

definition tile_at :: "'f player \<Rightarrow> nat \<Rightarrow> int \<times> int \<Rightarrow> bool" where
  "tile_at p k = (\<lambda>(c, r). k < length (stream_table p) \<and>
     stream_cache p ! nat (tile_index (grid_of_frame p) c r - 1) = Some k \<and>
     tile_number (stream_table p ! k) = tile_index (grid_of_frame p) c r \<and>
     tile_coordinate_of (stream_table p ! k) = Coordinate c r \<and>
     tile_offset (stream_table p ! k) = Dimension (c * width (scale_of_tile p)) (r * height (scale_of_tile p)))"

definition tiles_ok :: "(int \<times> int) list \<Rightarrow> 'f player \<Rightarrow> bool" where
  "tiles_ok cs p \<longleftrightarrow> length (stream_table p) = length cs \<and>
     (cs \<noteq> [] \<or> stream_cache p \<noteq> [] \<longrightarrow> length (stream_cache p) = nat (count_of_tiles p)) \<and>
     (\<forall>k<length cs. tile_at p k (cs ! k))"

lemma tile_fields [simp]:
  "tile_number (make_stream_context (with_capacity n m (with_offset w h (with_coordinate c r (with_index i s))))) = i"
  "tile_coordinate_of (make_stream_context (with_capacity n m (with_offset w h (with_coordinate c r (with_index i s))))) = Coordinate c r"
  "tile_offset (make_stream_context (with_capacity n m (with_offset w h (with_coordinate c r (with_index i s))))) = Dimension w h"
  by (simp_all add: make_stream_context_def with_capacity_def with_offset_def with_coordinate_def with_index_def)

lemma create_tile_ok:
  assumes ok: "tiles_ok cs p" and "\<forall>(d, q)\<in>set cs. inside (grid_of_frame p) d q" and "inside (grid_of_frame p) c r"
    and "(c, r) \<notin> set cs" and count: "count_of_tiles p = col (grid_of_frame p) * row (grid_of_frame p)"
  shows "\<exists>t cache. native_dash_create_tile_stream True capacity c r (tile_index (grid_of_frame p) c r) p =
      Inr (length cs, p\<lparr>stream_table := stream_table p @ [t], stream_cache := cache\<rparr>) \<and>
    tiles_ok (cs @ [(c, r)]) (p\<lparr>stream_table := stream_table p @ [t], stream_cache := cache\<rparr>)"
proof -
  let ?g = "grid_of_frame p"
  let ?i = "tile_index ?g c r"
  let ?t = "make_stream_context (with_capacity capacity 15 (with_offset (c * width (scale_of_tile p))
    (r * height (scale_of_tile p)) (with_coordinate c r (with_index ?i default_options)))) :: 'a tile_stream"
  let ?cache = "if stream_cache p = [] then replicate (nat (count_of_tiles p)) None else stream_cache p"
  have length: "length (stream_table p) = length cs" using ok by (simp add: tiles_ok_def)
  have old: "tile_at p k (cs ! k)" if "k < length cs" for k using ok that by (simp add: tiles_ok_def)
  have other: "tile_index ?g d q \<noteq> ?i" if "(d, q) \<in> set cs" for d q
    using assms(2-4) that tile_index_inj [of ?g d q c r] by auto
  have "table_accepts ?t (stream_table p)"
    unfolding table_accepts_def
  proof
    fix u assume "u \<in> set (stream_table p)"
    then obtain k where k: "k < length cs" "u = stream_table p ! k" by (auto simp: in_set_conv_nth length)
    obtain d q where dq: "cs ! k = (d, q)" by (cases "cs ! k")
    with k have "(d, q) \<in> set cs" by (metis nth_mem)
    with other [of d q] assms(4) old [OF k(1)] dq k show "tile_number u \<noteq> tile_number ?t \<and> tile_coordinate_of u \<noteq> tile_coordinate_of ?t"
      by (auto simp: tile_at_def)
  qed
  moreover have range: "0 \<le> ?i - 1" "nat (?i - 1) < length ?cache"
    using tile_index_range [OF assms(3)] ok count by (auto simp: tiles_ok_def)
  ultimately have run: "native_dash_create_tile_stream True capacity c r ?i p = Inr (length cs,
      p\<lparr>stream_table := stream_table p @ [?t], stream_cache := ?cache[nat (?i - 1) := Some (length cs)]\<rparr>)"
    by (simp add: native_dash_create_tile_stream_def Let_def length)
  let ?p1 = "p\<lparr>stream_table := stream_table p @ [?t], stream_cache := ?cache[nat (?i - 1) := Some (length cs)]\<rparr>"
  have "tile_at ?p1 k ((cs @ [(c, r)]) ! k)" if "k < length (cs @ [(c, r)])" for k
  proof (cases "k < length cs")
    case True
    obtain d q where dq: "cs ! k = (d, q)" by (cases "cs ! k")
    with True have dq_in: "(d, q) \<in> set cs" by (metis nth_mem)
    have "stream_cache p \<noteq> []"
      using range True ok by (auto simp: tiles_ok_def split: if_splits)
    moreover have "nat (tile_index ?g d q - 1) \<noteq> nat (?i - 1)"
      using other [OF dq_in] range(1) tile_index_range(1) [of ?g d q] assms(2) dq_in by auto
    ultimately show ?thesis
      using old [OF True] dq True by (simp add: tile_at_def nth_append length)
  next
    case False
    with that have "k = length cs" by simp
    then show ?thesis
      using range by (simp add: tile_at_def nth_append length)
  qed
  moreover have "length ?cache = nat (count_of_tiles p)" using ok by (simp add: tiles_ok_def)
  ultimately have "tiles_ok (cs @ [(c, r)]) ?p1" by (simp add: tiles_ok_def length)
  with run show ?thesis by blast
qed

lemma create_tiles_ok:
  assumes "tiles_ok done p" and "\<forall>(c, r)\<in>set (done @ cs). inside (grid_of_frame p) c r" and "distinct (done @ cs)"
    and "count_of_tiles p = col (grid_of_frame p) * row (grid_of_frame p)"
  shows "\<exists>table cache. create_tiles capacity cs p = Inr (p\<lparr>stream_table := table, stream_cache := cache\<rparr>) \<and>
    tiles_ok (done @ cs) (p\<lparr>stream_table := table, stream_cache := cache\<rparr>)"
  using assms
proof (induction cs arbitrary: "done" p)
  case Nil
  then show ?case by (intro exI [of _ "stream_table p"] exI [of _ "stream_cache p"]) simp
next
  case (Cons x cs)
  obtain c r where x: "x = (c, r)" by (cases x)
  obtain t cache where step: "native_dash_create_tile_stream True capacity c r (tile_index (grid_of_frame p) c r) p =
      Inr (length done, p\<lparr>stream_table := stream_table p @ [t], stream_cache := cache\<rparr>)"
    and ok: "tiles_ok (done @ [(c, r)]) (p\<lparr>stream_table := stream_table p @ [t], stream_cache := cache\<rparr>)"
    using create_tile_ok [OF Cons.prems(1), of c r capacity] Cons.prems x by auto
  from Cons.IH [OF ok] Cons.prems x step show ?case by simp
qed

text \<open>
  Claim C25. When the engine creates a stream for each of a list of different tiles of the grid, with
  the numbers of \<open>tile_index\<close>, no call fails; afterwards the table has one stream for each call in order,
  with the tile's coordinate, number and pixel offset, and the cache leads from the tile's number to it.
  When the list is the whole grid, prefetching starts exactly these streams.
\<close>

theorem tiles_created:
  assumes "stream_table p = []" and "stream_cache p = []" and "distinct cs"
    and "\<forall>(c, r)\<in>set cs. inside (grid_of_frame p) c r"
    and "count_of_tiles p = col (grid_of_frame p) * row (grid_of_frame p)"
  shows "\<exists>p'. create_tiles capacity cs p = Inr p' \<and> length (stream_table p') = length cs \<and>
    (\<forall>k<length cs. tile_at p' k (cs ! k)) \<and>
    (\<not> stream_ended p \<and> int (length cs) = col (grid_of_frame p) * row (grid_of_frame p) \<longrightarrow>
      native_dash_prefetch True p' = Inr (map (\<lambda>(c, r). Coordinate c r) cs))"
proof -
  have "tiles_ok [] p" using assms(1,2) by (simp add: tiles_ok_def)
  from create_tiles_ok [OF this, of cs capacity] assms(3-5)
  obtain table cache where run: "create_tiles capacity cs p = Inr (p\<lparr>stream_table := table, stream_cache := cache\<rparr>)"
    and ok: "tiles_ok cs (p\<lparr>stream_table := table, stream_cache := cache\<rparr>)" by auto
  let ?p = "p\<lparr>stream_table := table, stream_cache := cache\<rparr>"
  have tiles: "length (stream_table ?p) = length cs" "\<forall>k<length cs. tile_at ?p k (cs ! k)"
    using ok by (auto simp: tiles_ok_def)
  then have "map tile_coordinate_of (stream_table ?p) = map (\<lambda>(c, r). Coordinate c r) cs"
    by (intro nth_equalityI) (auto simp: tile_at_def split: prod.splits)
  with tiles have "native_dash_prefetch True ?p = Inr (map (\<lambda>(c, r). Coordinate c r) cs)"
    if "\<not> stream_ended p" "int (length cs) = col (grid_of_frame p) * row (grid_of_frame p)"
    using that by (simp add: native_dash_prefetch_def stream_available_def)
  with run tiles show ?thesis by blast
qed

definition sample_player :: "nat player" where
  "sample_player = \<lparr>grid_of_frame = Coordinate 2 2, scale_of_frame = Dimension 640 360, scale_of_tile = Dimension 320 180,
     count_of_tiles = 4, stream_table = [], stream_cache = [], field_of_view = Coordinate 0 0, stream_ended = False,
     stream_runs = True\<rparr>"

theorem tiles_created_witness:
  "\<exists>p'. create_tiles 30 [(0, 0), (0, 1), (1, 0), (1, 1)] sample_player = Inr p' \<and>
     tile_at p' 2 (1, 0) \<and>
     native_dash_prefetch True p' = Inr [Coordinate 0 0, Coordinate 0 1, Coordinate 1 0, Coordinate 1 1]"
proof -
  have "\<forall>(c, r)\<in>set [(0, 0), (0, 1), (1, 0), (1, 1)]. inside (grid_of_frame sample_player) c r"
    by (simp add: sample_player_def inside_def)
  with tiles_created [of sample_player "[(0, 0), (0, 1), (1, 0), (1, 1)]" 30]
  obtain p' where p': "create_tiles 30 [(0, 0), (0, 1), (1, 0), (1, 1)] sample_player = Inr p'"
    "\<forall>k<4. tile_at p' k ([(0, 0), (0, 1), (1, 0), (1, 1)] ! k)"
    "native_dash_prefetch True p' = Inr [Coordinate 0 0, Coordinate 0 1, Coordinate 1 0, Coordinate 1 1]"
    by (auto simp: sample_player_def)
  with spec [OF p'(2), of 2] show ?thesis by auto
qed

section \<open>Reaching a tile\<close>

text \<open>What the engine does with the streams once they are created.\<close>

inductive player_step :: "('f frame \<Rightarrow> nat \<Rightarrow> 'd) \<Rightarrow> bool \<Rightarrow> 'f player \<Rightarrow> 'f player \<Rightarrow> bool"
  for plane_data enable where
  polled: "native_dash_tile_ptr_poll_update enable pointer p = Inr (answer, p') \<Longrightarrow> player_step plane_data enable p p'"
| polled_at: "native_dash_tile_poll_update enable c r p = Inr (answer, p') \<Longrightarrow> player_step plane_data enable p p'"
| texture: "on_texture_update_event plane_data event user_data format_ok p = Inr (data, p') \<Longrightarrow> player_step plane_data enable p p'"
| viewed: "player_step plane_data enable p (native_dash_tile_field_of_view c r p)"

text \<open>A handler keeps the place of its stream: the number, the coordinate and the offset.\<close>

definition same_base :: "'f tile_stream \<Rightarrow> 'f tile_stream \<Rightarrow> bool" where
  "same_base t u \<longleftrightarrow> tile_number t = tile_number u \<and> tile_coordinate_of t = tile_coordinate_of u \<and> tile_offset t = tile_offset u"

lemma handlers_keep_base:
  "tile_poll_update enable (e, t) = (a, e', t') \<Longrightarrow> same_base t' t"
  "texture_begin plane_data planar ok (e, t) = Inr (d, e', t') \<Longrightarrow> same_base t' t"
  "texture_end planar t = Inr t' \<Longrightarrow> same_base t' t"
  by (auto simp: tile_poll_update_def texture_begin_def texture_end_def same_base_def Let_def outcome_simps
      split: list.splits decode_frame.splits if_splits prod.splits)

definition keeps_places :: "'f player \<Rightarrow> 'f player \<Rightarrow> bool" where
  "keeps_places p p' \<longleftrightarrow> stream_cache p' = stream_cache p \<and> grid_of_frame p' = grid_of_frame p \<and>
     scale_of_tile p' = scale_of_tile p \<and> count_of_tiles p' = count_of_tiles p \<and>
     length (stream_table p') = length (stream_table p) \<and>
     (\<forall>k<length (stream_table p). same_base (stream_table p' ! k) (stream_table p ! k))"

lemma keeps_places_update:
  "same_base t (stream_table p ! k) \<Longrightarrow> keeps_places p (p\<lparr>stream_ended := e, stream_table := (stream_table p)[k := t]\<rparr>)"
  "same_base t (stream_table p ! k) \<Longrightarrow> keeps_places p (p\<lparr>stream_table := (stream_table p)[k := t]\<rparr>)"
  by (cases "k < length (stream_table p)"; auto simp: keeps_places_def same_base_def nth_list_update)+

lemma keeps_places_refl: "keeps_places p p"
  by (simp add: keeps_places_def same_base_def)

lemma poll_keeps_places:
  "native_dash_tile_ptr_poll_update enable pointer p = Inr (answer, p') \<Longrightarrow> keeps_places p p'"
  using handlers_keep_base(1)
  by (fastforce simp: native_dash_tile_ptr_poll_update_def Let_def intro: keeps_places_update split: if_splits prod.splits)

lemma texture_keeps_places:
  "on_texture_update_event plane_data event user_data format_ok p = Inr (data, p') \<Longrightarrow> keeps_places p p'"
  by (auto simp: on_texture_update_event_def Let_def outcome_simps
      intro: keeps_places_update keeps_places_refl handlers_keep_base
      split: if_splits prod.splits option.splits texture_event.splits)

lemma player_step_keeps_places: "player_step plane_data enable p p' \<Longrightarrow> keeps_places p p'"
proof (induction rule: player_step.induct)
  case (polled_at c r p answer p')
  then show ?case
    by (auto simp: native_dash_tile_poll_update_def intro: poll_keeps_places split: option.splits)
next
  case (viewed p c r)
  show ?case by (simp add: keeps_places_def same_base_def native_dash_tile_field_of_view_def)
qed (auto intro: poll_keeps_places texture_keeps_places)

lemma tiles_ok_step: "player_step plane_data enable p p' \<Longrightarrow> tiles_ok cs p \<Longrightarrow> tiles_ok cs p'"
  using player_step_keeps_places [of plane_data enable p p']
  by (auto simp: tiles_ok_def keeps_places_def tile_at_def same_base_def split: prod.splits)

lemma steps_keep_tiles:
  "(player_step plane_data enable)\<^sup>*\<^sup>* p p' \<Longrightarrow> tiles_ok cs p \<Longrightarrow> tiles_ok cs p' \<and> grid_of_frame p' = grid_of_frame p \<and>
     count_of_tiles p' = count_of_tiles p"
proof (induction rule: rtranclp_induct)
  case (step q r)
  then have "keeps_places q r" by (intro player_step_keeps_places)
  with step tiles_ok_step [OF step(2), of cs] show ?case by (simp add: keeps_places_def)
qed simp

lemma position_of_unique:
  assumes "k < length xs" and "P (xs ! k)" and "\<forall>j<length xs. P (xs ! j) \<longrightarrow> j = k"
  shows "position_of P xs = Some k"
  using assms
proof (induction xs arbitrary: k)
  case (Cons x xs)
  show ?case
  proof (cases k)
    case 0
    with Cons.prems show ?thesis by simp
  next
    case (Suc j)
    have "\<not> P x" using Cons.prems(3) Suc by force
    moreover have "position_of P xs = Some j"
      using Cons.prems Suc by (intro Cons.IH) force+
    ultimately show ?thesis by (simp add: Suc)
  qed
qed simp

lemma tile_at_position:
  assumes ok: "tiles_ok cs p" and "distinct cs" and k: "k < length cs" and "cs ! k = (c, r)"
  shows "position_of (\<lambda>t. tile_coordinate_of t = Coordinate c r) (stream_table p) = Some k"
proof (rule position_of_unique)
  have length: "length (stream_table p) = length cs" using ok by (simp add: tiles_ok_def)
  have at: "tile_at p j (cs ! j)" if "j < length cs" for j using ok that by (simp add: tiles_ok_def)
  show "k < length (stream_table p)" "tile_coordinate_of (stream_table p ! k) = Coordinate c r"
    using at [OF k] assms(4) by (auto simp: tile_at_def)
  show "\<forall>j<length (stream_table p). tile_coordinate_of (stream_table p ! j) = Coordinate c r \<longrightarrow> j = k"
  proof (intro allI impI)
    fix j assume j: "j < length (stream_table p)" "tile_coordinate_of (stream_table p ! j) = Coordinate c r"
    with at [of j] length have "cs ! j = (c, r)" by (cases "cs ! j") (auto simp: tile_at_def)
    with j(1) length assms(2-4) show "j = k" by (metis nth_eq_iff_index_eq)
  qed
qed

text \<open>
  Once the streams of different tiles of the grid are created, whatever polls, texture events
  and changes of the view follow: polling a tile by its coordinate is polling its own stream, and a
  texture event whose user data is three times the tile's place plus a plane updates that plane of the
  same stream, with an index that is inside the cache.
\<close>

theorem tile_is_reached:
  assumes "stream_table p = []" and "stream_cache p = []" and "distinct cs"
    and "\<forall>(c, r)\<in>set cs. inside (grid_of_frame p) c r"
    and "count_of_tiles p = col (grid_of_frame p) * row (grid_of_frame p)"
    and "create_tiles capacity cs p = Inr p1" and "(player_step plane_data enable)\<^sup>*\<^sup>* p1 p'"
    and "k < length cs" and "cs ! k = (c, r)" and "planar < 3"
  shows "native_dash_tile_poll_update enable c r p' = native_dash_tile_ptr_poll_update enable k p' \<and>
    tile_coordinate_of (stream_table p' ! k) = Coordinate c r \<and>
    (\<not> stream_ended p' \<longrightarrow>
      on_texture_update_event plane_data Update_begin (3 * nat (tile_index (grid_of_frame p) c r - 1) + planar) format_ok p' =
        and_then (texture_begin plane_data planar format_ok (False, stream_table p' ! k)) (\<lambda>(data, ended, t).
          Inr (data, p'\<lparr>stream_ended := ended, stream_table := (stream_table p')[k := t]\<rparr>)))"
proof -
  have "tiles_ok [] p" using assms(1,2) by (simp add: tiles_ok_def)
  from create_tiles_ok [OF this, of cs capacity] assms(3-6)
  obtain table cache where p1: "p1 = p\<lparr>stream_table := table, stream_cache := cache\<rparr>" and "tiles_ok cs p1" by auto
  with steps_keep_tiles [OF assms(7)] have ok: "tiles_ok cs p'" and grid: "grid_of_frame p' = grid_of_frame p"
    and count: "count_of_tiles p' = count_of_tiles p" by auto
  from ok assms(8,9) have "tile_at p' k (c, r)" unfolding tiles_ok_def by metis
  then have at: "stream_cache p' ! nat (tile_index (grid_of_frame p) c r - 1) = Some k"
    "tile_coordinate_of (stream_table p' ! k) = Coordinate c r" by (simp_all add: tile_at_def grid)
  have "inside (grid_of_frame p) c r" using assms(4,8,9) by (metis case_prodD nth_mem)
  from tile_index_range [OF this] have "nat (tile_index (grid_of_frame p) c r - 1) < length (stream_cache p')"
    using ok assms(5,8) count by (auto simp: tiles_ok_def)
  with at tile_at_position [OF ok assms(3,8,9)] assms(10) show ?thesis
    by (simp add: native_dash_tile_poll_update_def on_texture_update_event_def native_dash_available_def
        stream_available_def Let_def)
qed

theorem tile_is_reached_witness:
  "\<exists>p'. create_tiles 30 [(0, 0), (0, 1), (1, 0), (1, 1)] sample_player = Inr p' \<and>
     native_dash_tile_poll_update True 1 0 p' = native_dash_tile_ptr_poll_update True 2 p'"
proof -
  have "\<exists>p1. create_tiles 30 [(0, 0), (0, 1), (1, 0), (1, 1)] sample_player = Inr p1"
    by (simp add: sample_player_def native_dash_create_tile_stream_def table_accepts_def tile_index_def Let_def)
  then obtain p1 where p1: "create_tiles 30 [(0, 0), (0, 1), (1, 0), (1, 1)] sample_player = Inr p1" by blast
  have "\<forall>(c, r)\<in>set [(0, 0), (0, 1), (1, 0), (1, 1)]. inside (grid_of_frame sample_player) c r"
    by (simp add: sample_player_def inside_def)
  with tile_is_reached [OF _ _ _ _ _ p1 rtranclp.rtrancl_refl, where k = 2 and c = 1 and r = 0 and planar = 0 and enable = True
      and plane_data = sample_plane] p1 show ?thesis
    by (auto simp: sample_player_def)
qed

text \<open>
  Claim C26. Tiles are numbered from 1 without a gap: the number of a tile of the grid lies between 1 and
  the number of tiles and is read back as the tile, and every number in that range is the number of the
  tile it is read as.
\<close>

theorem tile_numbering_round_trip:
  assumes "0 < col g"
  shows "(inside g c r \<longrightarrow> 1 \<le> tile_index g c r \<and> tile_index g c r \<le> col g * row g \<and>
      tile_coordinate g (tile_index g c r) = Inr (c, r)) \<and>
    (1 \<le> i \<and> i \<le> col g * row g \<longrightarrow>
      (\<exists>c' r'. tile_coordinate g i = Inr (c', r') \<and> inside g c' r' \<and> tile_index g c' r' = i))"
proof (intro conjI impI)
  assume i: "1 \<le> i \<and> i \<le> col g * row g"
  have "(i - 1) div col g * col g \<le> i - 1"
    using pos_mod_sign [OF assms, of "i - 1"] by (simp add: minus_mod_eq_div_mult [symmetric] del: pos_mod_sign)
  also have "\<dots> < row g * col g" using i by (simp add: mult.commute)
  finally have "(i - 1) div col g < row g"
    using assms by (simp add: mult_less_cancel_right)
  with i assms show "\<exists>c' r'. tile_coordinate g i = Inr (c', r') \<and> inside g c' r' \<and> tile_index g c' r' = i"
    by (auto simp: tile_coordinate_def inside_def tile_index_def pos_imp_zdiv_nonneg_iff)
qed (use tile_index_range tile_index_coordinate in auto)

theorem tile_numbering_round_trip_witness:
  "tile_coordinate (Coordinate 3 2) (tile_index (Coordinate 3 2) 2 1) = Inr (2, 1) \<and>
   (\<exists>c r. tile_coordinate (Coordinate 3 2) 4 = Inr (c, r) \<and> inside (Coordinate 3 2) c r \<and> tile_index (Coordinate 3 2) c r = 4)"
  using tile_numbering_round_trip [of "Coordinate 3 2" 2 1 4] by (simp add: inside_def)

section \<open>The prediction callback\<close>

lemma trim_offset_circular:
  assumes "0 \<le> t" "t < n" "0 \<le> v" "v < n"
  shows "trim_offset t v n = min \<bar>t - v\<bar> (n - \<bar>t - v\<bar>)" and "0 \<le> trim_offset t v n"
proof -
  have half: "n sdiv 2 = n div 2" and d: "0 \<le> \<bar>t - v\<bar>" "\<bar>t - v\<bar> < n" using assms by simp_all
  have "(if n div 2 < d then n - d else d) = min d (n - d) \<and> 0 \<le> min d (n - d)" if "0 \<le> d" "d < n" for d
    using that unfolding min_def by presburger
  from this [OF d] show "trim_offset t v n = min \<bar>t - v\<bar> (n - \<bar>t - v\<bar>)" "0 \<le> trim_offset t v n"
    by (simp_all add: trim_offset_def half Let_def)
qed

text \<open>The row of a tile and of the view make no difference.\<close>

lemma predict_callback_ignores_rows:
  "predict_callback p c r = predict_callback (p\<lparr>field_of_view := Coordinate (col (field_of_view p)) v\<rparr>) c q"
  by (simp add: predict_callback_def)

lemma predict_callback_inside:
  assumes "0 \<le> c" "c < col (grid_of_frame p)" "0 \<le> col (field_of_view p)" "col (field_of_view p) < col (grid_of_frame p)"
  shows "predict_callback p c r = Inr 1"
  using trim_offset_circular(2) [OF assms] by (simp add: predict_callback_def)

end
