(* ===== verification/Segmentor.thy ===== *)
theory Segmentor
  imports Media
begin

text \<open>
  \<^verbatim>\<open>src/multimedia/io.segmentor.h\<close> and \<^verbatim>\<open>io.segmentor.cpp\<close>: the segmentor turns the bytes of a segment
  into frames, one at a time. \<open>frame_pipeline\<close> is what FFmpeg promises, \<open>frame_source\<close> what the
  segmentor promises to its client: a queue of frames.
\<close>

section \<open>State\<close>

record ('d, 'c, 'f) segmentor =
  format_context :: 'd
  codec_context :: "'c codec_context"
  remain_frames :: "'f list"

text \<open>The libraries behind a segmentor.\<close>

record ('d, 'c, 'f) codec_library =
  av_read_frame :: "'d \<Rightarrow> av_packet option \<times> 'd"
  codec_type :: "nat \<Rightarrow> int"
  avcodec_send_packet :: "'c \<Rightarrow> av_packet \<Rightarrow> int \<times> 'c"
  avcodec_receive_frame :: "'c \<Rightarrow> 'f option \<times> 'c"

text \<open>The parse of a segment makes the io, format and codec context anew and keeps the frames that remain.\<close>

definition parse_context ::
  "('d, 'c, 'f) segmentor option \<Rightarrow> ('d \<times> 'c codec_context) outcome \<Rightarrow> ('d, 'c, 'f) segmentor outcome" where
  "parse_context impl opened =
     and_then opened (\<lambda>(d, k).
       Inr (case impl of
              None \<Rightarrow> \<lparr>format_context = d, codec_context = k, remain_frames = []\<rparr>
            | Some s \<Rightarrow> s\<lparr>format_context := d, codec_context := k\<rparr>))"

definition codec_available :: "('d, 'c, 'f) segmentor \<Rightarrow> bool" where
  "codec_available s = valid (codec_context s)"

text \<open>What of the implementation there is: the object and its three contexts.\<close>

definition context_valid :: "bool \<Rightarrow> bool \<Rightarrow> bool \<Rightarrow> bool \<Rightarrow> bool" where
  "context_valid impl_set io_set format_set codec_set = (impl_set \<and> io_set \<and> format_set \<and> codec_set)"

section \<open>Consuming\<close>

text \<open>
  The loop of \<open>try_consume_once\<close>: read a video packet, decode it, keep the first frame as the result
  and the others for later, until there is a frame or the packet was empty.
\<close>

partial_function (option) consume_loop ::
  "('d, 'c, 'f) codec_library \<Rightarrow> ('d, 'c, 'f) segmentor \<Rightarrow> ('f option outcome \<times> ('d, 'c, 'f) segmentor) option" where
  "consume_loop lib s =
     (case read_packet (av_read_frame lib) (codec_type lib) Video_type (format_context s) of
        None \<Rightarrow> None
      | Some (packet, d) \<Rightarrow>
          (case decode (avcodec_send_packet lib) (avcodec_receive_frame lib) packet (codec_context s) of
             None \<Rightarrow> None
           | Some (Inl e, k) \<Rightarrow> Some (Inl e, s\<lparr>format_context := d, codec_context := k\<rparr>)
           | Some (Inr frames, k) \<Rightarrow>
               let s1 = s\<lparr>format_context := d, codec_context := k\<rparr>
               in case frames of
                    frame # others \<Rightarrow> Some (Inr (Some frame), s1\<lparr>remain_frames := remain_frames s1 @ others\<rparr>)
                  | [] \<Rightarrow>
                      if packet_empty (Some packet) then Some (Inr None, s1)
                      else consume_loop lib s1))"

definition try_consume_once ::
  "('d, 'c, 'f) codec_library \<Rightarrow> ('d, 'c, 'f) segmentor \<Rightarrow> ('f option outcome \<times> ('d, 'c, 'f) segmentor) option" where
  "try_consume_once lib s =
     (case remain_frames s of
        frame # others \<Rightarrow> Some (Inr (Some frame), s\<lparr>remain_frames := others\<rparr>)
      | [] \<Rightarrow> if valid (codec_context s) then consume_loop lib s else Some (Inr None, s))"

text \<open>The overload with a consumer hands it the frame when there is one.\<close>

definition try_consume_with ::
  "('d, 'c, 'f) codec_library \<Rightarrow> ('f \<Rightarrow> 'w \<Rightarrow> 'w) \<Rightarrow> ('d, 'c, 'f) segmentor \<times> 'w \<Rightarrow>
   (bool outcome \<times> ('d, 'c, 'f) segmentor \<times> 'w) option" where
  "try_consume_with lib pixel_consume st =
     (case try_consume_once lib (fst st) of
        None \<Rightarrow> None
      | Some (Inl e, s1) \<Rightarrow> Some (Inl e, s1, snd st)
      | Some (Inr None, s1) \<Rightarrow> Some (Inr False, s1, snd st)
      | Some (Inr (Some frame), s1) \<Rightarrow> Some (Inr True, s1, pixel_consume frame (snd st)))"

text \<open>\<open>try_consume\<close> decodes one packet or, dropping it, answers one null frame for a packet that is not empty.\<close>

definition try_consume ::
  "('d, 'c, 'f) codec_library \<Rightarrow> bool \<Rightarrow> ('d, 'c, 'f) segmentor \<Rightarrow>
   ('f option list outcome \<times> ('d, 'c, 'f) segmentor) option" where
  "try_consume lib drop_packet s =
     (if valid (codec_context s)
      then (case read_packet (av_read_frame lib) (codec_type lib) Video_type (format_context s) of
              None \<Rightarrow> None
            | Some (packet, d) \<Rightarrow>
                let s1 = s\<lparr>format_context := d\<rparr>
                in if drop_packet
                   then Some (Inr (if packet_empty (Some packet) then [] else [None]), s1)
                   else map_option (\<lambda>(r, k). (and_then r (\<lambda>fs. Inr (map Some fs)), s1\<lparr>codec_context := k\<rparr>))
                          (decode (avcodec_send_packet lib) (avcodec_receive_frame lib) packet (codec_context s1)))
      else Some (Inl (Throw Stream_drained_error), s))"

definition try_read ::
  "('d, 'c, 'f) codec_library \<Rightarrow> ('d, 'c, 'f) segmentor \<Rightarrow> (bool \<times> ('d, 'c, 'f) segmentor) option" where
  "try_read lib s =
     map_option (\<lambda>(packet, d). (\<not> packet_empty (Some packet), s\<lparr>format_context := d\<rparr>))
       (read_packet (av_read_frame lib) (codec_type lib) Video_type (format_context s))"

text \<open>
  The deferred overloads ask on an executor; their futures hold a frame, or the call that hands it to the
  consumer, and an exception of the filter, a logic error, when there is none.
\<close>

definition defer_consume_once ::
  "('d, 'c, 'f) codec_library \<Rightarrow> ('d, 'c, 'f) segmentor \<Rightarrow> ('f outcome \<times> ('d, 'c, 'f) segmentor) option" where
  "defer_consume_once lib s =
     (case try_consume_once lib s of
        None \<Rightarrow> None
      | Some (Inl e, s1) \<Rightarrow> Some (Inl e, s1)
      | Some (Inr None, s1) \<Rightarrow> Some (Inl (Throw Logic_error), s1)
      | Some (Inr (Some frame), s1) \<Rightarrow> Some (Inr frame, s1))"

definition defer_consume_with ::
  "('d, 'c, 'f) codec_library \<Rightarrow> ('f \<Rightarrow> 'w \<Rightarrow> 'w) \<Rightarrow> ('d, 'c, 'f) segmentor \<Rightarrow>
   (('w \<Rightarrow> 'w) outcome \<times> ('d, 'c, 'f) segmentor) option" where
  "defer_consume_with lib pixel_consume s =
     map_option (\<lambda>(r, s1). (and_then r (\<lambda>frame. Inr (pixel_consume frame)), s1)) (defer_consume_once lib s)"

text \<open>Calling what the future holds is what the overload that waits does.\<close>

lemma defer_consume_same:
  "try_consume_with lib pixel_consume (s, w) =
     (case defer_consume_with lib pixel_consume s of
        None \<Rightarrow> None
      | Some (Inr f, s1) \<Rightarrow> Some (Inr True, s1, f w)
      | Some (Inl e, s1) \<Rightarrow>
          if \<exists>s2. try_consume_once lib s = Some (Inr None, s2) then Some (Inr False, s1, w) else Some (Inl e, s1, w))"
  by (auto simp: try_consume_with_def defer_consume_with_def defer_consume_once_def split: option.splits sum.splits)

section \<open>What the client relies on: a queue of frames\<close>

text \<open>\<open>pull n\<close> asks \<open>n\<close> times and collects the answers.\<close>

fun pull :: "('s \<Rightarrow> ('f option outcome \<times> 's) option) \<Rightarrow> nat \<Rightarrow> 's \<Rightarrow> ('f option outcome list \<times> 's) option" where
  "pull once 0 s = Some ([], s)"
| "pull once (Suc n) s =
     (case once s of
        None \<Rightarrow> None
      | Some (r, s1) \<Rightarrow> map_option (\<lambda>(rs, s2). (r # rs, s2)) (pull once n s1))"

locale frame_source =
  fixes once :: "'s \<Rightarrow> ('f option outcome \<times> 's) option"
    and content :: "'s \<Rightarrow> 'f list"
    and ok :: "'s \<Rightarrow> bool"
  assumes once_head: "ok s \<Longrightarrow> content s = f # fs \<Longrightarrow>
      \<exists>t. once s = Some (Inr (Some f), t) \<and> content t = fs \<and> ok t"
    and once_end: "ok s \<Longrightarrow> content s = [] \<Longrightarrow> \<exists>t. once s = Some (Inr None, t) \<and> content t = [] \<and> ok t"
begin

lemma pull_content:
  "ok s \<Longrightarrow> \<exists>t. pull once n s =
     Some (map (\<lambda>f. Inr (Some f)) (take n (content s)) @ replicate (n - length (content s)) (Inr None), t) \<and>
     content t = drop n (content s) \<and> ok t"
proof (induction n arbitrary: s)
  case (Suc n)
  show ?case
  proof (cases "content s")
    case Nil
    from once_end [OF Suc.prems Nil] obtain t where "once s = Some (Inr None, t)" "content t = []" "ok t" by blast
    with Suc.IH [of t] Nil show ?thesis by auto
  next
    case (Cons f fs)
    from once_head [OF Suc.prems Cons] obtain t where "once s = Some (Inr (Some f), t)" "content t = fs" "ok t" by blast
    with Suc.IH [of t] Cons show ?thesis by auto
  qed
qed simp

end

section \<open>What the libraries promise\<close>

text \<open>
  The demultiplexer has a list of packets left, and the decoder, once it has been sent a packet, a
  list of frames ready, which it gives out in order. \<open>ready c p\<close> is the decoder after it has taken a
  packet in and given out all its frames.
\<close>

locale frame_pipeline =
  fixes lib :: "('d, 'c, 'f) codec_library"
    and left :: "'d \<Rightarrow> av_packet list"
    and queue :: "'c \<Rightarrow> 'f list"
  assumes read_some: "left d = p # ps \<Longrightarrow> \<exists>d1. av_read_frame lib d = (Some p, d1) \<and> left d1 = ps"
    and read_none: "left d = [] \<Longrightarrow> \<exists>d1. av_read_frame lib d = (None, d1) \<and> left d1 = []"
    and send_ok: "0 \<le> fst (avcodec_send_packet lib c p)"
    and receive_some: "queue c = f # fs \<Longrightarrow> \<exists>c1. avcodec_receive_frame lib c = (Some f, c1) \<and> queue c1 = fs"
    and receive_none: "queue c = [] \<Longrightarrow> \<exists>c1. avcodec_receive_frame lib c = (None, c1) \<and> queue c1 = []"
begin

definition is_video :: "av_packet \<Rightarrow> bool" where
  "is_video p \<longleftrightarrow> codec_type lib (stream_index p) = type_value Video_type"

lemma is_video_underlying:
  "underlying_same type_value id Video_type (codec_type lib (stream_index p)) \<longleftrightarrow> is_video p"
  by (auto simp: is_video_def underlying_same_def)

text \<open>The decoder after taking out every frame that is ready.\<close>

definition drained :: "'c \<Rightarrow> 'c" where
  "drained c = snd (the (receive_frames (avcodec_receive_frame lib) c))"

lemma receive_frames_queue:
  "receive_frames (avcodec_receive_frame lib) c = Some (queue c, drained c)"
proof -
  have "\<exists>c1. receive_frames (avcodec_receive_frame lib) c = Some (fs, c1)" if "queue c = fs" for fs
    using that
  proof (induction fs arbitrary: c)
    case Nil
    with receive_none [of c] show ?case by (subst receive_frames.simps) auto
  next
    case (Cons f fs)
    from receive_some [OF Cons.prems] obtain c1 where "avcodec_receive_frame lib c = (Some f, c1)" "queue c1 = fs"
      by blast
    with Cons.IH [of c1] show ?case by (subst receive_frames.simps) auto
  qed
  then show ?thesis by (auto simp: drained_def)
qed

text \<open>All frames that the packets give, decoded one after the other.\<close>

fun decoded :: "'c \<Rightarrow> av_packet list \<Rightarrow> 'f list" where
  "decoded c [] = []"
| "decoded c (p # ps) =
     (let c1 = snd (avcodec_send_packet lib c p) in queue c1 @ decoded (drained c1) ps)"

lemma read_packet_video:
  "\<exists>d1. read_packet (av_read_frame lib) (codec_type lib) Video_type d =
     Some (case filter is_video (left d) of [] \<Rightarrow> blank_packet | p # ps \<Rightarrow> p, d1) \<and>
     filter is_video (left d1) = tl (filter is_video (left d))"
proof -
  have "\<exists>d1. read_packet (av_read_frame lib) (codec_type lib) Video_type d =
      Some (case filter is_video ps of [] \<Rightarrow> blank_packet | p # ps \<Rightarrow> p, d1) \<and>
      filter is_video (left d1) = tl (filter is_video ps)" if "left d = ps" for ps
    using that
  proof (induction ps arbitrary: d)
    case Nil
    with read_none [of d] show ?case by (subst read_packet.simps) auto
  next
    case (Cons p ps)
    from read_some [OF Cons.prems] obtain d1 where d1: "av_read_frame lib d = (Some p, d1)" "left d1 = ps"
      by blast
    with Cons.IH [of d1] show ?case
      by (subst read_packet.simps) (auto simp: is_video_underlying)
  qed
  then show ?thesis by blast
qed

text \<open>The frames still to come: the remaining ones, then those of the video packets and of the flush.\<close>

definition to_come :: "('d, 'c, 'f) segmentor \<Rightarrow> 'f list" where
  "to_come s = remain_frames s @
     (if flushed (codec_context s) then []
      else decoded (decoder (codec_context s)) (filter is_video (left (format_context s)) @ [blank_packet]))"

text \<open>The video stream is the first stream, and a video packet is not empty.\<close>

definition sound :: "('d, 'c, 'f) segmentor \<Rightarrow> bool" where
  "sound s \<longleftrightarrow> flushed (codec_context s) \<or> format_stream (codec_context s) = 0 \<and>
     (\<forall>p\<in>set (filter is_video (left (format_context s))). stream_index p = 0 \<and> packet_data p \<noteq> [])"

lemma decode_frames:
  assumes "\<not> flushed k" and "format_stream k = stream_index p"
  shows "decode (avcodec_send_packet lib) (avcodec_receive_frame lib) p k =
    (let c1 = snd (avcodec_send_packet lib (decoder k) p)
     in Some (Inr (queue c1), k\<lparr>flushed := packet_empty (Some p), decoder := drained c1,
          dispose_count := dispose_count k + length (queue c1)\<rparr>))"
  using assms send_ok [of "decoder k" p] receive_frames_queue
  by (simp add: decode_def Let_def split_beta)

text \<open>One packet read and decoded: the frames it gives are the next of those to come.\<close>

lemma next_packet:
  assumes "sound s" and "\<not> flushed (codec_context s)" and "remain_frames s = []"
  obtains p d1 fs k1 where
    "read_packet (av_read_frame lib) (codec_type lib) Video_type (format_context s) = Some (p, d1)"
    "decode (avcodec_send_packet lib) (avcodec_receive_frame lib) p (codec_context s) = Some (Inr fs, k1)"
    "flushed k1 = packet_empty (Some p)"
    "sound (s\<lparr>format_context := d1, codec_context := k1\<rparr>)"
    "to_come s = fs @ to_come (s\<lparr>format_context := d1, codec_context := k1\<rparr>)"
    "\<not> packet_empty (Some p) \<Longrightarrow>
      length (filter is_video (left d1)) < length (filter is_video (left (format_context s)))"
proof -
  let ?k = "codec_context s" and ?d = "format_context s"
  define p where "p = (case filter is_video (left ?d) of [] \<Rightarrow> blank_packet | p # ps \<Rightarrow> p)"
  obtain d1 where read: "read_packet (av_read_frame lib) (codec_type lib) Video_type ?d = Some (p, d1)"
    and d1: "filter is_video (left d1) = tl (filter is_video (left ?d))"
    using read_packet_video [of ?d] by (auto simp: p_def)
  have zero: "format_stream ?k = 0" using assms by (simp add: sound_def)
  have p: "filter is_video (left ?d) = [] \<and> p = blank_packet \<or>
      filter is_video (left ?d) \<noteq> [] \<and> stream_index p = 0 \<and> packet_data p \<noteq> []"
  proof (cases "filter is_video (left ?d)")
    case (Cons q qs)
    then have "p = q" and "q \<in> set (filter is_video (left ?d))" by (simp_all add: p_def)
    with assms Cons show ?thesis unfolding sound_def by (metis list.distinct(1))
  qed (simp add: p_def)
  then have "stream_index p = 0" by (auto simp: blank_packet_def)
  let ?c1 = "snd (avcodec_send_packet lib (decoder ?k) p)"
  let ?k1 = "?k\<lparr>flushed := packet_empty (Some p), decoder := drained ?c1,
    dispose_count := dispose_count ?k + length (queue ?c1)\<rparr>"
  have dec: "decode (avcodec_send_packet lib) (avcodec_receive_frame lib) p ?k = Some (Inr (queue ?c1), ?k1)"
    using decode_frames [of ?k p] assms(2) zero \<open>stream_index p = 0\<close> by (simp add: Let_def)
  have empty: "packet_empty (Some p) \<longleftrightarrow> filter is_video (left ?d) = []"
    using p by (auto simp: packet_empty_def blank_packet_def)
  show thesis
  proof (rule that [OF read dec])
    show "sound (s\<lparr>format_context := d1, codec_context := ?k1\<rparr>)"
      using assms d1 zero by (cases "filter is_video (left ?d)") (auto simp: sound_def)
    show "to_come s = queue ?c1 @ to_come (s\<lparr>format_context := d1, codec_context := ?k1\<rparr>)"
      using assms d1 empty by (cases "filter is_video (left ?d)") (auto simp: to_come_def p_def Let_def)
    show "\<not> packet_empty (Some p) \<Longrightarrow> length (filter is_video (left d1)) < length (filter is_video (left ?d))"
      using d1 empty by (cases "filter is_video (left ?d)") auto
  qed simp
qed

lemma consume_loop_frames:
  assumes "sound s" and "\<not> flushed (codec_context s)" and "remain_frames s = []"
  shows "\<exists>t. consume_loop lib s =
      Some (Inr (case to_come s of [] \<Rightarrow> None | f # fs \<Rightarrow> Some f), t) \<and>
      to_come t = tl (to_come s) \<and> sound t"
  using assms
proof (induction "length (filter is_video (left (format_context s)))" arbitrary: s rule: less_induct)
  case less
  from next_packet [OF less.prems] obtain p d1 fs k1 where
    read: "read_packet (av_read_frame lib) (codec_type lib) Video_type (format_context s) = Some (p, d1)"
    and dec: "decode (avcodec_send_packet lib) (avcodec_receive_frame lib) p (codec_context s) = Some (Inr fs, k1)"
    and k1: "flushed k1 = packet_empty (Some p)"
    and sound1: "sound (s\<lparr>format_context := d1, codec_context := k1\<rparr>)"
    and come: "to_come s = fs @ to_come (s\<lparr>format_context := d1, codec_context := k1\<rparr>)"
    and shorter: "\<not> packet_empty (Some p) \<Longrightarrow>
      length (filter is_video (left d1)) < length (filter is_video (left (format_context s)))"
    by blast
  let ?s1 = "s\<lparr>format_context := d1, codec_context := k1\<rparr>"
  show ?case
  proof (cases fs)
    case (Cons f others)
    let ?t = "?s1\<lparr>remain_frames := others\<rparr>"
    have "consume_loop lib s = Some (Inr (Some f), ?t)"
      using read dec Cons less.prems(3) by (subst consume_loop.simps) (simp add: Let_def)
    moreover have "to_come ?t = others @ to_come ?s1" "sound ?t"
      using sound1 less.prems(3) by (simp_all add: to_come_def sound_def)
    ultimately show ?thesis using come Cons by auto
  next
    case Nil
    show ?thesis
    proof (cases "packet_empty (Some p)")
      case True
      then have "consume_loop lib s = Some (Inr None, ?s1)"
        using read dec Nil by (subst consume_loop.simps) (simp add: Let_def)
      moreover have "to_come ?s1 = []" using True k1 less.prems(3) by (simp add: to_come_def)
      ultimately show ?thesis using come Nil sound1 by auto
    next
      case False
      then have step: "consume_loop lib s = consume_loop lib ?s1"
        using read dec Nil by (subst consume_loop.simps) (simp add: Let_def)
      from less.hyps [of ?s1] shorter [OF False] sound1 False k1 less.prems(3) obtain t where
        "consume_loop lib ?s1 = Some (Inr (case to_come ?s1 of [] \<Rightarrow> None | f # fs \<Rightarrow> Some f), t)"
        "to_come t = tl (to_come ?s1)" "sound t" by auto
      with step come Nil show ?thesis by auto
    qed
  qed
qed

text \<open>\<open>try_consume\<close> gives the frames of the next packet, and nothing is left once the codec is flushed.\<close>

lemma try_consume_frames:
  assumes "sound s" and "codec_available s" and "remain_frames s = []"
  shows "\<exists>fs t. try_consume lib False s = Some (Inr (map Some fs), t) \<and>
    to_come s = fs @ to_come t \<and> sound t \<and> remain_frames t = []"
proof -
  have "\<not> flushed (codec_context s)" using assms(2) by (simp add: codec_available_def valid_def)
  from next_packet [OF assms(1) this assms(3)] assms(2,3) show ?thesis
    by (fastforce simp: try_consume_def codec_available_def)
qed

lemma drained_come: "\<not> codec_available s \<Longrightarrow> remain_frames s = [] \<Longrightarrow> to_come s = []"
  by (simp add: codec_available_def valid_def to_come_def)

lemma try_consume_once_frames:
  assumes "sound s"
  shows "\<exists>t. try_consume_once lib s =
      Some (Inr (case to_come s of [] \<Rightarrow> None | f # fs \<Rightarrow> Some f), t) \<and>
      to_come t = tl (to_come s) \<and> sound t"
proof (cases "remain_frames s")
  case (Cons f fs)
  then show ?thesis
    using assms by (auto simp: try_consume_once_def to_come_def sound_def)
next
  case Nil
  show ?thesis
  proof (cases "flushed (codec_context s)")
    case True
    then show ?thesis using Nil assms by (simp add: try_consume_once_def valid_def to_come_def)
  next
    case False
    with consume_loop_frames [OF assms False Nil] Nil show ?thesis
      by (simp add: try_consume_once_def valid_def)
  qed
qed

end

text \<open>So a segmentor over such libraries is a queue of frames.\<close>

sublocale frame_pipeline \<subseteq> segmentor_queue: frame_source "try_consume_once lib" to_come sound
proof unfold_locales
  fix s f fs assume "sound s" "to_come s = f # fs"
  with try_consume_once_frames [of s] show "\<exists>t. try_consume_once lib s = Some (Inr (Some f), t) \<and> to_come t = fs \<and> sound t"
    by auto
next
  fix s assume "sound s" "to_come s = []"
  with try_consume_once_frames [of s] show "\<exists>t. try_consume_once lib s = Some (Inr None, t) \<and> to_come t = [] \<and> sound t"
    by auto
qed

context frame_pipeline
begin

text \<open>So futures get the frames one by one, and then the logic error.\<close>

lemma deferred_frames:
  assumes "sound s"
  shows "\<exists>t. sound t \<and> to_come t = tl (to_come s) \<and>
    defer_consume_once lib s = Some (case to_come s of [] \<Rightarrow> Inl (Throw Logic_error) | f # fs \<Rightarrow> Inr f, t)"
proof (cases "to_come s")
  case Nil
  with segmentor_queue.once_end [OF assms] show ?thesis by (auto simp: defer_consume_once_def)
next
  case (Cons f fs)
  with segmentor_queue.once_head [OF assms Cons] show ?thesis by (auto simp: defer_consume_once_def)
qed

text \<open>A segmentor freshly opened over a demultiplexer and a decoder.\<close>

definition opened :: "'d \<Rightarrow> 'c \<Rightarrow> ('d, 'c, 'f) segmentor" where
  "opened d c = \<lparr>format_context = d,
     codec_context = \<lparr>decoder = c, format_stream = 0, dispose_count = 0, flushed = False\<rparr>, remain_frames = []\<rparr>"

lemma opened_frames:
  assumes "\<forall>p\<in>set (left d). is_video p \<longrightarrow> stream_index p = 0 \<and> packet_data p \<noteq> []"
  shows "map_option fst (pull (try_consume_once lib) n (opened d c)) =
    (let frames = decoded c (filter is_video (left d) @ [blank_packet])
     in Some (map (\<lambda>f. Inr (Some f)) (take n frames) @ replicate (n - length frames) (Inr None)))"
proof -
  have "sound (opened d c)" using assms by (simp add: sound_def opened_def)
  from segmentor_queue.pull_content [OF this, of n] show ?thesis
    by (auto simp: to_come_def opened_def Let_def)
qed

end

section \<open>A decoder with a delay\<close>

text \<open>
  An instance of the libraries: the demultiplexer is a list of packets, and the decoder holds back one
  frame, which it gives out with the next packet or when it is flushed.
\<close>

definition delay_send :: "nat list \<times> nat list \<Rightarrow> av_packet \<Rightarrow> int \<times> nat list \<times> nat list" where
  "delay_send c p =
     (if packet_data p = [] then (0, [], snd c @ fst c)
      else (0, [length (packet_data p)], snd c @ fst c))"

definition delay_lib :: "(av_packet list, nat list \<times> nat list, nat) codec_library" where
  "delay_lib = \<lparr>av_read_frame = (\<lambda>d. case d of [] \<Rightarrow> (None, []) | p # ps \<Rightarrow> (Some p, ps)),
     codec_type = (\<lambda>k. if k = 0 then 0 else 1),
     avcodec_send_packet = delay_send,
     avcodec_receive_frame = (\<lambda>c. case snd c of [] \<Rightarrow> (None, c) | f # fs \<Rightarrow> (Some f, (fst c, fs)))\<rparr>"

lemma delay_fields [simp]:
  "av_read_frame delay_lib d = (case d of [] \<Rightarrow> (None, []) | p # ps \<Rightarrow> (Some p, ps))"
  "codec_type delay_lib k = (if k = 0 then 0 else 1)"
  "avcodec_send_packet delay_lib = delay_send"
  "avcodec_receive_frame delay_lib c = (case snd c of [] \<Rightarrow> (None, c) | f # fs \<Rightarrow> (Some f, (fst c, fs)))"
  by (simp_all add: delay_lib_def)

interpretation delay: frame_pipeline delay_lib "\<lambda>d. d" snd
  by unfold_locales (auto simp: delay_lib_def delay_send_def)

section \<open>Properties\<close>


definition sample_packets :: "av_packet list" where
  "sample_packets = [\<lparr>stream_index = 0, packet_data = [1]\<rparr>, \<lparr>stream_index = 1, packet_data = [9]\<rparr>,
     \<lparr>stream_index = 0, packet_data = [2, 2]\<rparr>]"


text \<open>
  Claim C19. In a container whose video stream is not the first one, the flush at the end fails the
  assertion of \<open>decode\<close>: the packet after the last one is blank and carries the stream index 0.
\<close>

theorem flush_assertion_fails:
  assumes "format_stream k \<noteq> 0" and "av_read_frame lib d = (None, d1)" and "\<not> flushed k"
    and "s = \<lparr>format_context = d, codec_context = k, remain_frames = []\<rparr>"
  shows "\<exists>t. try_consume_once lib s = Some (Inl Assert_failed, t)"
proof -
  have "read_packet (av_read_frame lib) (codec_type lib) Video_type d = Some (blank_packet, d1)"
    using assms(2) by (subst read_packet.simps) simp
  then show ?thesis
    using assms(1,3,4) unfolding try_consume_once_def
    by (simp add: valid_def, subst consume_loop.simps) (simp add: decode_def blank_packet_def Let_def)
qed

theorem flush_assertion_fails_witness:
  "\<exists>t. try_consume_once delay_lib \<lparr>format_context = [], codec_context =
      \<lparr>decoder = ([], []), format_stream = 1, dispose_count = 0, flushed = False\<rparr>, remain_frames = []\<rparr> =
      Some (Inl Assert_failed, t)"
  by (rule flush_assertion_fails [OF _ _ _ refl]) simp_all

end
