(* ===== verification/Tile_Playback.thy ===== *)
theory Tile_Playback
  imports Tile_Stream Segmentor Cursor Dash_Manager
begin

text \<open>
  The playback of one tile from end to end: the buffers that \<^verbatim>\<open>dash_manager::tile_streamer\<close> hands out
  are opened by \<^verbatim>\<open>frame_segmentor\<close> over a \<^verbatim>\<open>buffer_list_cursor\<close> and decoded by the thread of
  \<^verbatim>\<open>stream_mpeg_dash\<close>, whose frames the polls and the texture events show. Here the parameters of
  \<open>Tile_Stream\<close> are the operations of \<open>Segmentor\<close>, and the buffers are those of the streamer of
  \<open>Dash_Manager\<close>. \<open>frame_decoder\<close> is the contract between a tile and what decodes its buffers.
\<close>

section \<open>The buffers that arrive\<close>

fun arrived :: "'b tile_event list \<Rightarrow> 'b outcome list" where
  "arrived [] = []"
| "arrived (Buffer_ready b # evs) = b # arrived evs"
| "arrived (ev # evs) = arrived evs"

lemma arrived_Cons: "arrived (ev # evs) = arrived [ev] @ arrived evs"
  by (cases ev) simp_all

section \<open>The contract of a decoder\<close>

text \<open>
  \<open>pending\<close> are the frames that a segmentor still has to give. Asked while it is available it gives
  the next of them; it is not available only when there are none.
\<close>

locale frame_decoder =
  fixes dlib :: "('b, 'f, 'g) decoder_lib"
    and pending :: "'g \<Rightarrow> 'f frame list"
    and sound_state :: "'g \<Rightarrow> bool"
  assumes opened_sound: "open_segmentor dlib b = Inr g \<Longrightarrow> sound_state g"
    and consume_pending: "sound_state g \<Longrightarrow> segmentor_available dlib g \<Longrightarrow>
      \<exists>fs g1. segmentor_consume dlib g = Some (Inr fs, g1) \<and> pending g = fs @ pending g1 \<and> sound_state g1"
    and exhausted: "sound_state g \<Longrightarrow> \<not> segmentor_available dlib g \<Longrightarrow> pending g = []"
begin

definition buffer_frames :: "'b outcome \<Rightarrow> 'f frame list" where
  "buffer_frames buffer =
     (case and_then buffer (open_segmentor dlib) of Inl e \<Rightarrow> [] | Inr g \<Rightarrow> pending g)"

text \<open>
  Where the frames of the buffers that arrived are: given by the segmentors, or still pending. Only a
  thread that was stopped while it wrote leaves some behind, and it writes no final entries.
\<close>

fun account :: "('f, 'g) decoder \<Rightarrow> 'f frame list \<Rightarrow> 'f decode_frame list \<Rightarrow> 'f frame list \<Rightarrow> bool" where
  "account (Consuming g) fs ws whole \<longleftrightarrow> sound_state g \<and> whole = fs @ pending g"
| "account (Writing rest none g) fs ws whole \<longleftrightarrow> sound_state g \<and> whole = fs @ pending g"
| "account Ended fs ws whole \<longleftrightarrow> whole = fs \<or> (\<exists>rest. ws @ rest = map Frame fs) \<and> (\<exists>rest. whole = fs @ rest)"
| "account _ fs ws whole \<longleftrightarrow> whole = fs"

lemma account_settled: "d = Closing qs \<or> d = Ended \<Longrightarrow> whole = fs \<Longrightarrow> account d fs ws whole"
  by auto

lemma account_decoder:
  assumes step: "decoder_step dlib True running d t = Inr (d', t')"
    and d: "account d fs ws whole" "thread_ok d fs ws"
  shows "account d' (fs @ new_frames dlib d) (ws @ drop (length (decode_queue t)) (decode_queue t')) whole"
proof (cases d)
  case (Consuming g)
  show ?thesis
  proof (cases "segmentor_available dlib g")
    case True
    with Consuming d(1) consume_pending [of g] obtain gs g1 where
      "segmentor_consume dlib g = Some (Inr gs, g1)" "pending g = gs @ pending g1" "sound_state g1" by auto
    with True Consuming step d(1) show ?thesis by (auto simp: decoder_step_def new_frames_def)
  next
    case False
    with Consuming step d(1) exhausted [of g] show ?thesis by (auto simp: decoder_step_def new_frames_def)
  qed
next
  case (Writing rest none g)
  show ?thesis
  proof (cases "rest = [] \<or> running")
    case True
    with Writing step d(1) show ?thesis
      by (cases rest) (auto simp: decoder_step_def new_frames_def outcome_simps split: if_splits)
  next
    case False
    with Writing step have "d' = Ended" "t' = t"
      by (cases rest, auto simp: decoder_step_def outcome_simps catch_in_stream_def)+
    with Writing d show ?thesis by (auto simp: new_frames_def)
  qed
qed (use step d(1) in \<open>auto simp: decoder_step_def new_frames_def split: list.splits if_splits\<close>)

lemma account_buffer:
  assumes "on_buffer dlib running b n = Inr (d, n')" and "whole = fs"
  shows "account d fs ws (whole @ buffer_frames b)"
proof (cases "and_then b (open_segmentor dlib)")
  case (Inl e)
  with assms(1) have "catch_in_stream running e = Inr d"
    by (auto simp: on_buffer_def outcome_simps and_then_def split: sum.splits)
  from catch_Inr [OF this] Inl assms(2) show ?thesis
    by (auto simp: buffer_frames_def intro: account_settled)
next
  case (Inr g)
  with assms(1) have "d = Consuming g" "\<exists>x. open_segmentor dlib x = Inr g"
    by (auto simp: on_buffer_def outcome_simps and_then_def split: sum.splits)
  with Inr assms(2) opened_sound show ?thesis by (auto simp: buffer_frames_def)
qed

definition run_account :: "('f, 'g, 'd) tile_run \<Rightarrow> 'b outcome list \<Rightarrow> bool" where
  "run_account s buffers \<longleftrightarrow>
     account (thread s) (decoded_frames s) (written s) (concat (map buffer_frames buffers))"

lemma run_account_event:
  assumes event: "run_event dlib True plane_data ev s = Some (Inr t)"
    and s: "decoder_ok s" "run_account s buffers"
  shows "run_account t (buffers @ arrived [ev])"
proof (cases ev)
  case (Buffer_ready b)
  with event have awaiting: "thread s = Awaiting" by (auto split: if_splits)
  with Buffer_ready event obtain d n where
    "on_buffer dlib (stream_running s) b (requested s) = Inr (d, n)" "t = s\<lparr>thread := d, requested := n\<rparr>"
    by (auto simp: outcome_simps)
  with account_buffer [of "stream_running s" b "requested s" d n] awaiting s(2) Buffer_ready show ?thesis
    by (simp add: run_account_def)
next
  case Decoder
  with event obtain d t' where step: "decoder_step dlib True (stream_running s) (thread s) (tile s) = Inr (d, t')"
    and t: "t = s\<lparr>thread := d, tile := t', decoded_frames := decoded_frames s @ new_frames dlib (thread s),
      written := written s @ drop (length (decode_queue (tile s))) (decode_queue t')\<rparr>"
    by (auto simp: outcome_simps)
  from account_decoder [OF step] s t Decoder show ?thesis
    by (simp add: run_account_def decoder_ok_def)
qed (use event s in \<open>auto simp: run_account_def Let_def outcome_simps split: prod.splits if_splits\<close>)

lemma run_account_events:
  assumes "run_tile_events dlib plane_data evs s = Some t" and "run_ok plane_data s" and "run_account s buffers"
  shows "run_account t (buffers @ arrived evs) \<and> run_ok plane_data t"
  using assms
proof (induction evs arbitrary: s buffers)
  case (Cons ev evs)
  then obtain u where u: "scheduled ev s" "run_event dlib True plane_data ev s = Some (Inr u)"
    "run_tile_events dlib plane_data evs u = Some t"
    by (auto split: if_splits option.splits sum.splits)
  from run_ok_step [OF run_step.run_event [OF u(1,2)] Cons.prems(2)] have "run_ok plane_data u" .
  moreover have "run_account u (buffers @ arrived [ev])"
    using run_account_event [OF u(2) _ Cons.prems(3)] Cons.prems(2) by (simp add: run_ok_def)
  ultimately have "run_ok plane_data u" "run_account u (buffers @ arrived [ev])" .
  from Cons.IH [OF u(3) this] show ?case using arrived_Cons [of ev evs] by simp
qed simp

text \<open>
  What a tile has taken up of the frames of its buffers: those shown and those waiting on the way to
  the screen are the first ones, all of them when the thread waits for the next buffer, and followed
  by the null frame when it has closed the stream.
\<close>

lemma playback:
  assumes "run_tile_events dlib plane_data evs (start_run options) = Some s"
  defines "whole \<equiv> concat (map buffer_frames (arrived evs))"
    and "taken \<equiv> shown s @ render_queue (tile s) @ frames_of (decode_queue (tile s))"
  shows "\<exists>rest. taken @ rest = whole @ [None]"
    and "thread s = Awaiting \<Longrightarrow> taken = whole" and "thread s = Closing [] \<Longrightarrow> taken = whole @ [None]"
proof -
  have "run_account (start_run options :: ('f, 'g, 'd) tile_run) []"
    by (simp add: run_account_def start_run_def)
  from run_account_events [OF assms(1) run_ok_start this]
  have acc: "account (thread s) (decoded_frames s) (written s) whole"
    and ok: "thread_ok (thread s) (decoded_frames s) (written s)" and taken: "taken = frames_of (written s)"
    by (simp_all add: run_account_def whole_def taken_def run_ok_def decoder_ok_def queues_ok_def)
  show "thread s = Awaiting \<Longrightarrow> taken = whole" "thread s = Closing [] \<Longrightarrow> taken = whole @ [None]"
    using acc ok taken by (auto simp: final_entries_def)
  have split: "ws @ rest = map Frame fs \<Longrightarrow> frames_of ws @ frames_of rest = fs" for ws rest and fs :: "'f frame list"
    by (metis frames_of_append frames_of_Frame)
  have ends: "ws @ rest = map Frame fs @ final_entries \<Longrightarrow> frames_of ws @ frames_of rest = fs @ [None]"
    for ws rest and fs :: "'f frame list"
    by (metis frames_of_append frames_of_Frame final_entries_def frames_of.simps)
  from acc consider "\<exists>rest. written s @ rest = map Frame (decoded_frames s)" "\<exists>rest. whole = decoded_frames s @ rest"
    | "\<exists>rest. written s @ rest = map Frame (decoded_frames s) @ final_entries" "whole = decoded_frames s"
    using ok thread_ok_prefix [OF ok] by (cases "thread s") auto
  then show "\<exists>rest. taken @ rest = whole @ [None]"
  proof cases
    case 1
    then show ?thesis using split taken by (metis append.assoc)
  next
    case 2
    then show ?thesis using ends taken by metis
  qed
qed

end

section \<open>The segmentor as the decoder of a tile\<close>

text \<open>
  A buffer of the streamer is the bytes of an initial segment and of a media segment; \<open>chunks\<close> is how
  a \<^verbatim>\<open>multi_buffer\<close> lays its bytes out, and \<open>open_media\<close> what opening the contexts over a cursor gives.
\<close>

definition segment_cursor :: "(byte list \<Rightarrow> const_buffer list) \<Rightarrow> byte list \<times> byte list \<Rightarrow> buffer_list_cursor" where
  "segment_cursor chunks = (\<lambda>(initial_bytes, data_bytes).
     buffer_list_cursor_make (split_buffer_sequence [chunks initial_bytes, chunks data_bytes]))"

definition tile_decoder ::
  "('d, 'c, 'p option) codec_library \<Rightarrow> (buffer_list_cursor \<Rightarrow> ('d \<times> 'c codec_context) outcome) \<Rightarrow>
   (byte list \<Rightarrow> const_buffer list) \<Rightarrow> ('p frame \<Rightarrow> bool) \<Rightarrow> bool \<Rightarrow>
   (byte list \<times> byte list, 'p, ('d, 'c, 'p option) segmentor) decoder_lib" where
  "tile_decoder lib open_media chunks large decode_disable =
     \<lparr>open_segmentor = (\<lambda>b. parse_context None (open_media (segment_cursor chunks b))),
      segmentor_valid = (\<lambda>g. context_valid True True True True),
      segmentor_available = codec_available,
      segmentor_consume = try_consume lib decode_disable,
      large_frame = large\<rparr>"

text \<open>What FFmpeg promises, and that the video stream of each opened segment is its first stream.\<close>

locale tile_pipeline = frame_pipeline lib left queue
  for lib :: "('d, 'c, 'p option) codec_library" and left :: "'d \<Rightarrow> av_packet list" and queue :: "'c \<Rightarrow> 'p option list" +
  fixes open_media :: "buffer_list_cursor \<Rightarrow> ('d \<times> 'c codec_context) outcome"
  assumes open_media_ok: "open_media cursor = Inr (d, k) \<Longrightarrow> \<not> flushed k \<and> format_stream k = 0 \<and>
      (\<forall>p\<in>set (left d). codec_type lib (stream_index p) = type_value Video_type \<longrightarrow> stream_index p = 0 \<and> packet_data p \<noteq> [])"
begin

text \<open>The frames of a segment: those of its video packets, then those of the flush.\<close>

definition media_frames :: "buffer_list_cursor \<Rightarrow> 'p frame list" where
  "media_frames cursor =
     (case open_media cursor of
        Inl e \<Rightarrow> []
      | Inr (d, k) \<Rightarrow> map Some (decoded (decoder k) (filter is_video (left d) @ [blank_packet])))"

definition pending_frames :: "('d, 'c, 'p option) segmentor \<Rightarrow> 'p frame list" where
  "pending_frames g = map Some (to_come g)"

definition playing :: "('d, 'c, 'p option) segmentor \<Rightarrow> bool" where
  "playing g \<longleftrightarrow> sound g \<and> remain_frames g = []"

lemma playing_consume:
  assumes "playing g" and "codec_available g"
  shows "\<exists>fs g1. try_consume lib False g = Some (Inr fs, g1) \<and> pending_frames g = fs @ pending_frames g1 \<and> playing g1"
  using try_consume_frames [of g] assms by (auto simp: playing_def pending_frames_def)

end

sublocale tile_pipeline \<subseteq> tile: frame_decoder "tile_decoder lib open_media chunks large False" pending_frames playing
  by unfold_locales
    (use open_media_ok playing_consume drained_come in
      \<open>auto simp: tile_decoder_def parse_context_def outcome_simps playing_def sound_def is_video_def pending_frames_def\<close>)

context tile_pipeline
begin

lemma tile_buffer_frames:
  "tile.buffer_frames chunks large b = (case b of Inl e \<Rightarrow> [] | Inr x \<Rightarrow> media_frames (segment_cursor chunks x))"
  unfolding tile.buffer_frames_def using open_media_ok
  by (auto simp: tile_decoder_def parse_context_def media_frames_def pending_frames_def to_come_def and_then_def
      split: sum.splits prod.splits)

lemmas tile_playback = tile.playback

end

section \<open>An instance of the pipeline\<close>

text \<open>Frames with a first plane, over the decoder with a delay; each byte of a segment is a packet.\<close>

definition planar_lib :: "('d, 'c, 'f) codec_library \<Rightarrow> ('d, 'c, 'f option) codec_library" where
  "planar_lib lib =
     \<lparr>av_read_frame = av_read_frame lib, codec_type = codec_type lib, avcodec_send_packet = avcodec_send_packet lib,
      avcodec_receive_frame = (\<lambda>c. map_prod (map_option Some) (\<lambda>c1. c1) (avcodec_receive_frame lib c))\<rparr>"

lemma planar_pipeline:
  assumes "frame_pipeline lib left queue"
  shows "frame_pipeline (planar_lib lib) left (\<lambda>c. map Some (queue c))"
  using assms unfolding frame_pipeline_def planar_lib_def by (auto simp: map_eq_Cons_conv) fastforce

definition sample_open :: "buffer_list_cursor \<Rightarrow> (av_packet list \<times> (nat list \<times> nat list) codec_context) outcome" where
  "sample_open cursor =
     Inr (map (\<lambda>b. \<lparr>stream_index = 0, packet_data = replicate (Suc (unat b)) 0\<rparr>) (concat (buffer_list cursor)),
          \<lparr>decoder = ([], []), format_stream = 0, dispose_count = 0, flushed = False\<rparr>)"

interpretation sample_tile: tile_pipeline "planar_lib delay_lib" "\<lambda>d. d" "\<lambda>c. map Some (snd c)" sample_open
  by (rule tile_pipeline.intro [OF planar_pipeline [OF delay.frame_pipeline_axioms]], unfold_locales)
    (auto simp: sample_open_def)

section \<open>From the streamer to the screen\<close>

text \<open>The future of one call of the streamer, once its requests are answered.\<close>

definition buffer_of_call ::
  "(nat \<Rightarrow> byte list settlement) \<Rightarrow> (nat \<times> nat) outcome \<Rightarrow> (byte list \<times> byte list) outcome" where
  "buffer_of_call answers call =
     (case call of
        Inl e \<Rightarrow> Inl e
      | Inr (h_initial, h_media) \<Rightarrow>
          (case join_segments (answers h_initial) (answers h_media) of
             Settled_exception e \<Rightarrow> Inl (Throw (fst e))
           | Settled_value b \<Rightarrow> Inr b))"

text \<open>The frames of media segment \<open>n\<close> of representation \<open>i\<close>, from what the requests are answered.\<close>

definition planned_frames ::
  "(buffer_list_cursor \<Rightarrow> 'p frame list) \<Rightarrow> (byte list \<Rightarrow> const_buffer list) \<Rightarrow> (segment \<Rightarrow> byte list settlement) \<Rightarrow>
   nat \<times> nat \<Rightarrow> 'p frame list" where
  "planned_frames cursor_frames chunks answer = (\<lambda>(i, n).
     case join_segments (answer (Initial_segment i)) (answer (Media_segment i n)) of
       Settled_exception e \<Rightarrow> []
     | Settled_value b \<Rightarrow> cursor_frames (segment_cursor chunks b))"

lemma planned_buffers:
  assumes "list_all2 (\<lambda>r (i, n). \<exists>h_initial h_media. r = Inr (h_initial, h_media) \<and>
      asked m session rs media_file h_initial (Initial_segment i) \<and> asked m session rs media_file h_media (Media_segment i n))
    results plan"
    and "\<forall>handle g. asked m session rs media_file handle g \<longrightarrow> answers handle = answer g"
  shows "map (\<lambda>b. case b of Inl e \<Rightarrow> [] | Inr x \<Rightarrow> cursor_frames (segment_cursor chunks x)) (map (buffer_of_call answers) results) =
    map (planned_frames cursor_frames chunks answer) plan"
  using assms(1)
proof (induction rule: list_all2_induct)
  case (Cons r rs g gs)
  then show ?case
    using assms(2) by (auto simp: buffer_of_call_def planned_frames_def split: settlement.splits)
qed simp


text \<open>The first media segment has two frames, the second one is missing; the first frame is shown.\<close>

definition sample_answer :: "http_request \<Rightarrow> byte list settlement" where
  "sample_answer r =
     (if target r = ''/v/h.mp4'' then Settled_value []
      else if target r = ''/v/h1.m4s'' then Settled_value [0, 1]
      else Settled_exception (Bad_response_error, ''''))"

definition sample_playback :: "(byte list \<times> byte list) tile_event list" where
  "sample_playback = [Buffer_ready (Inr ([], [0, 1])), Decoder, Decoder, Decoder, Decoder, Decoder, Decoder, Decoder,
     Decoder, Decoder, Poll, Begin_plane 0 True, End_plane 0, Begin_plane 1 True, End_plane 1, Begin_plane 2 True, End_plane 2,
     Buffer_ready (Inl (Throw Bad_response_error)), Decoder, Decoder]"

lemma sample_playback_run:
  "case run_tile_events (tile_decoder (planar_lib delay_lib) sample_open (\<lambda>b. [b]) (\<lambda>f. True) False) sample_plane
     sample_playback (start_run default_options) of
     None \<Rightarrow> False | Some s \<Rightarrow> shown s = [Some (Some 1)] \<and> thread s = Closing []"
  by code_simp

lemma sample_calls:
  "fst (stream_all (\<lambda>n p. Inr p) sample_format (Coordinate 0 0) [0, 0] sample_manager) = [Inr (0, 1), Inr (0, 2)]"
  "map (\<lambda>x. target (snd x)) (sent (snd (stream_all (\<lambda>n p. Inr p) sample_format (Coordinate 0 0) [0, 0] sample_manager))) =
    [''/v/h.mp4'', ''/v/h1.m4s'', ''/v/h2.m4s'']"
  by code_simp+


end
