(* ===== verification/Player_Run.thy ===== *)
theory Player_Run
  imports Player Tile_Playback
begin

text \<open>
  The player at work: all decoding threads of \<^verbatim>\<open>stream_mpeg_dash\<close>, the polls of the update thread and the
  texture events of the render thread, over one table of streams and one flag for the end of the stream.
  Polls and texture events are the functions of \<open>Player\<close>, which find the tile themselves. Each tile's part
  of such a run is a run of \<open>Tile_Stream\<close>, in which the other tiles are seen only when one of them ends.
\<close>

section \<open>State and events\<close>

text \<open>
  A tile's run holds its thread and the record of its frames; its stream and the two flags are those of
  the player, which \<open>tile_view\<close> puts in their place.
\<close>

record ('f, 'g, 'd) play =
  play_player :: "'f player"
  play_runs :: "('f, 'g, 'd) tile_run list"

definition tile_view :: "('f, 'g, 'd) play \<Rightarrow> nat \<Rightarrow> ('f, 'g, 'd) tile_run" where
  "tile_view s k = (play_runs s ! k)\<lparr>tile := stream_table (play_player s) ! k,
     end_of_stream := stream_ended (play_player s), stream_running := stream_runs (play_player s)\<rparr>"

datatype 'b play_event =
    Buffer_for nat "'b outcome" | Decoder_of nat | Poll_tile int int
  | Texture_begin nat bool | Texture_end nat | Stop_playing

text \<open>The stream a texture event reaches, when the stream goes on.\<close>

definition textured :: "'f player \<Rightarrow> nat \<Rightarrow> nat option" where
  "textured p user_data =
     (if stream_ended p \<or> length (stream_cache p) \<le> user_data div 3 then None else stream_cache p ! (user_data div 3))"

text \<open>A step of a decoding thread changes its own stream and nothing else of the player.\<close>

definition thread_event ::
  "('b, 'f, 'g) decoder_lib \<Rightarrow> ('f frame \<Rightarrow> nat \<Rightarrow> 'd) \<Rightarrow> nat \<Rightarrow> 'b tile_event \<Rightarrow> ('f, 'g, 'd) play \<Rightarrow>
   ('f, 'g, 'd) play outcome option" where
  "thread_event lib plane_data k ev s =
     (if k < length (play_runs s)
      then map_option (\<lambda>r. and_then r (\<lambda>u.
             Inr (s\<lparr>play_runs := (play_runs s)[k := u],
               play_player := (play_player s)\<lparr>stream_table := (stream_table (play_player s))[k := tile u]\<rparr>\<rparr>)))
           (run_event lib True plane_data ev (tile_view s k))
      else None)"

text \<open>What is recorded of a texture event: the planes that were given, and the frame that was finished.\<close>

definition record_texture :: "nat option \<Rightarrow> 'd option \<Rightarrow> ('f, 'g, 'd) play \<Rightarrow> 'f player \<Rightarrow> ('f, 'g, 'd) play" where
  "record_texture pointer data s p1 =
     (case pointer of
        None \<Rightarrow> s\<lparr>play_player := p1\<rparr>
      | Some k \<Rightarrow>
          let waiting = render_queue (stream_table (play_player s) ! k);
              left_over = render_queue (stream_table p1 ! k);
              r = play_runs s ! k
          in s\<lparr>play_player := p1,
               play_runs := (play_runs s)[k := r\<lparr>textures := textures r @ (case data of None \<Rightarrow> [] | Some x \<Rightarrow> [x]),
                 shown := shown r @ take (length waiting - length left_over) waiting\<rparr>]\<rparr>)"

fun play_act ::
  "('b, 'f, 'g) decoder_lib \<Rightarrow> ('f frame \<Rightarrow> nat \<Rightarrow> 'd) \<Rightarrow> 'b play_event \<Rightarrow> ('f, 'g, 'd) play \<Rightarrow>
   ('f, 'g, 'd) play outcome option" where
  "play_act lib plane_data (Buffer_for k b) s = thread_event lib plane_data k (Buffer_ready b) s"
| "play_act lib plane_data (Decoder_of k) s = thread_event lib plane_data k Decoder s"
| "play_act lib plane_data (Poll_tile c r) s =
     Some (and_then (native_dash_tile_poll_update True c r (play_player s)) (\<lambda>(answer, p1).
       Inr (s\<lparr>play_player := p1\<rparr>)))"
| "play_act lib plane_data (Texture_begin user_data format_ok) s =
     Some (and_then (on_texture_update_event plane_data Update_begin user_data format_ok (play_player s)) (\<lambda>(data, p1).
       Inr (record_texture (textured (play_player s) user_data) data s p1)))"
| "play_act lib plane_data (Texture_end user_data) s =
     Some (and_then (on_texture_update_event plane_data Update_end user_data True (play_player s)) (\<lambda>(data, p1).
       Inr (record_texture (textured (play_player s) user_data) data s p1)))"
| "play_act lib plane_data Stop_playing s =
     Some (Inr (s\<lparr>play_player := (play_player s)\<lparr>stream_runs := False\<rparr>\<rparr>))"

text \<open>The planes of a tile's frame come in turn, and a frame is begun only when a poll has delivered one.\<close>

fun play_scheduled :: "'b play_event \<Rightarrow> ('f, 'g, 'd) play \<Rightarrow> bool" where
  "play_scheduled (Texture_begin user_data format_ok) s =
     (case textured (play_player s) user_data of
        None \<Rightarrow> True
      | Some k \<Rightarrow> scheduled (Begin_plane (user_data mod 3) format_ok :: 'b tile_event) (tile_view s k))"
| "play_scheduled (Texture_end user_data) s =
     (case textured (play_player s) user_data of
        None \<Rightarrow> True
      | Some k \<Rightarrow> scheduled (End_plane (user_data mod 3) :: 'b tile_event) (tile_view s k))"
| "play_scheduled ev s = True"

fun run_play ::
  "('b, 'f, 'g) decoder_lib \<Rightarrow> ('f frame \<Rightarrow> nat \<Rightarrow> 'd) \<Rightarrow> 'b play_event list \<Rightarrow> ('f, 'g, 'd) play \<Rightarrow>
   ('f, 'g, 'd) play option" where
  "run_play lib plane_data [] s = Some s"
| "run_play lib plane_data (ev # evs) s =
     (if play_scheduled ev s
      then (case play_act lib plane_data ev s of Some (Inr t) \<Rightarrow> run_play lib plane_data evs t | _ \<Rightarrow> None)
      else None)"

text \<open>The buffers that arrive at a tile.\<close>

fun arrived_at :: "nat \<Rightarrow> 'b play_event list \<Rightarrow> 'b outcome list" where
  "arrived_at k [] = []"
| "arrived_at k (Buffer_for j b # evs) = (if j = k then b # arrived_at k evs else arrived_at k evs)"
| "arrived_at k (ev # evs) = arrived_at k evs"

section \<open>A tile's part of a run\<close>

text \<open>One run for each stream, and a cache that leads into the table.\<close>

definition play_ok :: "('f, 'g, 'd) play \<Rightarrow> bool" where
  "play_ok s \<longleftrightarrow> length (play_runs s) = length (stream_table (play_player s)) \<and>
     (\<forall>k. Some k \<in> set (stream_cache (play_player s)) \<longrightarrow> k < length (stream_table (play_player s)))"

lemma run_tile_events_append:
  "run_tile_events lib plane_data evs s = Some u \<Longrightarrow> run_tile_events lib plane_data evs' u = Some t \<Longrightarrow>
    run_tile_events lib plane_data (evs @ evs') s = Some t"
  by (induction evs arbitrary: s) (auto split: if_splits option.splits sum.splits)

lemma arrived_append: "arrived (evs @ evs') = arrived evs @ arrived evs'"
  by (induction evs rule: arrived.induct) simp_all

lemma arrived_at_Cons: "arrived_at k (ev # evs) = arrived_at k [ev] @ arrived_at k evs"
  by (cases ev) simp_all

definition follows ::
  "('b, 'f, 'g) decoder_lib \<Rightarrow> ('f frame \<Rightarrow> nat \<Rightarrow> 'd) \<Rightarrow> nat \<Rightarrow> 'b outcome list \<Rightarrow> ('f, 'g, 'd) play \<Rightarrow> ('f, 'g, 'd) play \<Rightarrow> bool" where
  "follows lib plane_data k buffers s t \<longleftrightarrow>
     (\<exists>evs. run_tile_events lib plane_data evs (tile_view s k) = Some (tile_view t k) \<and> arrived evs = buffers)"

lemma follows_same: "tile_view t k = tile_view s k \<Longrightarrow> follows lib plane_data k [] s t"
  by (auto simp: follows_def intro!: exI [of _ "[]"])

lemma follows_flag: "tile_view t k = (tile_view s k)\<lparr>end_of_stream := True\<rparr> \<Longrightarrow> follows lib plane_data k [] s t"
  by (auto simp: follows_def intro!: exI [of _ "[Other_tile_ended]"])

lemma follows_event:
  "scheduled ev (tile_view s k) \<Longrightarrow> run_event lib True plane_data ev (tile_view s k) = Some (Inr (tile_view t k)) \<Longrightarrow>
    follows lib plane_data k (arrived [ev]) s t"
  by (auto simp: follows_def intro!: exI [of _ "[ev]"])

lemma follows_trans:
  "follows lib plane_data k bs s t \<Longrightarrow> follows lib plane_data k cs t u \<Longrightarrow> follows lib plane_data k (bs @ cs) s u"
  unfolding follows_def using run_tile_events_append arrived_append by metis

text \<open>When the flag is raised or kept, every other tile sees at most that.\<close>

lemma other_follows:
  assumes "play_player t = (play_player s)\<lparr>stream_ended := e, stream_table := (stream_table (play_player s))[k := u]\<rparr>"
    and "e \<or> e = stream_ended (play_player s)" and "j \<noteq> k" and "play_runs t ! j = play_runs s ! j"
  shows "follows lib plane_data j [] s t"
proof (cases "e = stream_ended (play_player s)")
  case True
  with assms show ?thesis by (intro follows_same) (simp add: tile_view_def)
next
  case False
  with assms show ?thesis by (intro follows_flag) (simp add: tile_view_def)
qed

section \<open>What polls and texture events do\<close>

lemma position_of_less: "position_of P xs = Some k \<Longrightarrow> k < length xs"
  by (induction xs arbitrary: k) (auto split: if_splits)

lemma poll_at_cases:
  assumes "native_dash_tile_poll_update True c r p = Inr (answer, p')"
  obtains k e t where "k < length (stream_table p)" "tile_poll_update True (stream_ended p, stream_table p ! k) = (answer, e, t)"
    "p' = p\<lparr>stream_ended := e, stream_table := (stream_table p)[k := t]\<rparr>" "e \<or> e = stream_ended p"
proof -
  from assms obtain k where k: "k < length (stream_table p)" "native_dash_tile_ptr_poll_update True k p = Inr (answer, p')"
    by (auto simp: native_dash_tile_poll_update_def dest: position_of_less split: option.splits)
  obtain a e t where polled: "tile_poll_update True (stream_ended p, stream_table p ! k) = (a, e, t)"
    by (cases "tile_poll_update True (stream_ended p, stream_table p ! k)")
  then have "e \<or> e = stream_ended p"
    by (auto simp: tile_poll_update_def stream_available_def frame_empty_def Let_def split: list.splits decode_frame.splits)
  with that k polled show thesis by (auto simp: native_dash_tile_ptr_poll_update_def)
qed

lemma texture_event_cases:
  assumes "on_texture_update_event plane_data event user_data format_ok p = Inr r"
  obtains "textured p user_data = None" "r = (None, p)"
  | k where "textured p user_data = Some k" "Some k \<in> set (stream_cache p)" "\<not> stream_ended p"
      "user_data div 3 < length (stream_cache p)" "stream_cache p ! (user_data div 3) = Some k"
proof -
  have flag: "native_dash_available p = (\<not> stream_ended p)"
    by (simp add: native_dash_available_def stream_available_def Let_def)
  show thesis
  proof (cases "stream_ended p")
    case True
    with assms have "r = (None, p)" by (simp add: on_texture_update_event_def flag)
    with True that(1) show thesis by (simp add: textured_def)
  next
    case False
    with assms obtain k where "user_data div 3 < length (stream_cache p)" "stream_cache p ! (user_data div 3) = Some k"
      by (simp add: on_texture_update_event_def flag Let_def split: if_splits option.splits)
    with False show thesis by (intro that(2) [of k]) (auto simp: textured_def dest: nth_mem)
  qed
qed

lemma texture_begin_cases:
  assumes "on_texture_update_event plane_data Update_begin user_data format_ok p = Inr (data, p')"
  obtains "textured p user_data = None" "p' = p"
  | k e t where "textured p user_data = Some k" "Some k \<in> set (stream_cache p)" "\<not> stream_ended p"
      "texture_begin plane_data (user_data mod 3) format_ok (False, stream_table p ! k) = Inr (data, e, t)"
      "p' = p\<lparr>stream_ended := e, stream_table := (stream_table p)[k := t]\<rparr>"
  using assms
proof (cases rule: texture_event_cases)
  case (2 k)
  with assms that(2) [of k] show thesis
    by (auto simp: on_texture_update_event_def native_dash_available_def stream_available_def outcome_simps Let_def)
qed (use that(1) in simp)

lemma texture_end_cases:
  assumes "on_texture_update_event plane_data Update_end user_data True p = Inr (data, p')"
  obtains "textured p user_data = None" "p' = p"
  | k t where "textured p user_data = Some k" "Some k \<in> set (stream_cache p)" "\<not> stream_ended p" "data = None"
      "texture_end (user_data mod 3) (stream_table p ! k) = Inr t"
      "p' = p\<lparr>stream_table := (stream_table p)[k := t]\<rparr>"
  using assms
proof (cases rule: texture_event_cases)
  case (2 k)
  with assms that(2) [of k] show thesis
    by (auto simp: on_texture_update_event_def native_dash_available_def stream_available_def outcome_simps Let_def)
qed (use that(1) in simp)

section \<open>Every tile follows\<close>

text \<open>What each tile saw of the events is a run of the tile, with the buffers that arrived at it.\<close>

definition tiles_follow ::
  "('b, 'f, 'g) decoder_lib \<Rightarrow> ('f frame \<Rightarrow> nat \<Rightarrow> 'd) \<Rightarrow> 'b play_event list \<Rightarrow> ('f, 'g, 'd) play \<Rightarrow> ('f, 'g, 'd) play \<Rightarrow> bool" where
  "tiles_follow lib plane_data evs s t \<longleftrightarrow> play_ok t \<and> length (play_runs t) = length (play_runs s) \<and>
     (\<forall>k<length (play_runs s). follows lib plane_data k (arrived_at k evs) s t)"

lemma reached_tile:
  assumes "play_ok s" and "k < length (play_runs s)" and "e \<or> e = stream_ended (play_player s)"
    and player: "play_player t = (play_player s)\<lparr>stream_ended := e, stream_table := (stream_table (play_player s))[k := u]\<rparr>"
    and runs: "length (play_runs t) = length (play_runs s)" "\<And>j. j \<noteq> k \<Longrightarrow> play_runs t ! j = play_runs s ! j"
    and "scheduled ev (tile_view s k)"
    and "run_event lib True plane_data ev (tile_view s k) = Some (Inr (tile_view t k))"
    and "arrived_at k evs = arrived [ev]" and "\<And>j. j \<noteq> k \<Longrightarrow> arrived_at j evs = []"
  shows "tiles_follow lib plane_data evs s t"
proof -
  have "play_ok t" using assms(1) player runs(1) by (simp add: play_ok_def)
  moreover have "follows lib plane_data j (arrived_at j evs) s t" for j
    using follows_event [OF assms(7,8)] other_follows [OF player assms(3), of j lib plane_data] runs(2) [of j] assms(9,10)
    by (cases "j = k") simp_all
  ultimately show ?thesis using runs(1) by (simp add: tiles_follow_def)
qed

lemma thread_event_follows:
  assumes ok: "play_ok s" and "thread_event lib plane_data k ev s = Some (Inr t)"
    and "ev = Decoder \<or> (\<exists>b. ev = Buffer_ready b)"
    and "arrived_at k evs = arrived [ev]" and "\<And>j. j \<noteq> k \<Longrightarrow> arrived_at j evs = []"
  shows "tiles_follow lib plane_data evs s t"
proof -
  from assms(2) obtain u where k: "k < length (play_runs s)" and u: "run_event lib True plane_data ev (tile_view s k) = Some (Inr u)"
    and t: "t = s\<lparr>play_runs := (play_runs s)[k := u],
      play_player := (play_player s)\<lparr>stream_table := (stream_table (play_player s))[k := tile u]\<rparr>\<rparr>"
    by (auto simp: thread_event_def outcome_simps split: if_splits)
  have "end_of_stream u = stream_ended (play_player s)" "stream_running u = stream_runs (play_player s)"
    using u assms(3) by (auto simp: tile_view_def outcome_simps split: if_splits)
  then have "tile_view t k = u" using ok k t by (simp add: tile_view_def play_ok_def)
  with u show ?thesis
    by (intro reached_tile [where k = k and ev = ev and e = "stream_ended (play_player s)" and u = "tile u"])
      (use ok k assms(3-5) t in auto)
qed

lemma unreached_follows:
  assumes "play_ok s" and "play_runs t = play_runs s" and "play_player t = play_player s" and "\<And>j. arrived_at j evs = []"
  shows "tiles_follow lib plane_data evs s t"
  using assms by (auto simp: tiles_follow_def play_ok_def tile_view_def intro: follows_same)

lemma poll_follows:
  assumes ok: "play_ok s" and "native_dash_tile_poll_update True c r (play_player s) = Inr (answer, p1)"
  shows "tiles_follow lib plane_data [Poll_tile c r] s (s\<lparr>play_player := p1\<rparr>)"
  using assms(2)
proof (cases rule: poll_at_cases)
  case (1 k e t)
  with ok show ?thesis
    by (intro reached_tile [where k = k and ev = Poll and e = e and u = t]) (auto simp: tile_view_def play_ok_def)
qed

lemma begin_follows:
  assumes ok: "play_ok s" and event: "on_texture_update_event plane_data Update_begin user_data fm (play_player s) = Inr (data, p1)"
    and scheduled: "play_scheduled (Texture_begin user_data fm :: 'b play_event) s"
  shows "tiles_follow lib plane_data [Texture_begin user_data fm :: 'b play_event] s
    (record_texture (textured (play_player s) user_data) data s p1)"
  using event
proof (cases rule: texture_begin_cases)
  case 1
  with ok show ?thesis by (intro unreached_follows) (simp_all add: record_texture_def)
next
  case (2 k e t)
  from 2(2) ok have k: "k < length (stream_table (play_player s))" "k < length (play_runs s)" by (auto simp: play_ok_def)
  from 2(3,4) have "render_queue t = render_queue (stream_table (play_player s) ! k)" "e \<or> e = stream_ended (play_player s)"
    by (auto simp: texture_begin_def outcome_simps stream_available_def frame_empty_def Let_def
        split: if_splits list.splits option.splits)
  with 2 k ok scheduled show ?thesis
    by (intro reached_tile [where k = k and ev = "Begin_plane (user_data mod 3) fm" and e = e and u = t])
      (auto simp: record_texture_def tile_view_def Let_def outcome_simps)
qed

lemma end_follows:
  assumes ok: "play_ok s" and event: "on_texture_update_event plane_data Update_end user_data True (play_player s) = Inr (data, p1)"
    and scheduled: "play_scheduled (Texture_end user_data :: 'b play_event) s"
  shows "tiles_follow lib plane_data [Texture_end user_data :: 'b play_event] s
    (record_texture (textured (play_player s) user_data) data s p1)"
  using event
proof (cases rule: texture_end_cases)
  case 1
  with ok show ?thesis by (intro unreached_follows) (simp_all add: record_texture_def)
next
  case (2 k t)
  from 2(2) ok have k: "k < length (stream_table (play_player s))" "k < length (play_runs s)" by (auto simp: play_ok_def)
  with 2 ok scheduled show ?thesis
    by (intro reached_tile [where k = k and ev = "End_plane (user_data mod 3)" and e = "stream_ended (play_player s)" and u = t])
      (auto simp: record_texture_def tile_view_def Let_def outcome_simps)
qed

lemma stop_follows:
  assumes "play_ok s"
  shows "tiles_follow lib plane_data [Stop_playing] s (s\<lparr>play_player := (play_player s)\<lparr>stream_runs := False\<rparr>\<rparr>)"
proof -
  have "follows lib plane_data k (arrived [Stop_stream]) s (s\<lparr>play_player := (play_player s)\<lparr>stream_runs := False\<rparr>\<rparr>)" for k
    by (rule follows_event) (simp_all add: tile_view_def)
  with assms show ?thesis by (simp add: tiles_follow_def play_ok_def)
qed

lemma play_act_follows:
  assumes "play_ok s" and "play_scheduled ev s" and "play_act lib plane_data ev s = Some (Inr t)"
  shows "tiles_follow lib plane_data [ev] s t"
proof (cases ev)
  case (Buffer_for k b)
  with assms show ?thesis by (intro thread_event_follows [where k = k and ev = "Buffer_ready b"]) auto
next
  case (Decoder_of k)
  with assms show ?thesis by (intro thread_event_follows [where k = k and ev = Decoder]) auto
next
  case (Texture_begin u fm)
  with assms begin_follows [of s plane_data u fm _ _ lib] show ?thesis by (auto simp: outcome_simps)
next
  case (Texture_end u)
  with assms end_follows [of s plane_data u _ _ lib] show ?thesis by (auto simp: outcome_simps)
next
  case (Poll_tile c r)
  with assms poll_follows [of s c r _ _ lib plane_data] show ?thesis by (auto simp: outcome_simps)
next
  case Stop_playing
  with assms stop_follows [of s lib plane_data] show ?thesis by simp
qed

lemma run_play_follows:
  assumes "run_play lib plane_data evs s = Some t" and "play_ok s"
  shows "tiles_follow lib plane_data evs s t"
  using assms
proof (induction evs arbitrary: s)
  case Nil
  then show ?case by (auto simp: tiles_follow_def intro: follows_same)
next
  case (Cons ev evs)
  then obtain u where "play_scheduled ev s" "play_act lib plane_data ev s = Some (Inr u)" "run_play lib plane_data evs u = Some t"
    by (auto split: if_splits option.splits sum.splits)
  with Cons have "tiles_follow lib plane_data [ev] s u" "tiles_follow lib plane_data evs u t"
    by (auto dest: play_act_follows simp: tiles_follow_def)
  then show ?case
    unfolding tiles_follow_def using follows_trans arrived_at_Cons [of _ ev evs] by (metis (no_types))
qed

section \<open>From the creation of the streams\<close>

definition start_play :: "'f player \<Rightarrow> ('f, 'g, 'd) play" where
  "start_play p = \<lparr>play_player = p, play_runs = replicate (length (stream_table p)) (start_run default_options)\<rparr>"

text \<open>Every stream is as it was made, and the cache leads into the table.\<close>

definition fresh_player :: "'f player \<Rightarrow> bool" where
  "fresh_player p \<longleftrightarrow> \<not> stream_ended p \<and> stream_runs p \<and> stream_table p \<in> lists (range make_stream_context) \<and>
     (\<forall>k. Some k \<in> set (stream_cache p) \<longrightarrow> k < length (stream_table p))"

lemma create_tile_fresh:
  "native_dash_create_tile_stream True capacity c r i p = Inr (pointer, p1) \<Longrightarrow> fresh_player p \<Longrightarrow> fresh_player p1"
  by (auto simp: native_dash_create_tile_stream_def fresh_player_def outcome_simps Let_def less_Suc_eq
      dest!: subsetD [OF set_update_subset_insert] split: if_splits)

lemma create_tiles_fresh: "create_tiles capacity cs p = Inr p1 \<Longrightarrow> fresh_player p \<Longrightarrow> fresh_player p1"
  by (induction capacity cs p rule: create_tiles.induct) (auto simp: outcome_simps dest: create_tile_fresh)

lemma start_play_ok: "fresh_player p \<Longrightarrow> play_ok (start_play p)"
  by (auto simp: fresh_player_def play_ok_def start_play_def)

lemma start_play_view:
  assumes "fresh_player p" and "k < length (stream_table p)"
  shows "\<exists>options. tile_view (start_play p) k = start_run options"
proof -
  from assms obtain options where "stream_table p ! k = make_stream_context options"
    by (auto simp: fresh_player_def lists_eq_set dest!: subsetD [OF _ nth_mem])
  with assms show ?thesis
    by (intro exI [of _ options]) (simp add: tile_view_def start_play_def start_run_def fresh_player_def)
qed

lemma follows_start:
  fixes s :: "('f, 'g, 'd) play"
  assumes "fresh_player p" and "k < length (stream_table p)" and "follows lib plane_data k buffers (start_play p) s"
  shows "\<exists>options tile_evs. run_tile_events lib plane_data tile_evs (start_run options) = Some (tile_view s k) \<and>
    arrived tile_evs = buffers"
proof -
  obtain options where "tile_view (start_play p) k = (start_run options :: ('f, 'g, 'd) tile_run)"
    using start_play_view [OF assms(1,2)] by blast
  with assms(3) show ?thesis unfolding follows_def by metis
qed

lemma create_tiles_length:
  "create_tiles capacity cs p = Inr p1 \<Longrightarrow> length (stream_table p1) = length (stream_table p) + length cs"
  by (induction capacity cs p rule: create_tiles.induct)
    (auto simp: outcome_simps native_dash_create_tile_stream_def Let_def split: if_splits)


text \<open>Two tiles get a buffer; only the second one is polled and shown, and then it ends.\<close>

definition sample_play :: "(byte list \<times> byte list) play_event list" where
  "sample_play = [Buffer_for 0 (Inr ([], [5])), Buffer_for 1 (Inr ([], [0, 1])), Decoder_of 1, Decoder_of 0, Decoder_of 1,
     Decoder_of 1, Decoder_of 1, Decoder_of 1, Decoder_of 1, Decoder_of 1, Decoder_of 1, Decoder_of 1, Poll_tile 1 0,
     Texture_begin 3 True, Texture_end 3, Texture_begin 4 True, Texture_end 4, Texture_begin 5 True, Texture_end 5,
     Buffer_for 1 (Inl (Throw Bad_response_error)), Decoder_of 1, Decoder_of 1]"

lemma sample_play_run:
  "case create_tiles 30 [(0, 0), (1, 0)] sample_player of
     Inl e \<Rightarrow> False
   | Inr p1 \<Rightarrow>
       (case run_play (tile_decoder (planar_lib delay_lib) sample_open (\<lambda>b. [b]) (\<lambda>f. True) False) sample_plane sample_play
          (start_play p1) of
          None \<Rightarrow> False
        | Some s \<Rightarrow> shown (tile_view s 1) = [Some (Some 1)] \<and> thread (tile_view s 1) = Closing [])"
  by code_simp


end
