(* ===== verification/Loggers.thy ===== *)
theory Loggers
  imports Prelude
begin

text \<open>
  The loggers of \<^verbatim>\<open>src/core/core.cpp\<close> and who makes them: the client session and the DASH manager. A
  logger that is made is registered under its name with the logging library, which is a parameter
  (\<open>logging_lib\<close>); \<open>logger_registry\<close> is what its documentation promises.
\<close>

section \<open>The library\<close>

datatype log_sink = Null_sink | File_sink "string list"

datatype logger = Null_logger string | Console_logger string | Async_logger string log_sink

fun logger_name :: "logger \<Rightarrow> string" where
  "logger_name (Null_logger n) = n"
| "logger_name (Console_logger n) = n"
| "logger_name (Async_logger n s) = n"

record 'r logging_lib =
  register_logger :: "logger \<Rightarrow> 'r \<Rightarrow> 'r outcome"
  drop_logger :: "string \<Rightarrow> 'r \<Rightarrow> 'r"
  drop_all_loggers :: "'r \<Rightarrow> 'r"

text \<open>Registering a name twice throws; what is dropped can be registered again.\<close>

locale logger_registry =
  fixes lib :: "'r logging_lib" and names :: "'r \<Rightarrow> string set"
  assumes register_fresh: "logger_name l \<notin> names r \<Longrightarrow>
      \<exists>r1. register_logger lib l r = Inr r1 \<and> names r1 = insert (logger_name l) (names r)"
    and register_taken: "logger_name l \<in> names r \<Longrightarrow> \<exists>what. register_logger lib l r = Inl (Throw (Runtime_error what))"
    and names_drop: "names (drop_logger lib n r) = names r - {n}"
    and names_drop_all: "names (drop_all_loggers lib r) = {}"

section \<open>Making loggers\<close>

definition make_logger_of :: "'r logging_lib \<Rightarrow> logger \<Rightarrow> 'r \<Rightarrow> (logger \<times> 'r) outcome" where
  "make_logger_of lib l r = and_then (register_logger lib l r) (\<lambda>r1. Inr (l, r1))"

definition make_async_logger :: "'r logging_lib \<Rightarrow> string \<Rightarrow> log_sink \<Rightarrow> 'r \<Rightarrow> (logger \<times> 'r) outcome" where
  "make_async_logger lib name sink r = make_logger_of lib (Async_logger name sink) r"

text \<open>A null logger is made at once, a console logger when it is first used.\<close>

datatype logger_access = Ready logger | On_first_use string

definition null_logger_access :: "'r logging_lib \<Rightarrow> string \<Rightarrow> 'r \<Rightarrow> (logger_access \<times> 'r) outcome" where
  "null_logger_access lib name r = and_then (make_logger_of lib (Null_logger name) r) (\<lambda>(l, r1). Inr (Ready l, r1))"

definition console_logger_access :: "string \<Rightarrow> logger_access" where
  "console_logger_access name = On_first_use name"

fun use_logger :: "'r logging_lib \<Rightarrow> logger_access \<Rightarrow> 'r \<Rightarrow> (logger \<times> logger_access \<times> 'r) outcome" where
  "use_logger lib (Ready l) r = Inr (l, Ready l, r)"
| "use_logger lib (On_first_use name) r =
     and_then (make_logger_of lib (Console_logger name) r) (\<lambda>(l, r1). Inr (l, Ready l, r1))"

text \<open>The factory counts its calls, whether or not they throw.\<close>

definition console_logger_factory ::
  "'r logging_lib \<Rightarrow> (int \<Rightarrow> string) \<Rightarrow> string \<Rightarrow> bool \<Rightarrow> int \<Rightarrow> 'r \<Rightarrow>
   ((int \<times> logger_access) \<times> 'r) outcome \<times> int" where
  "console_logger_factory lib fmt_int logger_group null index r =
     (let logger_index = index;
          name = logger_group @ ''$'' @ fmt_int logger_index
      in (if null
          then and_then (null_logger_access lib name r) (\<lambda>(access, r1). Inr ((logger_index, access), r1))
          else Inr ((logger_index, console_logger_access name), r),
          index + 1))"

section \<open>The loggers of a client session\<close>

record session_logging =
  session_identity :: string
  session_logger :: logger_access
  session_tracer :: logger

definition session_group :: string where
  "session_group = ''net.client.session''"

text \<open>The constructor takes a logger from the factory and makes a tracer without a sink.\<close>

definition session_make_loggers ::
  "'r logging_lib \<Rightarrow> (int \<Rightarrow> string) \<Rightarrow> int \<Rightarrow> 'r \<Rightarrow> (session_logging \<times> 'r) outcome \<times> int" where
  "session_make_loggers lib fmt_int index r =
     (case console_logger_factory lib fmt_int session_group True index r of
        (result, index1) \<Rightarrow>
          (and_then result (\<lambda>((i, access), r1).
             let name = ''session$'' @ fmt_int i
             in and_then (make_logger_of lib (Null_logger name) r1) (\<lambda>(tracer, r2).
                  Inr (\<lparr>session_identity = name, session_logger = access, session_tracer = tracer\<rparr>, r2))),
           index1))"

text \<open>\<open>trace_by\<close> drops the tracer's name and makes the tracer anew.\<close>

definition session_trace_by ::
  "'r logging_lib \<Rightarrow> log_sink \<Rightarrow> session_logging \<Rightarrow> 'r \<Rightarrow> (session_logging \<times> 'r) outcome" where
  "session_trace_by lib sink s r =
     and_then (make_async_logger lib (session_identity s) sink (drop_logger lib (session_identity s) r)) (\<lambda>(l, r1).
       Inr (s\<lparr>session_tracer := l\<rparr>, r1))"

text \<open>The session of a manager: made with its loggers, then traced by the manager's sink.\<close>

definition make_http_session ::
  "'r logging_lib \<Rightarrow> (int \<Rightarrow> string) \<Rightarrow> log_sink \<Rightarrow> int \<Rightarrow> 'r \<Rightarrow> (session_logging \<times> 'r) outcome \<times> int" where
  "make_http_session lib fmt_int logger_sink index r =
     (case session_make_loggers lib fmt_int index r of
        (result, index1) \<Rightarrow> (and_then result (\<lambda>(s, r1). session_trace_by lib logger_sink s r1), index1))"

fun make_http_sessions ::
  "'r logging_lib \<Rightarrow> (int \<Rightarrow> string) \<Rightarrow> log_sink \<Rightarrow> nat \<Rightarrow> int \<Rightarrow> 'r \<Rightarrow> (session_logging list \<times> 'r) outcome \<times> int" where
  "make_http_sessions lib fmt_int sink 0 index r = (Inr ([], r), index)"
| "make_http_sessions lib fmt_int sink (Suc n) index r =
     (case make_http_session lib fmt_int sink index r of
        (Inl e, index1) \<Rightarrow> (Inl e, index1)
      | (Inr (s, r1), index1) \<Rightarrow>
          (case make_http_sessions lib fmt_int sink n index1 r1 of
             (result, index2) \<Rightarrow> (and_then result (\<lambda>(ss, r2). Inr (s # ss, r2)), index2)))"

section \<open>What the registry gives\<close>

context logger_registry
begin

lemma make_logger_fresh:
  "logger_name l \<notin> names r \<Longrightarrow> \<exists>r1. make_logger_of lib l r = Inr (l, r1) \<and> names r1 = insert (logger_name l) (names r)"
  using register_fresh [of l r] by (auto simp: make_logger_of_def)

lemma make_logger_taken:
  "logger_name l \<in> names r \<Longrightarrow> \<exists>what. make_logger_of lib l r = Inl (Throw (Runtime_error what))"
  using register_taken [of l r] by (auto simp: make_logger_of_def)

lemma make_logger_Inr:
  "make_logger_of lib l r = Inr (k, r1) \<Longrightarrow> logger_name l \<notin> names r \<and> names r1 = insert (logger_name l) (names r)"
  using make_logger_fresh [of l r] make_logger_taken [of l r] by fastforce

text \<open>Tracing a session keeps the set of names.\<close>

lemma session_trace_by_ok:
  "session_identity s \<in> names r \<Longrightarrow>
    \<exists>l r1. session_trace_by lib sink s r = Inr (s\<lparr>session_tracer := l\<rparr>, r1) \<and> names r1 = names r"
  using make_logger_fresh [of "Async_logger (session_identity s) sink" "drop_logger lib (session_identity s) r"]
  by (auto simp: session_trace_by_def make_async_logger_def names_drop)

lemma make_http_session_names:
  assumes "make_http_session lib fmt_int sink i r = (Inr (s, r1), j)"
  shows "names r \<subseteq> names r1"
proof -
  from assms obtain t r2 where t: "fst (session_make_loggers lib fmt_int i r) = Inr (t, r2)"
    "session_trace_by lib sink t r2 = Inr (s, r1)"
    by (auto simp: make_http_session_def outcome_simps split: prod.splits)
  then have "names r \<subseteq> names r2 \<and> session_identity t \<in> names r2"
    by (auto simp: session_make_loggers_def console_logger_factory_def null_logger_access_def outcome_simps Let_def
        dest!: make_logger_Inr)
  with session_trace_by_ok [of t r2 sink] t(2) show ?thesis by auto
qed

lemma make_http_session_ok:
  assumes "session_group @ ''$'' @ fmt_int i \<notin> names r" and "''session$'' @ fmt_int i \<notin> names r"
  shows "\<exists>s r1. make_http_session lib fmt_int sink i r = (Inr (s, r1), i + 1) \<and> session_identity s = ''session$'' @ fmt_int i \<and>
    names r1 = {session_group @ ''$'' @ fmt_int i, ''session$'' @ fmt_int i} \<union> names r"
proof -
  from make_logger_fresh [of "Null_logger (session_group @ ''$'' @ fmt_int i)" r] assms(1) obtain r1 where
    r1: "make_logger_of lib (Null_logger (session_group @ ''$'' @ fmt_int i)) r =
      Inr (Null_logger (session_group @ ''$'' @ fmt_int i), r1)"
    "names r1 = insert (session_group @ ''$'' @ fmt_int i) (names r)" by auto
  have "''session$'' @ fmt_int i \<notin> names r1" using assms(2) r1(2) by (simp add: session_group_def)
  with make_logger_fresh [of "Null_logger (''session$'' @ fmt_int i)" r1] obtain r2 where
    r2: "make_logger_of lib (Null_logger (''session$'' @ fmt_int i)) r1 = Inr (Null_logger (''session$'' @ fmt_int i), r2)"
    "names r2 = insert (''session$'' @ fmt_int i) (names r1)" by auto
  let ?s = "\<lparr>session_identity = ''session$'' @ fmt_int i,
    session_logger = Ready (Null_logger (session_group @ ''$'' @ fmt_int i)),
    session_tracer = Null_logger (''session$'' @ fmt_int i)\<rparr>"
  from session_trace_by_ok [of ?s r2 sink] r2(2) obtain l r3 where
    "session_trace_by lib sink ?s r2 = Inr (?s\<lparr>session_tracer := l\<rparr>, r3)" "names r3 = names r2" by auto
  with r1 r2 show ?thesis
    by (auto simp: make_http_session_def session_make_loggers_def console_logger_factory_def null_logger_access_def Let_def)
qed

text \<open>As the sessions are numbered, making them one after the other never fails.\<close>

lemma make_http_sessions_ok:
  assumes "inj fmt_int"
    and "\<forall>k\<ge>i. session_group @ ''$'' @ fmt_int k \<notin> names r \<and> ''session$'' @ fmt_int k \<notin> names r"
  shows "\<exists>ss r1. make_http_sessions lib fmt_int sink n i r = (Inr (ss, r1), i + int n) \<and>
    map session_identity ss = map (\<lambda>k. ''session$'' @ fmt_int (i + int k)) [0..<n]"
  using assms(2)
proof (induction n arbitrary: i r)
  case (Suc n)
  from make_http_session_ok [of fmt_int i r sink] Suc.prems obtain s r1 where
    s: "make_http_session lib fmt_int sink i r = (Inr (s, r1), i + 1)" "session_identity s = ''session$'' @ fmt_int i"
    "names r1 = {session_group @ ''$'' @ fmt_int i, ''session$'' @ fmt_int i} \<union> names r" by auto
  have "\<forall>k\<ge>i + 1. session_group @ ''$'' @ fmt_int k \<notin> names r1 \<and> ''session$'' @ fmt_int k \<notin> names r1"
    using Suc.prems s(3) by (auto simp: inj_eq [OF assms(1)] session_group_def)
  from Suc.IH [OF this] s(1,2) have "\<exists>ss r2. make_http_sessions lib fmt_int sink (Suc n) i r = (Inr (s # ss, r2), i + 1 + int n) \<and>
      map session_identity ss = map (\<lambda>k. ''session$'' @ fmt_int (i + 1 + int k)) [0..<n]" by auto
  moreover have "map (\<lambda>k. ''session$'' @ fmt_int (i + int k)) [0..<Suc n] =
      (''session$'' @ fmt_int i) # map (\<lambda>k. ''session$'' @ fmt_int (i + 1 + int k)) [0..<n]"
    by (simp add: upt_conv_Cons map_Suc_upt [symmetric] comp_def algebra_simps del: upt_Suc)
  ultimately show ?case using s(2) by (auto simp: algebra_simps)
qed simp

end

section \<open>An instance of the library\<close>

definition list_registry :: "string list logging_lib" where
  "list_registry = \<lparr>register_logger = (\<lambda>l r. if logger_name l \<in> set r then Inl (Throw (Runtime_error (logger_name l)))
       else Inr (logger_name l # r)),
     drop_logger = (\<lambda>n r. filter (\<lambda>m. m \<noteq> n) r), drop_all_loggers = (\<lambda>r. [])\<rparr>"

interpretation listed: logger_registry list_registry set
  by unfold_locales (auto simp: list_registry_def)

end
