(* ===== verification/Library_Lifecycle.thy ===== *)
theory Library_Lifecycle
  imports Player Loggers
begin

text \<open>
  Starting and stopping the player as a library: the executors, the manager's future and the loggers of
  \<^verbatim>\<open>src/gallery/plugin.cpp\<close>, over the registry of the logging library.
\<close>

section \<open>State\<close>

text \<open>What happens to the threads and the loggers, in order.\<close>

datatype library_action =
    Make_compute_pool nat | Make_stream_threads
  | Join_stream_threads | Drop_loggers | Drop_manager | Join_compute_pool | Run_callback nat

datatype manager_future = Empty_future | Failed_future exn | Requesting_index log_sink

record ('f, 'r) library =
  library_player :: "'f player"
  manager_state :: manager_future
  has_compute :: bool
  callback_list :: "nat list"
  actions :: "library_action list"
  plugin_loggers :: "string \<Rightarrow> logger option" \<comment> \<open>by the name of the logger\<close>
  registry :: 'r

definition cleanup_callback :: "nat option \<Rightarrow> ('f, 'r) library \<Rightarrow> ('f, 'r) library" where
  "cleanup_callback callback l =
     (case callback of
        Some f \<Rightarrow> l\<lparr>callback_list := callback_list l @ [f]\<rparr>
      | None \<Rightarrow> l\<lparr>callback_list := [], actions := actions l @ map Run_callback (callback_list l)\<rparr>)"

definition reset_resource :: "'f player \<Rightarrow> 'f player" where
  "reset_resource p = p\<lparr>stream_table := [], stream_cache := [],
     stream_ended := snd (stream_available (Some (None :: 'f frame option)) (stream_ended p)),
     field_of_view := Coordinate 0 0\<rparr>"

text \<open>A text handed to the engine: the characters and a null; an empty string is not accepted.\<close>

definition unmanaged_string :: "string \<Rightarrow> string outcome" where
  "unmanaged_string s = assert_that (s \<noteq> []) (Inr (s @ [CHR 0x00]))"

section \<open>Creating the manager\<close>

definition dash_trace_by :: "'r logging_lib \<Rightarrow> log_sink \<Rightarrow> 'r \<Rightarrow> (logger \<times> 'r) outcome" where
  "dash_trace_by lib sink r = make_async_logger lib ''dash.manager'' sink r"

definition network_sink :: "(path \<Rightarrow> bool) \<Rightarrow> ('u, 'j, 'v) config \<Rightarrow> log_sink outcome" where
  "network_sink is_dir c =
     (if trace_enable c
      then assert_that (is_dir (trace_directory c)) (Inr (File_sink (path_append (trace_directory c) [''network.log''])))
      else Inr Null_sink)"

text \<open>An exception becomes the manager's future; an assertion does not.\<close>

definition traced_manager :: "'r logging_lib \<Rightarrow> log_sink \<Rightarrow> ('f, 'r) library \<Rightarrow> ('f, 'r) library outcome" where
  "traced_manager lib sink l =
     (case dash_trace_by lib sink (registry l) of
        Inl (Throw e) \<Rightarrow> Inr (l\<lparr>manager_state := Failed_future e\<rparr>)
      | Inl e \<Rightarrow> Inl e
      | Inr (logger, r) \<Rightarrow> Inr (l\<lparr>manager_state := Requesting_index sink, registry := r\<rparr>))"

definition native_dash_create ::
  "'r logging_lib \<Rightarrow> ('u \<Rightarrow> string) \<Rightarrow> (path \<Rightarrow> bool) \<Rightarrow> ('u, 'j, 'v) config \<Rightarrow> ('f, 'r) library \<Rightarrow>
   (string \<times> ('f, 'r) library) outcome" where
  "native_dash_create lib uri_str is_dir c l =
     and_then (deref (mpd_uri c)) (\<lambda>uri. let index_url = uri_str uri in assert_that (index_url \<noteq> [])
       (and_then (network_sink is_dir c) (\<lambda>sink.
        and_then (traced_manager lib sink l) (\<lambda>l1.
        and_then (unmanaged_string index_url) (\<lambda>text. Inr (text, l1))))))"

section \<open>Starting and stopping\<close>

definition make_logger :: "'r logging_lib \<Rightarrow> path \<Rightarrow> bool \<Rightarrow> string \<Rightarrow> 'r \<Rightarrow> (logger \<times> 'r) outcome" where
  "make_logger lib directory enable name r =
     (if \<not> enable then make_logger_of lib (Null_logger name) r
      else make_async_logger lib name (File_sink (path_append directory [name @ ''.log''])) r)"

text \<open>The loggers are made and assigned one after the other; a throw leaves those made before it.\<close>

fun make_plugin_loggers ::
  "'r logging_lib \<Rightarrow> ('u, 'j, 'v) config \<Rightarrow> string list \<Rightarrow> ('f, 'r) library \<Rightarrow> unit outcome \<times> ('f, 'r) library" where
  "make_plugin_loggers lib c [] l = (Inr (), l)"
| "make_plugin_loggers lib c (name # names) l =
     (case make_logger lib (trace_directory c) (trace_enable c) name (registry l) of
        Inl e \<Rightarrow> (Inl e, l)
      | Inr (logger, r) \<Rightarrow>
          make_plugin_loggers lib c names (l\<lparr>plugin_loggers := (plugin_loggers l)(name \<mapsto> logger), registry := r\<rparr>))"

definition plugin_logger_names :: "string list" where
  "plugin_logger_names = [''plugin'', ''plugin.update'', ''plugin.render'']"

definition native_library_initialize ::
  "'r logging_lib \<Rightarrow> ('u, 'j, 'v) config \<Rightarrow> ('f, 'r) library \<Rightarrow> unit outcome \<times> ('f, 'r) library" where
  "native_library_initialize lib c l =
     make_plugin_loggers lib c plugin_logger_names
       (l\<lparr>library_player := (reset_resource (library_player l))\<lparr>stream_runs := True\<rparr>, manager_state := Empty_future,
          has_compute := True,
          actions := actions l @ [Make_compute_pool (read_alternate (executor_concurrency c)), Make_stream_threads]\<rparr>)"

text \<open>
  Dropping the thread executor waits for the decoding threads; a trace needs its logger, and only with
  tracing the loggers are dropped; the pool must have no other user.
\<close>

definition native_library_release ::
  "'r logging_lib \<Rightarrow> ('u, 'j, 'v) config \<Rightarrow> nat \<Rightarrow> ('f, 'r) library \<Rightarrow> ('f, 'r) library outcome" where
  "native_library_release lib c use_count l =
     (let l1 = l\<lparr>library_player := (library_player l)\<lparr>stream_runs := False\<rparr>, actions := actions l @ [Join_stream_threads]\<rparr>
      in and_then (if trace_enable c
           then and_then (deref (plugin_loggers l1 ''plugin'')) (\<lambda>logger.
             Inr (l1\<lparr>registry := drop_all_loggers lib (registry l1), plugin_loggers := (\<lambda>name. None),
               actions := actions l1 @ [Drop_loggers]\<rparr>))
           else Inr l1) (\<lambda>l2.
         assert_that (has_compute l2 \<longrightarrow> use_count = 1)
           (Inr (cleanup_callback None (l2\<lparr>library_player := reset_resource (library_player l2), manager_state := Empty_future,
              has_compute := False,
              actions := actions l2 @ [Drop_manager] @ (if has_compute l2 then [Join_compute_pool] else [])\<rparr>)))))"

definition native_library_trace_event :: "('u, 'j, 'v) config \<Rightarrow> ('f, 'r) library \<Rightarrow> bool outcome" where
  "native_library_trace_event c l =
     (if trace_enable c then and_then (deref (plugin_loggers l ''plugin.update'')) (\<lambda>logger. Inr True) else Inr False)"

definition native_test_concurrency_store ::
  "nat \<Rightarrow> nat \<Rightarrow> ('u, 'j, 'r) config \<Rightarrow> ('u, 'j, 'r) config" where
  "native_test_concurrency_store codec net c =
     c\<lparr>decoder_concurrency := assign_alternate (Some codec) (decoder_concurrency c),
       network_concurrency := assign_alternate (Some net) (network_concurrency c)\<rparr>"

definition native_test_concurrency_load :: "('u, 'j, 'r) config \<Rightarrow> nat \<times> nat \<times> nat" where
  "native_test_concurrency_load c =
     (read_alternate (decoder_concurrency c), read_alternate (network_concurrency c), read_alternate (executor_concurrency c))"

lemma concurrency_load_store:
  "native_test_concurrency_load (native_test_concurrency_store codec net c) =
     (codec, net, read_alternate (executor_concurrency c))"
  by (simp add: native_test_concurrency_load_def native_test_concurrency_store_def)

section \<open>Starting again\<close>

text \<open>What happens between start and stop: the manager is created, sessions are made, the player plays.\<close>

inductive library_step ::
  "'r logging_lib \<Rightarrow> ('f frame \<Rightarrow> nat \<Rightarrow> 'd) \<Rightarrow> ('u, 'j, 'v) config \<Rightarrow> ('u \<Rightarrow> string) \<Rightarrow>
   ('f, 'r) library \<Rightarrow> ('f, 'r) library \<Rightarrow> bool" for lib plane_data c uri_str where
  created: "native_dash_create lib uri_str is_dir c l = Inr (answer, l') \<Longrightarrow> library_step lib plane_data c uri_str l l'"
| session: "make_http_session lib fmt_int sink i (registry l) = (Inr (s, r), j) \<Longrightarrow>
    library_step lib plane_data c uri_str l (l\<lparr>registry := r\<rparr>)"
| played: "player_step plane_data enable (library_player l) p \<Longrightarrow> library_step lib plane_data c uri_str l (l\<lparr>library_player := p\<rparr>)"

context logger_registry
begin

lemma make_plugin_loggers_fresh:
  assumes "set ns \<inter> names (registry l) = {}" and "distinct ns"
  shows "\<exists>ls r. make_plugin_loggers lib c ns l = (Inr (), l\<lparr>plugin_loggers := ls, registry := r\<rparr>) \<and>
    names r = set ns \<union> names (registry l)"
  using assms
proof (induction ns arbitrary: l)
  case Nil
  show ?case by (intro exI [of _ "plugin_loggers l"] exI [of _ "registry l"]) simp
next
  case (Cons n ns)
  define x where "x = (if trace_enable c then Async_logger n (File_sink (path_append (trace_directory c) [n @ ''.log''])) else Null_logger n)"
  have name: "logger_name x = n" by (simp add: x_def)
  with Cons.prems make_logger_fresh [of x "registry l"] obtain r where
    r: "make_logger_of lib x (registry l) = Inr (x, r)" "names r = insert n (names (registry l))" by auto
  have made: "make_logger lib (trace_directory c) (trace_enable c) n (registry l) = Inr (x, r)"
    using r(1) unfolding x_def by (cases "trace_enable c") (simp_all add: make_logger_def make_async_logger_def)
  let ?l = "l\<lparr>plugin_loggers := (plugin_loggers l)(n \<mapsto> x), registry := r\<rparr>"
  have "set ns \<inter> names (registry ?l) = {}" using Cons.prems r(2) by auto
  with Cons.IH [of ?l] Cons.prems(2) obtain ls r2 where
    "make_plugin_loggers lib c ns ?l = (Inr (), ?l\<lparr>plugin_loggers := ls, registry := r2\<rparr>)"
    "names r2 = set ns \<union> names r"
    by auto
  with made r(2) show ?case
    by (intro exI [of _ ls] exI [of _ r2]) simp
qed

lemma make_plugin_loggers_taken:
  assumes "n \<in> names (registry l)"
  shows "\<exists>what. make_plugin_loggers lib c (n # ns) l = (Inl (Throw (Runtime_error what)), l)"
  using assms make_logger_taken [of "Null_logger n" "registry l"]
    make_logger_taken [of "Async_logger n (File_sink (path_append (trace_directory c) [n @ ''.log'']))" "registry l"]
  by (auto simp: make_logger_def make_async_logger_def)

lemma make_plugin_loggers_names:
  "make_plugin_loggers lib c ns l = (Inr (), l1) \<Longrightarrow>
    set ns \<union> names (registry l) \<subseteq> names (registry l1) \<and> set ns \<union> dom (plugin_loggers l) \<subseteq> dom (plugin_loggers l1)"
proof (induction ns arbitrary: l)
  case (Cons n ns)
  from Cons.prems obtain x r where made: "make_logger lib (trace_directory c) (trace_enable c) n (registry l) = Inr (x, r)"
    and rest: "make_plugin_loggers lib c ns (l\<lparr>plugin_loggers := (plugin_loggers l)(n \<mapsto> x), registry := r\<rparr>) = (Inr (), l1)"
    by (auto split: sum.splits prod.splits)
  from made obtain y where "make_logger_of lib y (registry l) = Inr (x, r)" "logger_name y = n"
    by (cases "trace_enable c") (simp_all add: make_logger_def make_async_logger_def)
  with make_logger_Inr [of y "registry l" x r] have "n \<in> names r \<and> names (registry l) \<subseteq> names r" by auto
  with Cons.IH [OF rest] show ?case by (auto simp del: fun_upd_apply)
qed simp

lemma traced_manager_cases:
  "''dash.manager'' \<notin> names (registry l) \<Longrightarrow>
    \<exists>r. traced_manager lib sink l = Inr (l\<lparr>manager_state := Requesting_index sink, registry := r\<rparr>) \<and>
      names r = insert ''dash.manager'' (names (registry l))"
  "''dash.manager'' \<in> names (registry l) \<Longrightarrow>
    \<exists>what. traced_manager lib sink l = Inr (l\<lparr>manager_state := Failed_future (Runtime_error what)\<rparr>)"
  using make_logger_fresh [of "Async_logger ''dash.manager'' sink" "registry l"]
    make_logger_taken [of "Async_logger ''dash.manager'' sink" "registry l"]
  by (auto simp: traced_manager_def dash_trace_by_def make_async_logger_def)

lemma traced_manager_names:
  "traced_manager lib sink l = Inr l' \<Longrightarrow>
    ''dash.manager'' \<in> names (registry l') \<and> names (registry l) \<subseteq> names (registry l') \<and> plugin_loggers l' = plugin_loggers l"
proof (cases "''dash.manager'' \<in> names (registry l)")
  case True
  with traced_manager_cases(2) [of l sink] show "traced_manager lib sink l = Inr l' \<Longrightarrow> ?thesis" by auto
next
  case False
  with traced_manager_cases(1) [of l sink] show "traced_manager lib sink l = Inr l' \<Longrightarrow> ?thesis" by auto
qed

lemma library_step_names:
  "library_step lib plane_data c uri_str l l' \<Longrightarrow> names (registry l) \<subseteq> names (registry l') \<and> plugin_loggers l' = plugin_loggers l"
proof (induction rule: library_step.induct)
  case (created is_dir l answer l')
  then show ?case
    by (auto simp: native_dash_create_def outcome_simps Let_def dest!: traced_manager_names)
qed (auto dest: make_http_session_names)

lemma library_steps_names:
  "(library_step lib plane_data c uri_str)\<^sup>*\<^sup>* l l' \<Longrightarrow> names (registry l) \<subseteq> names (registry l') \<and> plugin_loggers l' = plugin_loggers l"
  by (induction rule: rtranclp_induct) (use library_step_names in fastforce)+

end

section \<open>Properties\<close>

lemma release_fields:
  assumes "native_library_release lib c uses l = Inr l'"
  shows "library_player l' = reset_resource ((library_player l)\<lparr>stream_runs := False\<rparr>)"
    and "registry l' = (if trace_enable c then drop_all_loggers lib (registry l) else registry l)"
    and "manager_state l' = Empty_future"
  using assms by (auto simp: native_library_release_def cleanup_callback_def outcome_simps Let_def split: if_splits)

text \<open>
  Claim C27. Between a start and a stop of the library, whatever managers and sessions were made and
  whatever the player did: with tracing enabled the library can be started again, and then has no
  streams, no manager and the view at the origin; with tracing disabled, the default, the second start
  throws, because the stop does not drop the logger named \<^verbatim>\<open>plugin\<close>, and so does not create a manager.
\<close>

theorem restart_needs_tracing:
  assumes registry: "logger_registry lib names"
    and start: "native_library_initialize lib c l = (Inr (), l1)"
    and between: "(library_step lib plane_data c uri_str)\<^sup>*\<^sup>* l1 l2"
    and stop: "native_library_release lib c uses l2 = Inr l3"
  shows "(trace_enable c \<longrightarrow> (\<exists>l4. native_library_initialize lib c l3 = (Inr (), l4) \<and>
      stream_table (library_player l4) = [] \<and> stream_runs (library_player l4) \<and> \<not> stream_ended (library_player l4) \<and>
      field_of_view (library_player l4) = Coordinate 0 0 \<and> manager_state l4 = Empty_future)) \<and>
    (\<not> trace_enable c \<longrightarrow> (\<exists>what. fst (native_library_initialize lib c l3) = Inl (Throw (Runtime_error what))))"
proof (intro conjI impI)
  let ?again = "l3\<lparr>library_player := (reset_resource (library_player l3))\<lparr>stream_runs := True\<rparr>, manager_state := Empty_future,
    has_compute := True,
    actions := actions l3 @ [Make_compute_pool (read_alternate (executor_concurrency c)), Make_stream_threads]\<rparr>"
  note again = native_library_initialize_def [of lib c l3, unfolded plugin_logger_names_def]
  note fields = release_fields [OF stop]
  {
    assume "trace_enable c"
    with fields(2) have "names (registry ?again) = {}" by (simp add: logger_registry.names_drop_all [OF registry])
    with logger_registry.make_plugin_loggers_fresh [OF registry, of plugin_logger_names ?again c] show
      "\<exists>l4. native_library_initialize lib c l3 = (Inr (), l4) \<and>
        stream_table (library_player l4) = [] \<and> stream_runs (library_player l4) \<and> \<not> stream_ended (library_player l4) \<and>
        field_of_view (library_player l4) = Coordinate 0 0 \<and> manager_state l4 = Empty_future"
      by (auto simp: again plugin_logger_names_def reset_resource_def stream_available_def)
  next
    assume "\<not> trace_enable c"
    moreover from logger_registry.make_plugin_loggers_names [OF registry start [unfolded native_library_initialize_def]]
    have "''plugin'' \<in> names (registry l1)" by (simp add: plugin_logger_names_def)
    ultimately have "''plugin'' \<in> names (registry ?again)"
      using logger_registry.library_steps_names [OF registry between] fields(2) by auto
    from logger_registry.make_plugin_loggers_taken [OF registry this, of c "[''plugin.update'', ''plugin.render'']"] show
      "\<exists>what. fst (native_library_initialize lib c l3) = Inl (Throw (Runtime_error what))"
      unfolding again by auto
  }
qed

definition sample_library :: "(nat, string list) library" where
  "sample_library = \<lparr>library_player = sample_player, manager_state = Empty_future, has_compute = False, callback_list = [],
     actions = [], plugin_loggers = (\<lambda>name. None), registry = []\<rparr>"

definition sample_config :: "bool \<Rightarrow> (string, unit, unit) config" where
  "sample_config enable = (default_config 4 () ())\<lparr>mpd_uri := Some ''http://h/v/a.mpd'', trace_enable := enable\<rparr>"

theorem restart_needs_tracing_witness:
  "(\<exists>l1 l2 l3 l4. native_library_initialize list_registry (sample_config True) sample_library = (Inr (), l1) \<and>
     native_dash_create list_registry (\<lambda>u. u) (\<lambda>d. True) (sample_config True) l1 = Inr (''http://h/v/a.mpd'' @ [CHR 0x00], l2) \<and>
     native_library_release list_registry (sample_config True) 1 l2 = Inr l3 \<and>
     native_library_initialize list_registry (sample_config True) l3 = (Inr (), l4)) \<and>
   (\<exists>l1 l3 what. native_library_initialize list_registry (sample_config False) sample_library = (Inr (), l1) \<and>
     native_library_release list_registry (sample_config False) 1 l1 = Inr l3 \<and>
     fst (native_library_initialize list_registry (sample_config False) l3) = Inl (Throw (Runtime_error what)))"
proof (rule conjI)
  let ?c = "sample_config True"
  obtain l1 where l1: "native_library_initialize list_registry ?c sample_library = (Inr (), l1)"
    by (simp add: sample_library_def sample_config_def default_config_def native_library_initialize_def plugin_logger_names_def
        make_logger_def make_async_logger_def make_logger_of_def list_registry_def)
  then have names: "registry l1 = [''plugin.render'', ''plugin.update'', ''plugin'']" "has_compute l1"
      "plugin_loggers l1 ''plugin'' \<noteq> None" "callback_list l1 = []"
    by (auto simp: sample_library_def sample_config_def default_config_def native_library_initialize_def plugin_logger_names_def
        make_logger_def make_async_logger_def make_logger_of_def list_registry_def)
  obtain l2 where l2: "native_dash_create list_registry (\<lambda>u. u) (\<lambda>d. True) ?c l1 = Inr (''http://h/v/a.mpd'' @ [CHR 0x00], l2)"
    "has_compute l2" "plugin_loggers l2 ''plugin'' \<noteq> None"
    using names by (simp add: native_dash_create_def sample_config_def default_config_def network_sink_def traced_manager_def
        dash_trace_by_def make_async_logger_def make_logger_of_def list_registry_def unmanaged_string_def)
  obtain l3 where l3: "native_library_release list_registry ?c 1 l2 = Inr l3"
    using l2(2,3) by (auto simp: native_library_release_def sample_config_def default_config_def Let_def)
  have "(library_step list_registry sample_plane ?c (\<lambda>u. u))\<^sup>*\<^sup>* l1 l2"
    using library_step.created [OF l2(1)] by blast
  from restart_needs_tracing [OF listed.logger_registry_axioms l1 this l3] l1 l2(1) l3
  show "\<exists>l1 l2 l3 l4. native_library_initialize list_registry ?c sample_library = (Inr (), l1) \<and>
     native_dash_create list_registry (\<lambda>u. u) (\<lambda>d. True) ?c l1 = Inr (''http://h/v/a.mpd'' @ [CHR 0x00], l2) \<and>
     native_library_release list_registry ?c 1 l2 = Inr l3 \<and> native_library_initialize list_registry ?c l3 = (Inr (), l4)"
    by (auto simp: sample_config_def)
next
  let ?c = "sample_config False"
  obtain l1 where l1: "native_library_initialize list_registry ?c sample_library = (Inr (), l1)"
    by (simp add: sample_library_def sample_config_def default_config_def native_library_initialize_def plugin_logger_names_def
        make_logger_def make_logger_of_def list_registry_def)
  obtain l3 where l3: "native_library_release list_registry ?c 1 l1 = Inr l3"
    by (auto simp: native_library_release_def sample_config_def default_config_def Let_def)
  have "(library_step list_registry sample_plane ?c (\<lambda>u. u))\<^sup>*\<^sup>* l1 l1" by simp
  from restart_needs_tracing [OF listed.logger_registry_axioms l1 this l3] l1 l3
  show "\<exists>l1 l3 what. native_library_initialize list_registry ?c sample_library = (Inr (), l1) \<and>
     native_library_release list_registry ?c 1 l1 = Inr l3 \<and>
     fst (native_library_initialize list_registry ?c l3) = Inl (Throw (Runtime_error what))"
    by (auto simp: sample_config_def default_config_def)
qed

text \<open>A second manager before the loggers are dropped is never there: its future holds the exception.\<close>

lemma second_manager_fails:
  assumes "logger_registry lib names" and "native_dash_create lib uri_str is_dir c l = Inr (answer, l1)"
    and "(library_step lib plane_data c uri_str)\<^sup>*\<^sup>* l1 l2"
    and "native_dash_create lib uri_str is_dir c l2 = Inr (answer2, l3)"
  shows "\<exists>what. manager_state l3 = Failed_future (Runtime_error what)"
proof -
  from assms(2) obtain sink where "traced_manager lib sink l = Inr l1"
    by (auto simp: native_dash_create_def outcome_simps Let_def)
  with logger_registry.traced_manager_names [OF assms(1)] logger_registry.library_steps_names [OF assms(1,3)]
  have "''dash.manager'' \<in> names (registry l2)" by blast
  moreover from assms(4) obtain sink2 where "traced_manager lib sink2 l2 = Inr l3"
    by (auto simp: native_dash_create_def outcome_simps Let_def)
  ultimately show ?thesis
    using logger_registry.traced_manager_cases(2) [OF assms(1), of l2 sink2] by auto
qed

end
