(* ===== verification/Graphic.thy ===== *)
theory Graphic
  imports Prelude "HOL-Library.Word"
begin

text \<open>
  The textures of the player: \<^verbatim>\<open>src/gallery/graphic.h\<close> and \<^verbatim>\<open>src/gallery/graphic.cpp\<close>. The graphics
  device is a parameter that says which textures and views it creates; what the code asks of it is
  recorded as a list of calls, and the objects it hands out are numbered. Sizes of textures are
  \<open>32 word\<close>, as \<^verbatim>\<open>UINT\<close> is; sizes of frames are \<^verbatim>\<open>int\<close>. The order in which C++ evaluates the
  arguments of a call is unspecified: where it matters it is a parameter.
\<close>

section \<open>The device\<close>

type_synonym uint = "32 word"

datatype dxgi_format = A8_unorm

datatype texture_usage = Usage_default | Usage_dynamic | Usage_other

record texture_desc =
  desc_width :: uint
  desc_height :: uint
  mip_levels :: nat
  array_count :: nat
  texture_format :: dxgi_format
  sample_count :: nat
  sample_quality :: nat
  bind_shader :: bool
  cpu_write :: bool
  usage :: texture_usage

text \<open>Bytes of a plane, and the calls of the device and its context.\<close>

type_synonym plane = "int list"

datatype gpu_call =
    Create_texture nat texture_desc plane uint
  | Create_view nat nat
  | Update_subresource nat plane uint
  | Map_write nat plane
  | Copy_region "nat option" uint uint nat
  | Copy_resource "nat option" "nat option"
  | Get_context
  | Release_context
  | Release_object nat

record device =
  creates_texture :: "texture_desc \<Rightarrow> bool"
  creates_view :: "nat \<Rightarrow> bool"

text \<open>The objects handed out so far, the descriptions \<^verbatim>\<open>GetDesc\<close> answers with, and the calls made.\<close>

record gpu =
  next_object :: nat
  descs :: "nat \<Rightarrow> texture_desc option"
  gpu_calls :: "gpu_call list"

definition call_gpu :: "gpu_call \<Rightarrow> gpu \<Rightarrow> gpu" where
  "call_gpu c g = g\<lparr>gpu_calls := gpu_calls g @ [c]\<rparr>"

section \<open>Frames\<close>

record planar_frame =
  frame_width :: int
  frame_height :: int
  frame_data :: "plane list"
  linesize :: "int list"

text \<open>
  \<open>planar_stretch\<close> halves the size for every plane but the first. \<open>automatic_stretch\<close> is the call
  operator of the mutable lambda: it counts its own calls, and each plane calls it twice.
\<close>

definition planar_stretch :: "nat \<Rightarrow> int \<Rightarrow> int" where
  "planar_stretch index offset = (if index > 0 then offset sdiv 2 else offset)"

definition automatic_stretch :: "nat \<Rightarrow> int \<Rightarrow> int \<times> nat" where
  "automatic_stretch index offset = (if index > 0 then offset sdiv 2 else offset, index + 1)"

text \<open>The two arguments \<^verbatim>\<open>stretch(width), stretch(height)\<close>, in either order of evaluation.\<close>

definition stretched_arguments :: "bool \<Rightarrow> nat \<Rightarrow> int \<Rightarrow> int \<Rightarrow> (int \<times> int) \<times> nat" where
  "stretched_arguments left_first index w h =
     (if left_first
      then let (w1, i1) = automatic_stretch index w; (h1, i2) = automatic_stretch i1 h in ((w1, h1), i2)
      else let (h1, i1) = automatic_stretch index h; (w1, i2) = automatic_stretch i1 w in ((w1, h1), i2))"

section \<open>Making textures\<close>

definition alpha_texture_description :: "(texture_desc \<Rightarrow> texture_desc) \<Rightarrow> texture_desc" where
  "alpha_texture_description initialise = initialise
     \<lparr>desc_width = 0, desc_height = 0, mip_levels = 1, array_count = 1, texture_format = A8_unorm,
      sample_count = 1, sample_quality = 0, bind_shader = True, cpu_write = False, usage = Usage_default\<rparr>"

text \<open>\<^verbatim>\<open>folly::to<UINT>\<close> of an \<^verbatim>\<open>int\<close>.\<close>

definition to_uint :: "int \<Rightarrow> uint outcome" where
  "to_uint k = (if k < 0 then Inl (Throw Conversion_error) else Inr (word_of_int k))"

definition create_texture :: "device option \<Rightarrow> texture_desc \<Rightarrow> plane \<Rightarrow> uint \<Rightarrow> gpu \<Rightarrow> (nat \<times> gpu) outcome" where
  "create_texture dev d bytes pitch g =
     (case dev of
        None \<Rightarrow> Inl Undefined_behaviour
      | Some device \<Rightarrow>
          assert_that (creates_texture device d)
            (Inr (next_object g, call_gpu (Create_texture (next_object g) d bytes pitch)
                   (g\<lparr>next_object := next_object g + 1, descs := (descs g)(next_object g \<mapsto> d)\<rparr>))))"

definition make_dynamic_texture ::
  "device option \<Rightarrow> int \<Rightarrow> int \<Rightarrow> plane \<Rightarrow> gpu \<Rightarrow> (nat \<times> gpu) outcome" where
  "make_dynamic_texture dev w h bytes g =
     (let d = alpha_texture_description (\<lambda>d. d\<lparr>desc_width := word_of_int w, desc_height := word_of_int h,
                usage := Usage_dynamic, cpu_write := True\<rparr>)
      in and_then (to_uint w) (\<lambda>pitch. create_texture dev d bytes pitch g))"

definition make_default_texture ::
  "device option \<Rightarrow> int \<Rightarrow> int \<Rightarrow> plane \<Rightarrow> gpu \<Rightarrow> (nat \<times> gpu) outcome" where
  "make_default_texture dev w h bytes g =
     (let d = alpha_texture_description (\<lambda>d. d\<lparr>desc_width := word_of_int w, desc_height := word_of_int h,
                usage := Usage_default, cpu_write := False\<rparr>)
      in and_then (to_uint w) (\<lambda>pitch. create_texture dev d bytes pitch g))"

definition make_texture_view :: "device option \<Rightarrow> nat \<Rightarrow> gpu \<Rightarrow> (nat \<times> gpu) outcome" where
  "make_texture_view dev texture g =
     (case dev of
        None \<Rightarrow> Inl Undefined_behaviour
      | Some device \<Rightarrow>
          assert_that (creates_view device texture)
            (Inr (next_object g, call_gpu (Create_view (next_object g) texture)
                                   (g\<lparr>next_object := next_object g + 1\<rparr>))))"

record shader_resource =
  shader :: nat
  texture :: nat

definition make_shader_resource ::
  "device option \<Rightarrow> int \<Rightarrow> int \<Rightarrow> plane \<Rightarrow> bool \<Rightarrow> gpu \<Rightarrow> (shader_resource \<times> gpu) outcome" where
  "make_shader_resource dev w h bytes dynamic g =
     and_then (if dynamic then make_dynamic_texture dev w h bytes g
               else make_default_texture dev w h bytes g) (\<lambda>(t, g1).
     and_then (make_texture_view dev t g1) (\<lambda>(s, g2).
     Inr (\<lparr>shader = s, texture = t\<rparr>, g2)))"

text \<open>The overload with one value for every byte: assigning a negative count of bytes throws.\<close>

definition make_filled_resource ::
  "device option \<Rightarrow> int \<Rightarrow> int \<Rightarrow> int \<Rightarrow> bool \<Rightarrow> gpu \<Rightarrow> (shader_resource \<times> gpu) outcome" where
  "make_filled_resource dev w h fill dynamic g =
     (if w * h < 0 then Inl (Throw Length_error)
      else make_shader_resource dev w h (replicate (nat (w * h)) fill) dynamic g)"

text \<open>One object for each of the planes handed in, with the sizes of the counting lambda.\<close>

fun make_planes ::
  "(int \<Rightarrow> int \<Rightarrow> plane \<Rightarrow> gpu \<Rightarrow> ('r \<times> gpu) outcome) \<Rightarrow> bool \<Rightarrow> int \<Rightarrow> int \<Rightarrow> nat \<Rightarrow> plane list \<Rightarrow>
   gpu \<Rightarrow> ('r list \<times> gpu) outcome" where
  "make_planes create left_first w h index [] g = Inr ([], g)"
| "make_planes create left_first w h index (bytes # planes) g =
     (let ((w1, h1), index1) = stretched_arguments left_first index w h
      in and_then (create w1 h1 bytes g) (\<lambda>(r, g1).
         and_then (make_planes create left_first w h index1 planes g1) (\<lambda>(rs, g2).
         Inr (r # rs, g2))))"

definition make_texture_array ::
  "device option \<Rightarrow> bool \<Rightarrow> planar_frame \<Rightarrow> gpu \<Rightarrow> (nat list \<times> gpu) outcome" where
  "make_texture_array dev left_first f g =
     make_planes (make_default_texture dev) left_first (frame_width f) (frame_height f) 0
       (take 3 (frame_data f)) g"

definition make_resource_array ::
  "device option \<Rightarrow> bool \<Rightarrow> planar_frame \<Rightarrow> gpu \<Rightarrow> (shader_resource list \<times> gpu) outcome" where
  "make_resource_array dev left_first f g =
     make_planes (\<lambda>w h bytes. make_shader_resource dev w h bytes False) left_first
       (frame_width f) (frame_height f) 0 (take 3 (frame_data f)) g"

section \<open>The textures of the engine and the ring\<close>

text \<open>
  \<open>render_texture\<close> is the position in the ring of the element \<^verbatim>\<open>render_texture_iterator_\<close> points to.
\<close>

record graphic =
  device_of :: "device option"
  alphas :: "nat option list"
  alphas_temp :: "nat option list"
  textures_ring :: "shader_resource list list"
  render_texture :: "nat option"
  update_index :: nat

definition ring_capacity :: nat where
  "ring_capacity = 3"

definition fresh_graphic :: graphic where
  "fresh_graphic = \<lparr>device_of = None, alphas = replicate 3 None, alphas_temp = replicate 3 None,
     textures_ring = [], render_texture = None, update_index = 0\<rparr>"

definition clear_graphic :: "graphic \<Rightarrow> graphic" where
  "clear_graphic e = e\<lparr>update_index := 0, device_of := None, alphas := replicate 3 None\<rparr>"

definition store_textures :: "nat option \<Rightarrow> nat option \<Rightarrow> nat option \<Rightarrow> graphic \<Rightarrow> graphic" where
  "store_textures tex_y tex_u tex_v e = e\<lparr>alphas := [tex_y, tex_u, tex_v]\<rparr>"

definition store_temp_textures :: "nat option \<Rightarrow> nat option \<Rightarrow> nat option \<Rightarrow> graphic \<Rightarrow> graphic" where
  "store_temp_textures tex_y tex_u tex_v e = e\<lparr>alphas_temp := [tex_y, tex_u, tex_v]\<rparr>"

definition emplace_ring_back_if_vacant ::
  "bool \<Rightarrow> int \<Rightarrow> int \<Rightarrow> graphic \<times> gpu \<Rightarrow> (shader_resource list \<times> graphic \<times> gpu) outcome" where
  "emplace_ring_back_if_vacant left_first w h = (\<lambda>(e, g).
     and_then
       (if length (textures_ring e) \<noteq> ring_capacity
        then and_then (make_planes (\<lambda>w1 h1 _. make_filled_resource (device_of e) w1 h1 (- 128) False)
                         left_first w h 0 [[], [], []] g) (\<lambda>(resource_array, g1).
             Inr (e\<lparr>textures_ring := textures_ring e @ [resource_array]\<rparr>, g1))
        else Inr (e, g)) (\<lambda>(e1, g1).
     Inr (last (textures_ring e1), e1, g1)))"

definition has_rendered_texture :: "graphic \<Rightarrow> bool" where
  "has_rendered_texture e \<longleftrightarrow> render_texture e \<noteq> None"

definition available_texture_slot :: "graphic \<Rightarrow> nat" where
  "available_texture_slot e = ring_capacity - length (textures_ring e)"

text \<open>Rotating to the position past the last element breaks the precondition of the ring.\<close>

definition rotate_ring_front_if_full :: "graphic \<Rightarrow> (shader_resource list option \<times> graphic) outcome" where
  "rotate_ring_front_if_full e =
     (if length (textures_ring e) = ring_capacity
      then and_then
             (case render_texture e of
                None \<Rightarrow> Inr (textures_ring e)
              | Some p \<Rightarrow> if p + 1 < length (textures_ring e) then Inr (rotate (p + 1) (textures_ring e))
                         else Inl Undefined_behaviour) (\<lambda>ring.
             Inr (Some (hd ring), e\<lparr>textures_ring := ring, render_texture := Some 0\<rparr>))
      else Inr (None, e))"

section \<open>Updating and copying textures\<close>

text \<open>Writing more bytes than the plane has reads past its end.\<close>

definition map_texture_data :: "nat \<Rightarrow> plane \<Rightarrow> nat \<Rightarrow> gpu \<Rightarrow> gpu outcome" where
  "map_texture_data t bytes count g =
     (if count \<le> length bytes then Inr (call_gpu (Map_write t (take count bytes)) g)
      else Inl Undefined_behaviour)"

definition update_plane :: "planar_frame \<Rightarrow> nat \<Rightarrow> nat option \<Rightarrow> gpu \<Rightarrow> gpu outcome" where
  "update_plane f index tex g =
     (case tex of
        None \<Rightarrow> Inl Assert_failed
      | Some t \<Rightarrow>
          case descs g t of
            None \<Rightarrow> Inl Undefined_behaviour
          | Some d \<Rightarrow>
              let bytes = frame_data f ! index
              in assert_that (word_of_int (planar_stretch index (frame_width f)) = desc_width d)
                (assert_that (word_of_int (planar_stretch index (frame_height f)) = desc_height d)
                (assert_that (planar_stretch index (frame_width f) = linesize f ! index)
                (case usage d of
                   Usage_default \<Rightarrow> Inr (call_gpu (Update_subresource t bytes (desc_width d)) g)
                 | Usage_dynamic \<Rightarrow>
                     let planar_size = unat (desc_width d * desc_height d)
                     in map_texture_data t bytes planar_size g
                 | Usage_other \<Rightarrow> Inl Assert_failed))))"

fun update_planes :: "planar_frame \<Rightarrow> nat \<Rightarrow> nat option list \<Rightarrow> gpu \<Rightarrow> gpu outcome" where
  "update_planes f index [] g = Inr g"
| "update_planes f index (tex # texs) g =
     and_then (update_plane f index tex g) (update_planes f (Suc index) texs)"

definition update_frame_texture :: "nat option list \<Rightarrow> planar_frame \<Rightarrow> gpu \<Rightarrow> gpu outcome" where
  "update_frame_texture texture_array f g = update_planes f 0 texture_array g"

text \<open>
  An offset is passed as \<^verbatim>\<open>unsigned\<close> to a lambda that takes and returns \<^verbatim>\<open>int\<close>, and back to \<^verbatim>\<open>UINT\<close>.
\<close>

definition stretch_offset :: "nat \<Rightarrow> uint \<Rightarrow> uint" where
  "stretch_offset index offset = word_of_int (planar_stretch index (sint offset))"

fun copy_planes ::
  "(nat \<Rightarrow> nat option outcome) \<Rightarrow> uint \<Rightarrow> uint \<Rightarrow> nat \<Rightarrow> nat option list \<Rightarrow> gpu \<Rightarrow> gpu outcome" where
  "copy_planes destination x y index [] g = Inr g"
| "copy_planes destination x y index (tex # texs) g =
     (case tex of
        None \<Rightarrow> Inl Assert_failed
      | Some t \<Rightarrow>
          and_then (destination index) (\<lambda>d.
            copy_planes destination x y (Suc index) texs
              (call_gpu (Copy_region d (stretch_offset index x) (stretch_offset index y) t) g)))"

definition copy_backward_texture_region ::
  "nat option list \<Rightarrow> uint \<Rightarrow> uint \<Rightarrow> graphic \<Rightarrow> gpu \<Rightarrow> gpu outcome" where
  "copy_backward_texture_region texture_array width_offset height_offset e g =
     copy_planes (\<lambda>index. if textures_ring e = [] then Inl Undefined_behaviour
                          else Inr (Some (texture (last (textures_ring e) ! index))))
       width_offset height_offset 0 texture_array g"

definition copy_temp_texture_region ::
  "nat option list \<Rightarrow> uint \<Rightarrow> uint \<Rightarrow> graphic \<Rightarrow> gpu \<Rightarrow> gpu outcome" where
  "copy_temp_texture_region texture_array width_offset height_offset e g =
     copy_planes (\<lambda>index. Inr (alphas_temp e ! index)) width_offset height_offset 0 texture_array g"

text \<open>The context is there when the device is; the pointer that owns it releases it at the end.\<close>

definition update_context :: "graphic \<Rightarrow> gpu \<Rightarrow> bool \<times> gpu" where
  "update_context e g =
     (case device_of e of
        None \<Rightarrow> (False, g)
      | Some device \<Rightarrow> (True, call_gpu Get_context g))"

definition overwrite_main_texture :: "graphic \<Rightarrow> gpu \<Rightarrow> gpu" where
  "overwrite_main_texture e g =
     (let (has_context, g1) = update_context e g
      in if has_context
         then let copies = map (\<lambda>index. Copy_resource (alphas e ! index) (alphas_temp e ! index)) [0..<3]
              in call_gpu Release_context (fold call_gpu copies g1)
         else g1)"

section \<open>Device events\<close>

datatype device_event = Initialize | Shutdown | Before_reset | After_reset

datatype renderer = Renderer_null | Renderer_d3d11 | Renderer_other

definition process_event :: "device \<Rightarrow> device_event \<Rightarrow> graphic \<Rightarrow> graphic" where
  "process_event device event e =
     (case event of
        Initialize \<Rightarrow> (clear_graphic e)\<lparr>device_of := Some device\<rparr>
      | Shutdown \<Rightarrow> clear_graphic e
      | _ \<Rightarrow> e)"

record engine =
  graphic_entity :: "graphic option"
  unity_time :: int
  unity_device :: renderer
  callback_registered :: bool

definition on_graphics_device_event ::
  "renderer \<Rightarrow> device \<Rightarrow> device_event \<Rightarrow> engine \<Rightarrow> engine outcome" where
  "on_graphics_device_event current device event u =
     and_then
       (if event = Initialize
        then assert_that (current = Renderer_d3d11)
               (Inr (u\<lparr>unity_time := 0, graphic_entity := Some fresh_graphic, unity_device := Renderer_d3d11\<rparr>))
        else Inr u) (\<lambda>u1.
     let u2 = u1\<lparr>graphic_entity := map_option (process_event device event) (graphic_entity u1)\<rparr>
     in Inr (if event = Shutdown then u2\<lparr>unity_device := Renderer_null, graphic_entity := None\<rparr> else u2))"

definition unity_plugin_load :: "bool \<Rightarrow> bool \<Rightarrow> renderer \<Rightarrow> device \<Rightarrow> engine \<Rightarrow> engine outcome" where
  "unity_plugin_load has_graphics has_graphics_dx11 current device u =
     assert_that has_graphics (assert_that has_graphics_dx11
       (on_graphics_device_event current device Initialize (u\<lparr>callback_registered := True\<rparr>)))"

definition unity_plugin_unload :: "engine \<Rightarrow> engine" where
  "unity_plugin_unload u = u\<lparr>callback_registered := False\<rparr>"

text \<open>The calls of the engine dereference the entity without a check.\<close>

definition native_graphic_set_textures ::
  "nat option \<Rightarrow> nat option \<Rightarrow> nat option \<Rightarrow> bool \<Rightarrow> engine \<Rightarrow> engine outcome" where
  "native_graphic_set_textures tex_y tex_u tex_v temp u =
     (case graphic_entity u of
        None \<Rightarrow> Inl Undefined_behaviour
      | Some e \<Rightarrow>
          Inr (u\<lparr>graphic_entity := Some (if temp then store_temp_textures tex_y tex_u tex_v e
                                          else store_textures tex_y tex_u tex_v e)\<rparr>))"

definition native_graphic_create_textures ::
  "int \<Rightarrow> int \<Rightarrow> int \<Rightarrow> engine \<times> gpu \<Rightarrow> (nat \<times> gpu) outcome" where
  "native_graphic_create_textures w h fill = (\<lambda>(u, g).
     case graphic_entity u of
       None \<Rightarrow> Inl Undefined_behaviour
     | Some e \<Rightarrow> and_then (make_filled_resource (device_of e) w h fill True g) (\<lambda>(r, g1). Inr (shader r, g1)))"

definition native_test_graphic_create :: "engine \<Rightarrow> engine" where
  "native_test_graphic_create u = u\<lparr>graphic_entity := Some fresh_graphic\<rparr>"

section \<open>Making objects\<close>

text \<open>
  What makers of textures and of resources share: the object is new, carries the size asked for, and
  the descriptions of older objects stay.
\<close>

locale object_maker =
  fixes create :: "int \<Rightarrow> int \<Rightarrow> plane \<Rightarrow> gpu \<Rightarrow> ('r \<times> gpu) outcome"
    and object :: "'r \<Rightarrow> nat"
  assumes fresh: "create w h bytes g = Inr (r, g1) \<Longrightarrow> next_object g \<le> object r \<and> object r < next_object g1"
    and older: "create w h bytes g = Inr (r, g1) \<Longrightarrow> t < next_object g \<Longrightarrow> descs g1 t = descs g t"
    and sized: "create w h bytes g = Inr (r, g1) \<Longrightarrow>
      \<exists>d. descs g1 (object r) = Some d \<and> desc_width d = word_of_int w \<and> desc_height d = word_of_int h"
begin

lemma planes_step:
  assumes "make_planes create left_first w h i (bytes # planes) g = Inr (rs, g2)"
  obtains w1 h1 i1 r g1 rs' where "stretched_arguments left_first i w h = ((w1, h1), i1)"
    "create w1 h1 bytes g = Inr (r, g1)" "make_planes create left_first w h i1 planes g1 = Inr (rs', g2)"
    "rs = r # rs'"
  using assms by (auto simp: and_then_eq_Inr split: prod.splits)

lemma planes_fresh:
  "make_planes create left_first w h i planes g = Inr (rs, g1) \<Longrightarrow>
   length rs = length planes \<and> next_object g \<le> next_object g1 \<and> distinct (map object rs) \<and>
   (\<forall>r\<in>set rs. next_object g \<le> object r \<and> object r < next_object g1) \<and>
   (\<forall>t<next_object g. descs g1 t = descs g t)"
proof (induction planes arbitrary: i g rs)
  case (Cons bytes planes)
  from Cons.prems obtain w1 h1 i1 r g' rs' where c: "create w1 h1 bytes g = Inr (r, g')"
    and m: "make_planes create left_first w h i1 planes g' = Inr (rs', g1)" and rs: "rs = r # rs'"
    by (rule planes_step)
  note f = fresh [OF c] and ih = Cons.IH [OF m]
  have "descs g1 t = descs g t" if "t < next_object g" for t
    using older [OF c that] f ih that by simp
  then show ?case using f ih by (fastforce simp: rs)
qed simp

text \<open>The first object has the sizes of the first two calls of the counting lambda.\<close>

lemma first_plane_size:
  assumes "make_planes create left_first w h 0 (bytes # planes) g = Inr (rs, g1)"
  shows "\<exists>d. descs g1 (object (hd rs)) = Some d \<and>
    desc_width d = word_of_int (if left_first then w else w sdiv 2) \<and>
    desc_height d = word_of_int (if left_first then h sdiv 2 else h)"
proof -
  from assms obtain w1 h1 i1 r g' rs' where a: "stretched_arguments left_first 0 w h = ((w1, h1), i1)"
    and c: "create w1 h1 bytes g = Inr (r, g')"
    and m: "make_planes create left_first w h i1 planes g' = Inr (rs', g1)" and rs: "rs = r # rs'"
    by (rule planes_step)
  from sized [OF c] obtain d where d: "descs g' (object r) = Some d" "desc_width d = word_of_int w1"
    "desc_height d = word_of_int h1" by blast
  moreover have "descs g1 (object r) = descs g' (object r)"
    using planes_fresh [OF m] fresh [OF c] by simp
  ultimately show ?thesis using a
    by (auto simp: rs stretched_arguments_def automatic_stretch_def split: if_splits)
qed

end

lemma create_texture_Inr:
  "create_texture dev d bytes pitch g = Inr (t, g1) \<longleftrightarrow>
   (\<exists>device. dev = Some device \<and> creates_texture device d \<and> t = next_object g \<and>
      g1 = call_gpu (Create_texture t d bytes pitch) (g\<lparr>next_object := t + 1, descs := (descs g)(t \<mapsto> d)\<rparr>))"
  by (auto simp: create_texture_def assert_that_eq_Inr split: option.splits)

lemmas maker_defs = make_default_texture_def make_dynamic_texture_def make_shader_resource_def make_texture_view_def
  make_filled_resource_def alpha_texture_description_def and_then_eq_Inr assert_that_eq_Inr create_texture_Inr
  call_gpu_def

interpretation texture_maker: object_maker "make_default_texture dev" "\<lambda>t. t" for dev
  by unfold_locales (auto simp: maker_defs)

interpretation resource_maker: object_maker "\<lambda>w h bytes. make_shader_resource dev w h bytes False" texture for dev
  by unfold_locales (auto simp: maker_defs split: option.splits)

interpretation ring_maker: object_maker "\<lambda>w h bytes. make_filled_resource dev w h (- 128) False" texture for dev
  by unfold_locales (auto simp: maker_defs split: option.splits if_splits)

section \<open>The counting lambda does not fit\<close>

lemma word_of_int_small_eq: "0 \<le> a \<Longrightarrow> a < 2 ^ 31 \<Longrightarrow> 0 \<le> b \<Longrightarrow> b < 2 ^ 31 \<Longrightarrow>
  (word_of_int a :: uint) = word_of_int b \<longleftrightarrow> a = b"
  by (simp add: word_of_int_eq_iff take_bit_int_eq_self)

lemma halved_size_differs: "0 < k \<Longrightarrow> k < 2 ^ 31 \<Longrightarrow> (word_of_int (k sdiv 2) :: uint) \<noteq> word_of_int k"
  by (subst word_of_int_small_eq) auto

lemma update_planes_assertion: "update_plane f i tex g = Inl e \<Longrightarrow> update_planes f i (tex # texs) g = Inl e"
  by simp

text \<open>
  Claim C29. The textures \<open>make_texture_array\<close> makes for a frame do not fit the frame: the lambda that
  halves the sizes of the second and third plane counts its calls, two for each plane, so it halves
  one side of the first plane as well, whichever argument is evaluated first. Updating the textures
  with the very frame they were made for fails the assertion on the size of the first plane.
\<close>

theorem automatic_textures_rejected:
  assumes made: "make_texture_array dev left_first f g = Inr (texs, g1)"
    and planes: "frame_data f \<noteq> []"
    and w: "0 < frame_width f" "frame_width f < 2 ^ 31"
    and h: "0 < frame_height f" "frame_height f < 2 ^ 31"
  shows "update_frame_texture (map Some texs) f g1 = Inl Assert_failed"
proof -
  from planes obtain bytes others where p: "take 3 (frame_data f) = bytes # others"
    by (cases "frame_data f") (auto simp: take_Cons')
  note made' = made [unfolded make_texture_array_def p]
  from texture_maker.planes_fresh [OF made'] obtain t ts where texs: "texs = t # ts"
    by (cases texs) auto
  from texture_maker.first_plane_size [OF made'] obtain d where "descs g1 t = Some d"
    "desc_width d = word_of_int (if left_first then frame_width f else frame_width f sdiv 2)"
    "desc_height d = word_of_int (if left_first then frame_height f sdiv 2 else frame_height f)"
    by (auto simp: texs)
  then have "update_plane f 0 (Some t) g1 = Inl Assert_failed"
    using halved_size_differs [OF w] halved_size_differs [OF h]
    by (cases left_first) (auto simp: update_plane_def planar_stretch_def assert_that_def)
  then show ?thesis by (simp add: update_frame_texture_def texs)
qed

definition sample_device :: device where
  "sample_device = \<lparr>creates_texture = (\<lambda>_. True), creates_view = (\<lambda>_. True)\<rparr>"

definition sample_gpu :: gpu where
  "sample_gpu = \<lparr>next_object = 0, descs = (\<lambda>_. None), gpu_calls = []\<rparr>"

definition sample_planar_frame :: planar_frame where
  "sample_planar_frame = \<lparr>frame_width = 4, frame_height = 2,
     frame_data = [replicate 8 7, replicate 2 5, replicate 2 3], linesize = [4, 2, 2]\<rparr>"

lemma automatic_textures_rejected_witness:
  "\<exists>texs g1. make_texture_array (Some sample_device) True sample_planar_frame sample_gpu = Inr (texs, g1) \<and>
     update_frame_texture (map Some texs) sample_planar_frame g1 = Inl Assert_failed"
proof -
  obtain texs g1 where m: "make_texture_array (Some sample_device) True sample_planar_frame sample_gpu = Inr (texs, g1)"
    by (simp add: make_texture_array_def sample_planar_frame_def sample_device_def stretched_arguments_def
        automatic_stretch_def make_default_texture_def to_uint_def create_texture_def Let_def)
  then show ?thesis
    using automatic_textures_rejected [OF m] by (auto simp: sample_planar_frame_def)
qed

section \<open>Updating the planes\<close>

text \<open>What one plane must be like, and the call that updates it.\<close>

definition plane_fits :: "planar_frame \<Rightarrow> gpu \<Rightarrow> nat \<Rightarrow> nat option \<Rightarrow> bool" where
  "plane_fits f g index tex =
     (case tex of
        None \<Rightarrow> False
      | Some t \<Rightarrow> case descs g t of
          None \<Rightarrow> False
        | Some d \<Rightarrow> desc_width d = word_of_int (planar_stretch index (frame_width f)) \<and>
            desc_height d = word_of_int (planar_stretch index (frame_height f)) \<and>
            linesize f ! index = planar_stretch index (frame_width f) \<and>
            (usage d = Usage_default \<or>
             usage d = Usage_dynamic \<and> unat (desc_width d * desc_height d) \<le> length (frame_data f ! index)))"

definition plane_upload :: "planar_frame \<Rightarrow> gpu \<Rightarrow> nat \<Rightarrow> nat option \<Rightarrow> gpu_call" where
  "plane_upload f g index tex =
     (let t = the tex; d = the (descs g t); bytes = frame_data f ! index
      in if usage d = Usage_default then Update_subresource t bytes (desc_width d)
         else Map_write t (take (unat (desc_width d * desc_height d)) bytes))"

lemma update_plane_Inr:
  "update_plane f i tex g = Inr g1 \<longleftrightarrow> plane_fits f g i tex \<and> g1 = call_gpu (plane_upload f g i tex) g"
proof (cases "\<exists>t d. tex = Some t \<and> descs g t = Some d")
  case True
  then obtain t d where "tex = Some t" "descs g t = Some d" by blast
  then show ?thesis
    by (cases "usage d") (auto simp: update_plane_def map_texture_data_def plane_fits_def plane_upload_def assert_that_def Let_def split: if_splits)
next
  case False
  then show ?thesis by (auto simp: update_plane_def plane_fits_def split: option.splits)
qed

lemma call_gpu_kept [simp]: "descs (call_gpu c g) = descs g" "next_object (call_gpu c g) = next_object g"
  "gpu_calls (call_gpu c g) = gpu_calls g @ [c]"
  by (simp_all add: call_gpu_def)

lemma plane_call_kept [simp]: "plane_fits f (call_gpu c g) = plane_fits f g"
  "plane_upload f (call_gpu c g) = plane_upload f g"
  by (simp_all add: fun_eq_iff plane_fits_def plane_upload_def split: option.splits)

lemma update_planes_Inr:
  "update_planes f i texs g = Inr g1 \<longleftrightarrow>
   list_all (\<lambda>(j, tex). plane_fits f g j tex) (enumerate i texs) \<and>
   g1 = fold call_gpu (map (\<lambda>(j, tex). plane_upload f g j tex) (enumerate i texs)) g"
proof (induction texs arbitrary: i g)
  case (Cons tex texs)
  show ?case by (auto simp: and_then_eq_Inr update_plane_Inr Cons.IH)
qed auto

text \<open>
  Updating a frame's textures succeeds exactly when every texture is there and has the
  plane's size, the rows of the frame have no padding, and the bytes of a dynamic texture are there;
  then it makes one upload for each plane, in order, and nothing else.
\<close>

theorem frame_planes_updated:
  "update_frame_texture texs f g = Inr g1 \<longleftrightarrow>
   list_all (\<lambda>(j, tex). plane_fits f g j tex) (enumerate 0 texs) \<and>
   g1 = fold call_gpu (map (\<lambda>(j, tex). plane_upload f g j tex) (enumerate 0 texs)) g"
  by (simp add: update_frame_texture_def update_planes_Inr)

lemma frame_planes_updated_witness:
  "\<exists>g::gpu. \<exists>g1. update_frame_texture [Some 0, Some 1, Some 2] sample_planar_frame g = Inr g1 \<and> length (gpu_calls g1) = 3"
proof -
  let ?d = "\<lambda>w h. alpha_texture_description (\<lambda>d. d\<lparr>desc_width := w, desc_height := h\<rparr>)"
  let ?g = "sample_gpu\<lparr>descs := [0 \<mapsto> ?d 4 2, 1 \<mapsto> ?d 2 1, 2 \<mapsto> ?d 2 1]\<rparr>"
  let ?g1 = "fold call_gpu (map (\<lambda>(j, tex). plane_upload sample_planar_frame ?g j tex)
    (enumerate 0 [Some 0, Some 1, Some 2])) ?g"
  have "update_frame_texture [Some 0, Some 1, Some 2] sample_planar_frame ?g = Inr ?g1"
    by (rule frame_planes_updated [THEN iffD2])
      (simp add: plane_fits_def sample_planar_frame_def planar_stretch_def alpha_texture_description_def)
  moreover have "length (gpu_calls ?g1) = 3" by (simp add: sample_gpu_def)
  ultimately show ?thesis by blast
qed

section \<open>The ring of textures\<close>

datatype ring_op = Emplace int int | Rotate_front

text \<open>What callers do with the ring: the arrays handed out are collected.\<close>

fun ring_step ::
  "bool \<Rightarrow> ring_op \<Rightarrow> graphic \<times> gpu \<times> shader_resource list list \<Rightarrow>
   (graphic \<times> gpu \<times> shader_resource list list) outcome" where
  "ring_step left_first (Emplace w h) (e, g, given) =
     and_then (emplace_ring_back_if_vacant left_first w h (e, g)) (\<lambda>(_, e1, g1). Inr (e1, g1, given))"
| "ring_step left_first Rotate_front (e, g, given) =
     and_then (rotate_ring_front_if_full e) (\<lambda>(r, e1).
       Inr (e1, g, case r of None \<Rightarrow> given | Some resource_array \<Rightarrow> given @ [resource_array]))"

fun ring_run ::
  "bool \<Rightarrow> ring_op list \<Rightarrow> graphic \<times> gpu \<times> shader_resource list list \<Rightarrow>
   (graphic \<times> gpu \<times> shader_resource list list) outcome" where
  "ring_run left_first [] s = Inr s"
| "ring_run left_first (op # ops) s = and_then (ring_step left_first op s) (ring_run left_first ops)"

fun emplace_fits :: "ring_op \<Rightarrow> bool" where
  "emplace_fits (Emplace w h) \<longleftrightarrow> 0 \<le> w \<and> 0 \<le> h"
| "emplace_fits Rotate_front \<longleftrightarrow> True"

definition serves_all :: "device option \<Rightarrow> bool" where
  "serves_all dev = (\<exists>device. dev = Some device \<and> (\<forall>d. creates_texture device d) \<and> (\<forall>t. creates_view device t))"

text \<open>
  The ring holds the arrays in the order of their creation, turned by one place for each array handed
  out after the first; the arrays handed out go round.
\<close>

definition ring_of :: "shader_resource list list \<Rightarrow> nat \<Rightarrow> shader_resource list list" where
  "ring_of slots n = (if n = 0 then slots else rotate (n - 1) slots)"

definition ring_inv :: "shader_resource list list \<Rightarrow> graphic \<times> gpu \<times> shader_resource list list \<Rightarrow> bool" where
  "ring_inv slots = (\<lambda>(e, g, given).
     serves_all (device_of e) \<and> length slots \<le> ring_capacity \<and>
     list_all (\<lambda>rs. length rs = 3) slots \<and>
     distinct (map texture (concat slots)) \<and>
     (\<forall>r\<in>set (concat slots). texture r < next_object g) \<and>
     (given \<noteq> [] \<longrightarrow> length slots = ring_capacity) \<and>
     textures_ring e = ring_of slots (length given) \<and>
     render_texture e = (if given = [] then None else Some 0) \<and>
     given = map (\<lambda>k. slots ! (k mod ring_capacity)) [0..<length given])"

lemma filled_resource_made:
  assumes "serves_all dev" "0 \<le> w" "0 \<le> h"
  shows "\<exists>r g1. make_filled_resource dev w h c dynamic g = Inr (r, g1)"
  using assms
  by (auto simp: serves_all_def make_filled_resource_def make_shader_resource_def make_dynamic_texture_def
      make_default_texture_def make_texture_view_def to_uint_def create_texture_def not_less Let_def)

lemma ring_planes_made:
  assumes d: "serves_all dev" and w: "0 \<le> w" and h: "0 \<le> h"
  shows "\<exists>rs g1. make_planes (\<lambda>w1 h1 _. make_filled_resource dev w1 h1 (- 128) False) left_first w h i planes g
    = Inr (rs, g1)"
proof (induction planes arbitrary: i g)
  case (Cons bytes planes)
  obtain w1 h1 i1 where a: "stretched_arguments left_first i w h = ((w1, h1), i1)" and "0 \<le> w1" "0 \<le> h1"
    using w h by (cases left_first) (auto simp: stretched_arguments_def automatic_stretch_def)
  with filled_resource_made [OF d] obtain r g1 where "make_filled_resource dev w1 h1 (- 128) False g = Inr (r, g1)"
    by blast
  moreover obtain rs g2 where "make_planes (\<lambda>w1 h1 _. make_filled_resource dev w1 h1 (- 128) False)
      left_first w h i1 planes g1 = Inr (rs, g2)"
    using Cons.IH by blast
  ultimately show ?case by (simp add: a)
qed simp

lemma emplace_keeps_ring:
  assumes inv: "ring_inv slots (e, g, given)" and w: "0 \<le> w" and h: "0 \<le> h"
  shows "\<exists>slots' s'. ring_step left_first (Emplace w h) (e, g, given) = Inr s' \<and> ring_inv slots' s'"
proof (cases "length (textures_ring e) = ring_capacity")
  case True
  then show ?thesis using inv by (auto simp: emplace_ring_back_if_vacant_def)
next
  case False
  then have given: "given = []" and ring: "textures_ring e = slots" and l: "length slots < ring_capacity"
    using inv by (auto simp: ring_inv_def ring_of_def split: if_splits)
  from inv have dev: "serves_all (device_of e)" by (simp add: ring_inv_def)
  from ring_planes_made [OF dev w h] obtain rs g1 where
    m: "make_planes (\<lambda>w1 h1 _. make_filled_resource (device_of e) w1 h1 (- 128) False) left_first w h 0
      [[], [], []] g = Inr (rs, g1)" by blast
  from ring_maker.planes_fresh [OF m] have "length rs = 3" "next_object g \<le> next_object g1"
    "distinct (map texture rs)" "\<forall>r\<in>set rs. next_object g \<le> texture r \<and> texture r < next_object g1"
    by auto
  then have "ring_inv (slots @ [rs]) (e\<lparr>textures_ring := textures_ring e @ [rs]\<rparr>, g1, given)"
    using inv l ring given by (fastforce simp: ring_inv_def ring_of_def)
  then show ?thesis using False m by (auto simp: emplace_ring_back_if_vacant_def)
qed

lemma ring_front: "length slots = ring_capacity \<Longrightarrow> hd (rotate n slots) = slots ! (n mod ring_capacity)"
  by (subst hd_rotate_conv_nth) (auto simp: ring_capacity_def)

lemma rotate_keeps_ring:
  assumes inv: "ring_inv slots (e, g, given)"
  shows "\<exists>s'. ring_step left_first Rotate_front (e, g, given) = Inr s' \<and> ring_inv slots s'"
proof (cases "length (textures_ring e) = ring_capacity")
  case True
  then have l: "length slots = ring_capacity"
    using inv by (auto simp: ring_inv_def ring_of_def split: if_splits)
  let ?ring = "rotate (length given) slots"
  have "rotate_ring_front_if_full e = Inr (Some (hd ?ring), e\<lparr>textures_ring := ?ring, render_texture := Some 0\<rparr>)"
    using inv True l
    by (cases given) (auto simp: rotate_ring_front_if_full_def ring_inv_def ring_of_def ring_capacity_def rotate_rotate)
  moreover have "ring_inv slots (e\<lparr>textures_ring := ?ring, render_texture := Some 0\<rparr>, g, given @ [hd ?ring])"
    using inv l by (simp add: ring_inv_def ring_of_def ring_front)
  ultimately show ?thesis by auto
next
  case False
  then show ?thesis using inv by (auto simp: rotate_ring_front_if_full_def)
qed

lemma ring_run_inv:
  "ring_inv slots s \<Longrightarrow> list_all emplace_fits ops \<Longrightarrow>
   \<exists>slots' s'. ring_run left_first ops s = Inr s' \<and> ring_inv slots' s'"
proof (induction ops arbitrary: slots s)
  case (Cons op ops)
  obtain e g given where s: "s = (e, g, given)" by (cases s) auto
  from Cons.prems have inv: "ring_inv slots (e, g, given)" and fits: "emplace_fits op" "list_all emplace_fits ops"
    by (auto simp: s)
  have "\<exists>slots' s'. ring_step left_first op (e, g, given) = Inr s' \<and> ring_inv slots' s'"
    using fits emplace_keeps_ring [OF inv] rotate_keeps_ring [OF inv] by (cases op) (simp, blast)+
  with Cons.IH fits show ?case by (force simp: s)
qed auto

lemma back_not_last_given:
  assumes inv: "ring_inv slots (e, g, given)" and given: "given \<noteq> []"
  shows "set (map texture (last (textures_ring e))) \<inter> set (map texture (last given)) = {}"
proof -
  from inv given have l: "length slots = 3" by (simp add: ring_inv_def ring_capacity_def)
  then obtain a b c where slots: "slots = [a, b, c]" by (auto simp: length_Suc_conv numeral_3_eq_3)
  obtain n where n: "length given = Suc n" using given by (cases given) auto
  with inv have ring: "textures_ring e = rotate n slots" and g: "given = map (\<lambda>k. slots ! (k mod 3)) [0..<Suc n]"
    by (auto simp: ring_inv_def ring_of_def ring_capacity_def)
  from g have "last given = slots ! (n mod 3)" by simp
  moreover have "textures_ring e = rotate (n mod 3) slots" using rotate_conv_mod [of n slots] l ring by simp
  moreover have "n mod 3 = 0 \<or> n mod 3 = 1 \<or> n mod 3 = 2" by auto
  moreover have "texture ` set a \<inter> texture ` set b = {}" "texture ` set b \<inter> texture ` set c = {}"
    "texture ` set a \<inter> texture ` set c = {}"
    using inv slots by (auto simp: ring_inv_def)
  ultimately show ?thesis by (elim disjE) (simp_all add: slots rotate1_def numeral_2_eq_2 Int_commute)
qed



section \<open>The main textures and the device events\<close>

lemma overwrite_main_calls:
  "gpu_calls (overwrite_main_texture e g) = gpu_calls g @
     (if device_of e = None then []
      else [Get_context, Copy_resource (alphas e ! 0) (alphas_temp e ! 0),
            Copy_resource (alphas e ! 1) (alphas_temp e ! 1),
            Copy_resource (alphas e ! 2) (alphas_temp e ! 2), Release_context])"
  by (auto simp: overwrite_main_texture_def update_context_def upt_rec numeral_2_eq_2 split: option.splits)

text \<open>What the engine calls, and a run of such calls.\<close>

datatype engine_call =
    Device_event device_event
  | Set_textures "nat option" "nat option" "nat option" bool

fun engine_call_run :: "device \<Rightarrow> engine_call list \<Rightarrow> engine \<Rightarrow> engine outcome" where
  "engine_call_run device [] u = Inr u"
| "engine_call_run device (Device_event event # cs) u =
     and_then (on_graphics_device_event Renderer_d3d11 device event u) (engine_call_run device cs)"
| "engine_call_run device (Set_textures y u v temp # cs) s =
     and_then (native_graphic_set_textures y u v temp s) (engine_call_run device cs)"

text \<open>
  The specification: the main and the temporary textures of the device that lives, if one does. An
  initialisation starts over, a shutdown ends it, a store while none lives is a failure.
\<close>

fun engine_spec ::
  "engine_call list \<Rightarrow> (nat option list \<times> nat option list) option \<Rightarrow>
   (nat option list \<times> nat option list) option outcome" where
  "engine_spec [] s = Inr s"
| "engine_spec (Device_event Initialize # cs) s = engine_spec cs (Some (replicate 3 None, replicate 3 None))"
| "engine_spec (Device_event Shutdown # cs) s = engine_spec cs None"
| "engine_spec (Device_event _ # cs) s = engine_spec cs s"
| "engine_spec (Set_textures y u v temp # cs) s =
     (case s of None \<Rightarrow> Inl Undefined_behaviour
      | Some (main, temporary) \<Rightarrow>
          engine_spec cs (Some (if temp then (main, [y, u, v]) else ([y, u, v], temporary))))"

definition engine_view :: "engine \<Rightarrow> (nat option list \<times> nat option list) option" where
  "engine_view u = map_option (\<lambda>e. (alphas e, alphas_temp e)) (graphic_entity u)"

definition engine_ok :: "device \<Rightarrow> engine \<Rightarrow> bool" where
  "engine_ok device u = (case graphic_entity u of
     None \<Rightarrow> True
   | Some e \<Rightarrow> device_of e = Some device \<and> unity_device u = Renderer_d3d11)"

lemma device_event_step:
  "\<exists>u1. on_graphics_device_event Renderer_d3d11 device event u = Inr u1 \<and>
     (engine_ok device u \<longrightarrow> engine_ok device u1) \<and>
     engine_view u1 = (case event of Initialize \<Rightarrow> Some (replicate 3 None, replicate 3 None)
                                   | Shutdown \<Rightarrow> None | _ \<Rightarrow> engine_view u)"
  by (cases event; cases "graphic_entity u")
    (simp_all add: on_graphics_device_event_def engine_ok_def engine_view_def process_event_def clear_graphic_def
      fresh_graphic_def)


definition sample_engine :: engine where
  "sample_engine = \<lparr>graphic_entity = None, unity_time = 0, unity_device = Renderer_null, callback_registered = False\<rparr>"


end
