(* ===== verification/Trace_Store.thy ===== *)
theory Trace_Store
  imports Prelude "HOL-Library.Sublist"
begin

text \<open>
  The trace database of \<^verbatim>\<open>src/gallery/database.leveldb.h\<close>: producers put time-stamped entries into an
  unbounded queue, tasks take them out and put them into the store, and \<open>wait_consume_cancel\<close> ends the
  tasks. The threads' atomic actions are steps of one state; the clock decides when a task's waits end.
\<close>

section \<open>State\<close>

type_synonym entry = "string \<times> string"

text \<open>
  Where a consuming task stands. A blocking task waits at the queue. A timed one checks the flag, takes
  entries while its stride lasts, looks at the clock, and after the flag was cleared checks for and takes
  what is left.
\<close>

datatype consumer =
    Block_wait | Timed_check | Timed_stride nat | Timed_round | Timed_drain | Timed_take | Consumer_done

datatype canceller = Idle | Flag_cleared bool | Awaiting

text \<open>
  \<open>passed_check\<close> holds the entries of producers that saw the flag set and have not yet put them into the
  queue. \<open>puts\<close> and \<open>history\<close> record what was put into the store and what was put into the queue, each
  with the flag at that moment; \<open>cancels\<close> counts the calls of \<open>wait_consume_cancel\<close> that returned.
\<close>

record trace_store =
  active :: bool
  sink_queue :: "entry list"
  passed_check :: "entry list"
  consumers :: "consumer list"
  consume_latch :: "nat list"
  canceller_at :: canceller
  contents :: "string \<Rightarrow> string option"
  puts :: "entry list"
  history :: "(bool \<times> entry) list"
  cancels :: nat

definition batch_stride :: nat where
  "batch_stride = 20"

definition make_opened :: "bool \<Rightarrow> trace_store outcome" where
  "make_opened has_root_directory =
     assert_that has_root_directory
       (Inr \<lparr>active = True, sink_queue = [], passed_check = [], consumers = [], consume_latch = [],
             canceller_at = Idle, contents = Map.empty, puts = [], history = [], cancels = 0\<rparr>)"

section \<open>Operations\<close>

definition consume_task :: "bool \<Rightarrow> trace_store \<Rightarrow> trace_store" where
  "consume_task timed s = s\<lparr>consume_latch := consume_latch s @ [length (consumers s)],
     consumers := consumers s @ [if timed then Timed_check else Block_wait]\<rparr>"

definition timed_instance :: "string \<Rightarrow> string \<Rightarrow> string" where
  "timed_instance time inst = ''[time]'' @ time @ ''[instance]'' @ inst"

definition enqueue_entry :: "entry \<Rightarrow> trace_store \<Rightarrow> trace_store" where
  "enqueue_entry e s = s\<lparr>sink_queue := sink_queue s @ [e], history := history s @ [(active s, e)]\<rparr>"

text \<open>The callback reads the flag, and puts its entry into the queue in a second step.\<close>

definition produce_check :: "string \<Rightarrow> string \<Rightarrow> string \<Rightarrow> trace_store \<Rightarrow> trace_store" where
  "produce_check time inst event s =
     (if active s then s\<lparr>passed_check := passed_check s @ [(timed_instance time inst, event)]\<rparr> else s)"

definition produce_enqueue :: "nat \<Rightarrow> trace_store \<Rightarrow> trace_store option" where
  "produce_enqueue k s =
     (if k < length (passed_check s)
      then Some (enqueue_entry (passed_check s ! k)
             (s\<lparr>passed_check := take k (passed_check s) @ drop (Suc k) (passed_check s)\<rparr>))
      else None)"

text \<open>The key is passed as a C string, which ends at its first zero byte.\<close>

definition c_string :: "string \<Rightarrow> string" where
  "c_string s = takeWhile (\<lambda>c. c \<noteq> CHR 0x00) s"

definition put_entry :: "entry \<Rightarrow> trace_store \<Rightarrow> trace_store" where
  "put_entry e s = s\<lparr>puts := puts s @ [e], contents := (contents s)(c_string (fst e) \<mapsto> snd e)\<rparr>"

definition move_consumer :: "nat \<Rightarrow> consumer \<Rightarrow> trace_store \<Rightarrow> trace_store" where
  "move_consumer i c s = s\<lparr>consumers := (consumers s)[i := c]\<rparr>"

text \<open>
  A step of a task is nothing while the task blocks. \<open>opens\<close> says whether the store can be opened; the
  assertion in \<open>open_database\<close> demands it.
\<close>

definition block_consume_step :: "bool \<Rightarrow> nat \<Rightarrow> trace_store \<Rightarrow> trace_store outcome option" where
  "block_consume_step opens i s =
     (case sink_queue s of
        [] \<Rightarrow> None
      | e # queue \<Rightarrow>
          let s1 = s\<lparr>sink_queue := queue\<rparr>
          in Some (if fst e = [] then assert_that (\<not> active s1) (Inr (move_consumer i Consumer_done s1))
                   else assert_that opens (Inr (put_entry e s1))))"

datatype clock = Entry_in_time | Deadline | Time_left bool

definition timed_stride_step :: "nat \<Rightarrow> clock \<Rightarrow> nat \<Rightarrow> trace_store \<Rightarrow> trace_store outcome option" where
  "timed_stride_step stride_step choice i s =
     (if stride_step - 1 = 0 \<or> choice = Deadline then Some (Inr (move_consumer i Timed_round s))
      else case sink_queue s of
        [] \<Rightarrow> None
      | e # queue \<Rightarrow>
          Some (if fst e = [] then Inl (Throw Stream_drained_error)
                else Inr (move_consumer i (Timed_stride (stride_step - 1))
                            (put_entry e (s\<lparr>sink_queue := queue\<rparr>)))))"

definition consume_step :: "bool \<Rightarrow> clock \<Rightarrow> nat \<Rightarrow> trace_store \<Rightarrow> trace_store outcome option" where
  "consume_step opens choice i s =
     (if i < length (consumers s)
      then case consumers s ! i of
             Block_wait \<Rightarrow> block_consume_step opens i s
           | Timed_check \<Rightarrow>
               Some (if active s then assert_that opens (Inr (move_consumer i (Timed_stride batch_stride) s))
                     else Inr (move_consumer i Timed_drain s))
           | Timed_stride stride_step \<Rightarrow> timed_stride_step stride_step choice i s
           | Timed_round \<Rightarrow>
               Some (Inr (move_consumer i (if choice = Time_left True then Timed_stride batch_stride
                                           else Timed_check) s))
           | Timed_drain \<Rightarrow>
               Some (Inr (move_consumer i (if sink_queue s = [] then Consumer_done else Timed_take) s))
           | Timed_take \<Rightarrow>
               (case sink_queue s of
                  [] \<Rightarrow> None
                | e # queue \<Rightarrow> Some (assert_that opens
                    (Inr (move_consumer i Timed_drain (put_entry e (s\<lparr>sink_queue := queue\<rparr>))))))
           | Consumer_done \<Rightarrow> None
      else None)"

text \<open>\<open>wait_consume_cancel\<close>: clear the flag, send the empty entry, wait for the tasks.\<close>

definition cancel_begin :: "bool \<Rightarrow> trace_store \<Rightarrow> trace_store option" where
  "cancel_begin timed s =
     (if canceller_at s = Idle then Some (s\<lparr>active := False, canceller_at := Flag_cleared timed\<rparr>) else None)"

definition cancel_step :: "trace_store \<Rightarrow> trace_store option" where
  "cancel_step s =
     (case canceller_at s of
        Idle \<Rightarrow> None
      | Flag_cleared timed \<Rightarrow>
          Some ((if timed then s else enqueue_entry ('''', '''') s)\<lparr>canceller_at := Awaiting\<rparr>)
      | Awaiting \<Rightarrow>
          if list_all (\<lambda>i. consumers s ! i = Consumer_done) (consume_latch s)
          then Some (s\<lparr>consume_latch := [], canceller_at := Idle, cancels := cancels s + 1\<rparr>)
          else None)"

datatype store_event =
    Task bool | Check string string string | Enqueue nat | Consume nat clock | Cancel bool | Cancel_go

fun store_step :: "bool \<Rightarrow> store_event \<Rightarrow> trace_store \<Rightarrow> trace_store outcome option" where
  "store_step opens (Task timed) s = Some (Inr (consume_task timed s))"
| "store_step opens (Check time inst event) s = Some (Inr (produce_check time inst event s))"
| "store_step opens (Enqueue k) s = map_option Inr (produce_enqueue k s)"
| "store_step opens (Consume i choice) s = consume_step opens choice i s"
| "store_step opens (Cancel timed) s = map_option Inr (cancel_begin timed s)"
| "store_step opens Cancel_go s = map_option Inr (cancel_step s)"

text \<open>A run is nothing when one of its steps blocks, and ends with the first failure.\<close>

fun store_run :: "bool \<Rightarrow> store_event list \<Rightarrow> trace_store \<Rightarrow> trace_store outcome option" where
  "store_run opens [] s = Some (Inr s)"
| "store_run opens (e # es) s =
     (case store_step opens e s of
        None \<Rightarrow> None
      | Some (Inl f) \<Rightarrow> Some (Inl f)
      | Some (Inr s1) \<Rightarrow> store_run opens es s1)"

section \<open>One task\<close>

definition recorded :: "trace_store \<Rightarrow> entry list" where
  "recorded s = map snd (filter fst (history s))"

definition contents_of :: "entry list \<Rightarrow> string \<Rightarrow> string option" where
  "contents_of es = fold (\<lambda>e m. m(c_string (fst e) \<mapsto> snd e)) es Map.empty"

text \<open>Events of a run with the tasks it starts with, cancelled the way the tasks consume.\<close>

fun same_mode :: "bool \<Rightarrow> store_event \<Rightarrow> bool" where
  "same_mode timed (Task _) \<longleftrightarrow> False"
| "same_mode timed (Cancel t) \<longleftrightarrow> t = timed"
| "same_mode timed _ \<longleftrightarrow> True"

text \<open>What was queued while the flag was set comes before the rest.\<close>

definition early_first :: "(bool \<times> entry) list \<Rightarrow> bool" where
  "early_first h \<longleftrightarrow> (\<forall>n<length (filter fst h). fst (h ! n))"

lemma early_first_cleared: "early_first h \<Longrightarrow> early_first (h @ [(False, e)])"
  by (auto simp: early_first_def nth_append dest: order.strict_trans2 [OF _ length_filter_le])

lemma early_first_set: "\<forall>x\<in>set h. fst x \<Longrightarrow> early_first h"
  by (auto simp: early_first_def)

text \<open>While the flag is set all was queued under it, and an empty key only after it, by a blocking cancel.\<close>

definition flags_fit :: "bool \<Rightarrow> bool \<Rightarrow> (bool \<times> entry) list \<Rightarrow> bool" where
  "flags_fit timed flag h \<longleftrightarrow>
     (\<forall>(b, e)\<in>set h. (flag \<longrightarrow> b) \<and> (fst e = [] \<longrightarrow> \<not> b \<and> \<not> timed))"

lemma flags_fit_append [simp]:
  "flags_fit timed flag (h @ [(b, e)]) \<longleftrightarrow>
   flags_fit timed flag h \<and> (flag \<longrightarrow> b) \<and> (fst e = [] \<longrightarrow> \<not> b \<and> \<not> timed)"
  by (auto simp: flags_fit_def)

lemma flags_fit_cleared: "flags_fit timed flag h \<Longrightarrow> flags_fit timed False h"
  by (auto simp: flags_fit_def)

text \<open>What holds of the queue, the store and the flag, whatever the task does.\<close>

definition queue_inv :: "bool \<Rightarrow> trace_store \<Rightarrow> bool" where
  "queue_inv timed s \<longleftrightarrow>
     list_all (\<lambda>e. fst e \<noteq> []) (passed_check s) \<and>
     flags_fit timed (active s) (history s) \<and>
     early_first (history s) \<and>
     (canceller_at s \<noteq> Idle \<longrightarrow> \<not> active s) \<and>
     (\<forall>t. canceller_at s = Flag_cleared t \<longrightarrow> t = timed) \<and>
     contents s = contents_of (puts s)"

text \<open>What holds of the one task.\<close>

definition task_inv :: "bool \<Rightarrow> trace_store \<Rightarrow> bool" where
  "task_inv timed s \<longleftrightarrow> (\<exists>c. consumers s = [c] \<and>
     (timed \<longrightarrow> c \<noteq> Block_wait) \<and> (\<not> timed \<longrightarrow> c = Block_wait \<or> c = Consumer_done) \<and>
     (c = Timed_drain \<or> c = Timed_take \<or> c = Consumer_done \<longrightarrow> \<not> active s) \<and>
     (c = Consumer_done \<longrightarrow> length (filter fst (history s)) \<le> length (puts s)) \<and>
     (\<exists>gone. map snd (history s) = puts s @ gone @ sink_queue s \<and> (gone = [] \<or> c = Consumer_done)))"

lemma enqueue_keeps:
  assumes q: "queue_inv timed s" and t: "task_inv timed s" and e: "fst e = [] \<Longrightarrow> \<not> active s \<and> \<not> timed"
  shows "queue_inv timed (enqueue_entry e s)" "task_inv timed (enqueue_entry e s)"
proof -
  have "early_first (history s @ [(active s, e)])"
  proof (cases "active s")
    case True
    then show ?thesis using q by (intro early_first_set) (auto simp: queue_inv_def flags_fit_def)
  next
    case False
    then show ?thesis using q early_first_cleared [of "history s" e] by (simp add: queue_inv_def)
  qed
  then show "queue_inv timed (enqueue_entry e s)"
    using q e by (auto simp: queue_inv_def enqueue_entry_def)
  show "task_inv timed (enqueue_entry e s)"
    using t by (auto simp: task_inv_def enqueue_entry_def)
qed

lemma produce_keeps:
  assumes q: "queue_inv timed s" and t: "task_inv timed s" and p: "produce_enqueue k s = Some s1"
  shows "queue_inv timed s1 \<and> task_inv timed s1"
proof -
  let ?s = "s\<lparr>passed_check := take k (passed_check s) @ drop (Suc k) (passed_check s)\<rparr>"
  from p have k: "k < length (passed_check s)" and s1: "s1 = enqueue_entry (passed_check s ! k) ?s"
    by (auto simp: produce_enqueue_def split: if_splits)
  have key: "fst (passed_check s ! k) \<noteq> []"
    using q k by (simp add: queue_inv_def list_all_length)
  have "queue_inv timed ?s" "task_inv timed ?s"
    using q t k by (auto simp: queue_inv_def task_inv_def list_all_iff dest: in_set_takeD in_set_dropD)
  with enqueue_keeps [of timed ?s] key show ?thesis by (simp add: s1)
qed

lemma check_keeps:
  "queue_inv timed s \<Longrightarrow> task_inv timed s \<Longrightarrow>
   queue_inv timed (produce_check time inst event s) \<and> task_inv timed (produce_check time inst event s)"
  by (auto simp: queue_inv_def task_inv_def produce_check_def timed_instance_def)

lemma cancel_keeps:
  assumes "queue_inv timed s" "task_inv timed s"
  shows "cancel_begin timed s = Some s1 \<Longrightarrow> queue_inv timed s1 \<and> task_inv timed s1"
    and "cancel_step s = Some s2 \<Longrightarrow> queue_inv timed s2 \<and> task_inv timed s2"
proof -
  show "cancel_begin timed s = Some s1 \<Longrightarrow> queue_inv timed s1 \<and> task_inv timed s1"
    using assms by (auto simp: cancel_begin_def queue_inv_def task_inv_def flags_fit_cleared split: if_splits)
  assume c: "cancel_step s = Some s2"
  have sent: "queue_inv timed (enqueue_entry ([], []) s) \<and> task_inv timed (enqueue_entry ([], []) s)"
    if "canceller_at s = Flag_cleared False"
    using enqueue_keeps [OF assms, of "([], [])"] assms that by (auto simp: queue_inv_def)
  have moved: "queue_inv timed s' \<Longrightarrow> task_inv timed s' \<Longrightarrow> \<not> active s' \<Longrightarrow>
      queue_inv timed (s'\<lparr>canceller_at := Awaiting\<rparr>) \<and> task_inv timed (s'\<lparr>canceller_at := Awaiting\<rparr>)" for s'
    by (simp add: queue_inv_def task_inv_def)
  show "queue_inv timed s2 \<and> task_inv timed s2"
  proof (cases "canceller_at s")
    case (Flag_cleared t)
    with assms have "\<not> active s" by (simp add: queue_inv_def)
    then show ?thesis using c Flag_cleared assms sent moved
      by (cases t) (auto simp: cancel_step_def enqueue_entry_def)
  qed (use c assms in \<open>auto simp: cancel_step_def queue_inv_def task_inv_def split: if_splits\<close>)
qed

text \<open>Taking the front entry of the queue and putting it into the store.\<close>

lemma take_keeps:
  assumes q: "queue_inv timed s" and c: "consumers s = [c]" "c \<noteq> Consumer_done" and t: "task_inv timed s"
    and queue: "sink_queue s = e # queue"
    and c1: "c1 \<noteq> Consumer_done" "timed \<longrightarrow> c1 \<noteq> Block_wait" "\<not> timed \<longrightarrow> c1 = Block_wait"
      "c1 = Timed_drain \<or> c1 = Timed_take \<longrightarrow> \<not> active s"
  shows "queue_inv timed ((put_entry e (s\<lparr>sink_queue := queue\<rparr>))\<lparr>consumers := [c1]\<rparr>)"
    "task_inv timed ((put_entry e (s\<lparr>sink_queue := queue\<rparr>))\<lparr>consumers := [c1]\<rparr>)"
  using assms by (auto simp: queue_inv_def task_inv_def put_entry_def contents_of_def)

text \<open>At the end of the task everything recorded while the flag was set has been put.\<close>

lemma recorded_before_cleared:
  assumes q: "queue_inv timed s" and h: "map snd (history s) = puts s @ e # rest" and e: "fst e = []"
  shows "length (filter fst (history s)) \<le> length (puts s)" "\<not> active s" "\<not> timed"
proof -
  let ?n = "length (puts s)"
  from h have n: "?n < length (history s)" and "map snd (history s) ! ?n = e"
    by (metis length_append length_map less_add_same_cancel1 length_greater_0_conv list.distinct(1)) (simp add: h)
  then have "snd (history s ! ?n) = e" by simp
  moreover have "history s ! ?n \<in> set (history s)" using n by simp
  ultimately have "\<not> fst (history s ! ?n) \<and> \<not> active s \<and> \<not> timed" using q e
    by (cases "history s ! ?n") (fastforce simp: queue_inv_def flags_fit_def)
  moreover have "fst (history s ! ?n)" if "?n < length (filter fst (history s))"
    using q that by (simp add: queue_inv_def early_first_def)
  ultimately show "length (filter fst (history s)) \<le> ?n" "\<not> active s" "\<not> timed" by force+
qed

lemma finished_keeps:
  assumes q: "queue_inv timed s" and l: "length (filter fst (history s)) \<le> length (puts s)" and a: "\<not> active s"
    and h: "map snd (history s) = puts s @ gone @ sink_queue s"
  shows "queue_inv timed (s\<lparr>consumers := [Consumer_done]\<rparr>) \<and> task_inv timed (s\<lparr>consumers := [Consumer_done]\<rparr>)"
  using assms by (auto simp: queue_inv_def task_inv_def)

lemma moved_keeps:
  assumes q: "queue_inv timed s" and t: "task_inv timed s" and c: "consumers s = [c]" "c \<noteq> Consumer_done"
    and c1: "c1 \<noteq> Consumer_done" "timed \<longrightarrow> c1 \<noteq> Block_wait" "\<not> timed \<longrightarrow> c1 = Block_wait"
      "c1 = Timed_drain \<or> c1 = Timed_take \<longrightarrow> \<not> active s"
  shows "queue_inv timed (s\<lparr>consumers := [c1]\<rparr>) \<and> task_inv timed (s\<lparr>consumers := [c1]\<rparr>)"
  using assms by (auto simp: queue_inv_def task_inv_def)

lemma consume_keeps:
  assumes q: "queue_inv timed s" and t: "task_inv timed s" and st: "consume_step True choice i s = Some r"
  shows "\<exists>s1. r = Inr s1 \<and> queue_inv timed s1 \<and> task_inv timed s1"
proof -
  from t obtain c where c: "consumers s = [c]" by (auto simp: task_inv_def)
  have i: "i = 0" using st c by (auto simp: consume_step_def split: if_splits)
  have alive: "c \<noteq> Consumer_done" using st c i by (auto simp: consume_step_def)
  have h: "map snd (history s) = puts s @ sink_queue s" using t c alive by (auto simp: task_inv_def)
  have mode: "timed \<longleftrightarrow> c \<noteq> Block_wait" using t c alive by (auto simp: task_inv_def)
  have off: "c = Timed_drain \<or> c = Timed_take \<Longrightarrow> \<not> active s" using t c by (auto simp: task_inv_def)
  note moved = moved_keeps [OF q t c alive] and taken = take_keeps [OF q c alive t]
  have put [simp]: "(put_entry e s')\<lparr>consumers := cs\<rparr> = put_entry e (s'\<lparr>consumers := cs\<rparr>)" for e s' cs
    by (simp add: put_entry_def)
  have key: "fst e \<noteq> []" if "sink_queue s = e # queue" timed for e queue
    using recorded_before_cleared(3) [OF q, of e queue] h that by auto
  show ?thesis
  proof (cases c)
    case Block_wait
    obtain e queue where queue: "sink_queue s = e # queue"
      using st Block_wait c i by (cases "sink_queue s") (auto simp: consume_step_def block_consume_step_def)
    show ?thesis
    proof (cases "fst e = []")
      case True
      note fin = recorded_before_cleared [OF q h [unfolded queue] True]
      have "queue_inv timed (s\<lparr>sink_queue := queue\<rparr>)" using q by (simp add: queue_inv_def)
      from finished_keeps [OF this, of "[e]"] fin h queue show ?thesis
        using st Block_wait c i True
        by (auto simp: consume_step_def block_consume_step_def move_consumer_def)
    next
      case False
      let ?s = "put_entry e (s\<lparr>sink_queue := queue\<rparr>)"
      have "?s\<lparr>consumers := [Block_wait]\<rparr> = ?s" using c Block_wait by (cases s) (simp add: put_entry_def)
      moreover have "r = Inr ?s" using False st queue Block_wait c i
        by (simp add: consume_step_def block_consume_step_def)
      ultimately show ?thesis using taken [OF queue, of Block_wait] mode Block_wait by simp
    qed
  next
    case Timed_check
    then show ?thesis using st c i mode moved [of "Timed_stride batch_stride"] moved [of Timed_drain]
      by (auto simp: consume_step_def move_consumer_def split: if_splits)
  next
    case (Timed_stride n)
    show ?thesis
    proof (cases "n - 1 = 0 \<or> choice = Deadline")
      case True
      then show ?thesis using st c i mode Timed_stride moved [of Timed_round]
        by (auto simp: consume_step_def timed_stride_step_def move_consumer_def)
    next
      case False
      then obtain e queue where queue: "sink_queue s = e # queue"
        using st Timed_stride c i by (cases "sink_queue s") (auto simp: consume_step_def timed_stride_step_def)
      with False taken [OF queue, of "Timed_stride (n - 1)"] key [OF queue] mode Timed_stride c st i show ?thesis
        by (auto simp: consume_step_def timed_stride_step_def move_consumer_def put_entry_def)
    qed
  next
    case Timed_round
    then show ?thesis using st c i mode moved [of "Timed_stride batch_stride"] moved [of Timed_check]
      by (auto simp: consume_step_def move_consumer_def split: if_splits)
  next
    case Timed_drain
    show ?thesis
    proof (cases "sink_queue s = []")
      case True
      then have "length (history s) = length (puts s)" using h by (metis append_Nil2 length_map)
      then have l: "length (filter fst (history s)) \<le> length (puts s)" by (metis length_filter_le)
      from finished_keeps [OF q l _, of "[]"] off Timed_drain h True show ?thesis
        using st c i by (auto simp: consume_step_def move_consumer_def)
    next
      case False
      then show ?thesis using st c i mode Timed_drain off moved [of Timed_take]
        by (auto simp: consume_step_def move_consumer_def)
    qed
  next
    case Timed_take
    then obtain e queue where queue: "sink_queue s = e # queue"
      using st c i by (cases "sink_queue s") (auto simp: consume_step_def)
    with taken [OF queue, of Timed_drain] mode Timed_take off c st i show ?thesis
      by (auto simp: consume_step_def move_consumer_def put_entry_def)
  next
    case Consumer_done
    with alive show ?thesis by simp
  qed
qed

lemma one_task_step:
  assumes "queue_inv timed s \<and> task_inv timed s" "same_mode timed e" "store_step True e s = Some r"
  shows "\<exists>s1. r = Inr s1 \<and> (queue_inv timed s1 \<and> task_inv timed s1)"
  using assms
  by (cases e)
    (auto simp: check_keeps consume_keeps dest: produce_keeps cancel_keeps(1) cancel_keeps(2))

lemma one_task_run:
  "queue_inv timed s \<and> task_inv timed s \<Longrightarrow> list_all (same_mode timed) es \<Longrightarrow> store_run True es s = Some r \<Longrightarrow>
   \<exists>s1. r = Inr s1 \<and> (queue_inv timed s1 \<and> task_inv timed s1)"
proof (induction es arbitrary: s)
  case (Cons e es)
  then obtain r1 where r1: "store_step True e s = Some r1" by (auto split: option.splits)
  with one_task_step [of timed s e r1] Cons.prems obtain s1 where
    s1: "r1 = Inr s1" "queue_inv timed s1 \<and> task_inv timed s1" by auto
  with Cons.prems r1 show ?case by (intro Cons.IH [OF s1(2)]) auto
qed auto

lemma early_first_take:
  assumes "early_first h"
  shows "filter fst h = take (length (filter fst h)) h"
proof -
  let ?n = "length (filter fst h)"
  have n: "length (take ?n h) = ?n" by simp
  have "\<forall>x\<in>set (take ?n h). fst x"
  proof
    fix x assume "x \<in> set (take ?n h)"
    then obtain i where "i < ?n" "x = h ! i" unfolding in_set_conv_nth by auto
    with assms show "fst x" by (simp add: early_first_def)
  qed
  then have t: "filter fst (take ?n h) = take ?n h" by (simp only: filter_id_conv)
  have "filter fst h = filter fst (take ?n h) @ filter fst (drop ?n h)"
    by (simp only: filter_append [symmetric] append_take_drop_id)
  then have f: "filter fst h = take ?n h @ filter fst (drop ?n h)" unfolding t .
  from arg_cong [OF f, of length] have "length (filter fst (drop ?n h)) = 0"
    unfolding length_append n by linarith
  with f show ?thesis by (metis append_Nil2 length_0_conv)
qed

lemma recorded_prefix:
  assumes e: "early_first (history s)" and l: "length (filter fst (history s)) \<le> length (puts s)"
    and h: "map snd (history s) = puts s @ rest"
  shows "prefix (recorded s) (puts s)"
proof -
  let ?n = "length (filter fst (history s))"
  from early_first_take [OF e] have "map snd (filter fst (history s)) = map snd (take ?n (history s))" by metis
  then have "recorded s = take ?n (map snd (history s))" by (simp add: recorded_def take_map)
  also have "\<dots> = take ?n (puts s)" using l h by simp
  finally show ?thesis by (simp add: take_is_prefix)
qed


definition sample_store_events :: "store_event list" where
  "sample_store_events = [Check ''8'' ''tile'' ''begin'', Check ''9'' ''tile'' ''end'', Enqueue 0,
     Consume 0 Entry_in_time, Cancel False, Cancel_go, Enqueue 0, Consume 0 Entry_in_time]"


section \<open>Several blocking tasks\<close>

text \<open>
  One empty entry is sent for all the tasks, and a blocking task keeps the one it takes: at most one of
  them ends.
\<close>

definition blocked_inv :: "nat \<Rightarrow> trace_store \<Rightarrow> bool" where
  "blocked_inv n s \<longleftrightarrow>
     length (consumers s) = n \<and> set (consumers s) \<subseteq> {Block_wait, Consumer_done} \<and>
     consume_latch s = [0..<n] \<and> cancels s = 0 \<and>
     list_all (\<lambda>e. fst e \<noteq> []) (passed_check s) \<and>
     length (filter (\<lambda>c. c = Consumer_done) (consumers s)) + length (filter (\<lambda>e. fst e = []) (sink_queue s))
       \<le> (if canceller_at s = Awaiting then 1 else 0)"

fun blocking_event :: "store_event \<Rightarrow> bool" where
  "blocking_event (Task _) \<longleftrightarrow> False"
| "blocking_event _ \<longleftrightarrow> True"

lemma not_all_done:
  assumes n: "2 \<le> n" and inv: "blocked_inv n s"
  shows "\<not> list_all (\<lambda>i. consumers s ! i = Consumer_done) (consume_latch s)"
proof
  assume "list_all (\<lambda>i. consumers s ! i = Consumer_done) (consume_latch s)"
  then have "\<forall>c\<in>set (consumers s). c = Consumer_done"
    using inv by (auto simp: blocked_inv_def list_all_iff in_set_conv_nth)
  then have "filter (\<lambda>c. c = Consumer_done) (consumers s) = consumers s" by (simp add: filter_id_conv)
  then show False using inv n by (auto simp: blocked_inv_def split: if_splits)
qed

lemma blocked_step:
  assumes n: "2 \<le> n" and inv: "blocked_inv n s" and e: "blocking_event e"
    and st: "store_step opens e s = Some (Inr s1)"
  shows "blocked_inv n s1"
proof (cases e)
  case (Check time inst event)
  with inv st show ?thesis by (cases "active s") (auto simp: blocked_inv_def produce_check_def timed_instance_def)
next
  case (Enqueue k)
  with inv st show ?thesis
    by (fastforce simp: blocked_inv_def produce_enqueue_def enqueue_entry_def list_all_iff split: if_splits
        dest: in_set_takeD in_set_dropD)
next
  case (Cancel timed)
  with inv st show ?thesis by (auto simp: blocked_inv_def cancel_begin_def split: if_splits)
next
  case Cancel_go
  with inv st not_all_done [OF n inv] show ?thesis
    by (auto simp: blocked_inv_def cancel_step_def enqueue_entry_def split: canceller.splits if_splits)
next
  case (Consume i choice)
  with st have i: "i < length (consumers s)" by (auto simp: consume_step_def split: if_splits)
  then have "consumers s ! i \<in> {Block_wait, Consumer_done}" using inv nth_mem unfolding blocked_inv_def by blast
  moreover have "consumers s ! i \<noteq> Consumer_done" using st Consume i by (auto simp: consume_step_def)
  ultimately have c: "consumers s ! i = Block_wait" by simp
  with st Consume i have b: "block_consume_step opens i s = Some (Inr s1)" by (simp add: consume_step_def)
  have more: "length (filter (\<lambda>c. c = Consumer_done) ((consumers s)[i := Consumer_done])) =
      Suc (length (filter (\<lambda>c. c = Consumer_done) (consumers s)))"
    by (rule filter_update_length) (use i c in auto)
  have kept: "set ((consumers s)[i := Consumer_done]) \<subseteq> {Block_wait, Consumer_done}"
    using inv set_update_subset_insert [of "consumers s" i Consumer_done] by (auto simp: blocked_inv_def)
  from b inv more kept show ?thesis
    by (auto simp: blocked_inv_def block_consume_step_def move_consumer_def put_entry_def assert_that_eq_Inr
        split: list.splits if_splits)
qed (use e in simp)

lemma blocked_run:
  "2 \<le> n \<Longrightarrow> blocked_inv n s \<Longrightarrow> list_all blocking_event es \<Longrightarrow> store_run opens es s = Some (Inr s1) \<Longrightarrow>
   blocked_inv n s1"
proof (induction es arbitrary: s)
  case (Cons e es)
  then obtain s' where s': "store_step opens e s = Some (Inr s')" "store_run opens es s' = Some (Inr s1)"
    by (auto split: option.splits sum.splits)
  with Cons blocked_step [of n s e opens s'] show ?case by simp
qed auto

lemma consume_task_fields:
  "consumers (consume_task timed s) = consumers s @ [if timed then Timed_check else Block_wait]"
  "consume_latch (consume_task timed s) = consume_latch s @ [length (consumers s)]"
  by (simp_all add: consume_task_def)

lemma tasks_started:
  "consumers ((consume_task False ^^ n) s) = consumers s @ replicate n Block_wait"
  "consume_latch ((consume_task False ^^ n) s) = consume_latch s @ [length (consumers s)..<length (consumers s) + n]"
proof -
  show c: "consumers ((consume_task False ^^ n) s) = consumers s @ replicate n Block_wait" for n
    by (induction n) (simp_all add: consume_task_fields replicate_append_same)
  show "consume_latch ((consume_task False ^^ n) s) = consume_latch s @ [length (consumers s)..<length (consumers s) + n]"
    by (induction n) (simp_all add: consume_task_fields c)
qed

lemma tasks_keep_rest:
  "(consume_task False ^^ n) s = s\<lparr>consumers := consumers ((consume_task False ^^ n) s),
     consume_latch := consume_latch ((consume_task False ^^ n) s)\<rparr>"
proof (induction n)
  case (Suc n)
  let ?s = "(consume_task False ^^ n) s"
  have "(consume_task False ^^ Suc n) s = consume_task False ?s" by simp
  also have "\<dots> = ?s\<lparr>consumers := consumers (consume_task False ?s), consume_latch := consume_latch (consume_task False ?s)\<rparr>"
    by (simp add: consume_task_def)
  finally show ?case by (subst (asm) Suc.IH) simp
qed simp

text \<open>
  Claim C32. With two or more blocking tasks \<open>wait_consume_cancel\<close> never returns: only one empty entry is
  sent, so all but one of the tasks wait at the queue for ever.
\<close>

theorem blocking_tasks_never_cancelled:
  assumes opened: "make_opened True = Inr s0" and n: "2 \<le> n"
    and run: "store_run opens es ((consume_task False ^^ n) s0) = Some (Inr s)"
    and es: "list_all blocking_event es"
  shows "cancels s = 0 \<and> length (filter (\<lambda>c. c = Consumer_done) (consumers s)) \<le> 1"
proof -
  have "blocked_inv n ((consume_task False ^^ n) s0)"
    unfolding blocked_inv_def tasks_started
    using opened by (subst (1 2 3 4) tasks_keep_rest) (auto simp: make_opened_def)
  from blocked_run [OF n this es run] show ?thesis
    by (auto simp: blocked_inv_def split: if_splits)
qed

lemma blocking_tasks_never_cancelled_witness:
  "\<exists>s0. \<exists>s::trace_store. make_opened True = Inr s0 \<and>
     store_run True [Cancel False, Cancel_go, Consume 1 Entry_in_time] ((consume_task False ^^ 2) s0) = Some (Inr s) \<and>
     consumers s = [Block_wait, Consumer_done] \<and> cancels s = 0"
proof -
  obtain s0 where s0: "make_opened True = Inr s0" by (simp add: make_opened_def)
  have "\<exists>s. store_run True [Cancel False, Cancel_go, Consume 1 Entry_in_time] ((consume_task False ^^ 2) s0) = Some (Inr s) \<and>
      consumers s = [Block_wait, Consumer_done]"
    using s0
    by (auto simp: make_opened_def consume_task_def enqueue_entry_def consume_step_def block_consume_step_def
        cancel_begin_def cancel_step_def move_consumer_def numeral_2_eq_2)
  then obtain s where run: "store_run True [Cancel False, Cancel_go, Consume 1 Entry_in_time] ((consume_task False ^^ 2) s0) = Some (Inr s)"
    and c: "consumers s = [Block_wait, Consumer_done]" by blast
  from blocking_tasks_never_cancelled [OF s0 _ run] c s0 run show ?thesis by auto
qed

end
