(* ===== verification/Trace_Table.thy ===== *)
theory Trace_Table
  imports Prelude
begin

text \<open>
  The trace table of \<^verbatim>\<open>src/gallery/database.sqlite.h\<close>: producers submit events and commands, one
  worker inserts the events in bulk until it sees a command. How many events a bulk dequeue finds is
  up to the queue: a number of the ones submitted, at most the size asked for.
\<close>

section \<open>Data\<close>

record trace_event =
  trace_id :: int
  date_time :: string
  instance_name :: string
  instance_id :: int
  event_text :: string
  event_id :: int

definition blank_event :: trace_event where
  "blank_event = \<lparr>trace_id = 0, date_time = [], instance_name = [], instance_id = 0, event_text = [], event_id = 0\<rparr>"

datatype table_command = Execute | Complete | Stop_immediately | Stop_after_complete

datatype worker_state = Not_started | Waiting | Draining | Returned

text \<open>
  \<open>storage_of\<close> is the file and the table of the storage. \<open>inserts\<close> records each bulk insertion with the
  number of events dequeued for it, \<open>submitted\<close> all events submitted.
\<close>

record trace_table =
  file_path_of :: string
  time_zone_of :: "int option"
  storage_of :: "(string \<times> string) option"
  event_queue :: "trace_event list"
  command_queue :: "table_command list"
  entries :: "trace_event list"
  dequeue_size :: nat
  sink_count :: nat
  worker :: worker_state
  inserts :: "(nat \<times> trace_event list) list"
  submitted :: "trace_event list"

definition bulk_size :: nat where
  "bulk_size = 64"

definition default_table :: trace_table where
  "default_table = \<lparr>file_path_of = [], time_zone_of = None, storage_of = None, event_queue = [],
     command_queue = [], entries = [], dequeue_size = 0, sink_count = 0, worker = Not_started, inserts = [],
     submitted = []\<rparr>"

text \<open>
  The constructor's parameter and local variable have the names of the members, so that the moves leave
  the path and the time zone of the table as they were.
\<close>

definition make_table :: "(string \<Rightarrow> bool) \<Rightarrow> string \<Rightarrow> string \<Rightarrow> string \<Rightarrow> trace_table outcome" where
  "make_table is_regular_file now file_path name_infix =
     (if \<not> is_regular_file file_path then Inl (Throw (Runtime_error file_path))
      else let table_name = ''trace_event'' @ ''.'' @ name_infix @ ''.'' @ now
           in Inr (default_table\<lparr>storage_of := Some (file_path, table_name)\<rparr>))"

section \<open>Operations\<close>

definition submit_entry :: "trace_event \<Rightarrow> trace_table \<Rightarrow> trace_table" where
  "submit_entry e s = s\<lparr>event_queue := event_queue s @ [e], submitted := submitted s @ [e]\<rparr>"

definition submit_command :: "table_command \<Rightarrow> trace_table \<Rightarrow> trace_table" where
  "submit_command c s = s\<lparr>command_queue := command_queue s @ [c]\<rparr>"

text \<open>The beginning of \<open>insert_entry_persistently\<close>, with its first look at the commands.\<close>

definition start_worker :: "trace_table \<Rightarrow> trace_table" where
  "start_worker s = s\<lparr>entries := replicate bulk_size blank_event, dequeue_size := 0, sink_count := 0,
     worker := (if command_queue s = [] then Waiting else Draining)\<rparr>"

text \<open>A bulk dequeue overwrites the first entries of the buffer; the insertion takes the whole buffer.\<close>

definition dequeue_bulk :: "nat \<Rightarrow> trace_table \<Rightarrow> trace_table" where
  "dequeue_bulk n s = s\<lparr>entries := take n (event_queue s) @ drop n (entries s),
     event_queue := drop n (event_queue s), dequeue_size := n\<rparr>"

definition insert_event_into_storage :: "trace_table \<Rightarrow> trace_table outcome" where
  "insert_event_into_storage s =
     (case storage_of s of
        None \<Rightarrow> Inl Undefined_behaviour
      | Some storage \<Rightarrow> Inr (s\<lparr>inserts := inserts s @ [(dequeue_size s, entries s)],
                                sink_count := sink_count s + dequeue_size s\<rparr>))"

definition bulk_found :: "nat \<Rightarrow> trace_table \<Rightarrow> bool" where
  "bulk_found n s \<longleftrightarrow> 0 < n \<and> n \<le> bulk_size \<and> n \<le> length (event_queue s)"

text \<open>A turn of the worker; nothing while it waits for events.\<close>

definition worker_step :: "nat \<Rightarrow> trace_table \<Rightarrow> trace_table outcome option" where
  "worker_step n s =
     (case worker s of
        Waiting \<Rightarrow>
          if bulk_found n s
          then Some (and_then (insert_event_into_storage (dequeue_bulk n s)) (\<lambda>s1.
                 Inr (s1\<lparr>worker := (if command_queue s1 = [] then Waiting else Draining)\<rparr>)))
          else None
      | Draining \<Rightarrow>
          if bulk_found n s then Some (insert_event_into_storage (dequeue_bulk n s))
          else if event_queue s = [] then Some (Inr (s\<lparr>dequeue_size := 0, worker := Returned\<rparr>))
          else None
      | _ \<Rightarrow> None)"

datatype table_event = Submit_entry trace_event | Submit_command table_command | Start | Work nat

fun table_step :: "table_event \<Rightarrow> trace_table \<Rightarrow> trace_table outcome option" where
  "table_step (Submit_entry e) s = Some (Inr (submit_entry e s))"
| "table_step (Submit_command c) s = Some (Inr (submit_command c s))"
| "table_step Start s = (if worker s = Not_started then Some (Inr (start_worker s)) else None)"
| "table_step (Work n) s = worker_step n s"

fun table_run :: "table_event list \<Rightarrow> trace_table \<Rightarrow> trace_table outcome option" where
  "table_run [] s = Some (Inr s)"
| "table_run (e # es) s =
     (case table_step e s of
        None \<Rightarrow> None
      | Some (Inl f) \<Rightarrow> Some (Inl f)
      | Some (Inr s1) \<Rightarrow> table_run es s1)"

section \<open>What is inserted\<close>

definition inserted_events :: "trace_table \<Rightarrow> trace_event list" where
  "inserted_events s = concat (map (\<lambda>(n, batch). take n batch) (inserts s))"

definition inserted_rows :: "trace_table \<Rightarrow> trace_event list" where
  "inserted_rows s = concat (map snd (inserts s))"

definition rows_inv :: "trace_table \<Rightarrow> bool" where
  "rows_inv s \<longleftrightarrow>
     storage_of s \<noteq> None \<and> (worker s = Not_started \<or> length (entries s) = bulk_size) \<and>
     (worker s = Not_started \<longrightarrow> inserts s = [] \<and> sink_count s = 0) \<and>
     submitted s = inserted_events s @ event_queue s \<and> sink_count s = length (inserted_events s) \<and>
     list_all (\<lambda>(n, batch). length batch = bulk_size \<and> 0 < n \<and> n \<le> bulk_size) (inserts s)"

lemma bulk_inserted:
  assumes inv: "rows_inv s" and w: "worker s \<noteq> Not_started" and n: "bulk_found n s"
  shows "\<exists>s1. insert_event_into_storage (dequeue_bulk n s) = Inr s1 \<and> worker s1 = worker s \<and>
    command_queue s1 = command_queue s \<and> rows_inv s1"
proof -
  from inv obtain storage where "storage_of s = Some storage" by (auto simp: rows_inv_def)
  moreover have "length (take n (event_queue s) @ drop n (entries s)) = bulk_size"
    using inv w n by (simp add: rows_inv_def bulk_found_def)
  ultimately show ?thesis using inv w n
    by (auto simp: insert_event_into_storage_def dequeue_bulk_def rows_inv_def bulk_found_def inserted_events_def)
qed

lemma table_step_inv:
  assumes inv: "rows_inv s" and st: "table_step e s = Some r"
  shows "\<exists>s1. r = Inr s1 \<and> rows_inv s1"
proof (cases e)
  case (Submit_entry x)
  with inv st show ?thesis by (auto simp: rows_inv_def submit_entry_def inserted_events_def)
next
  case (Submit_command c)
  with inv st show ?thesis by (auto simp: rows_inv_def submit_command_def inserted_events_def)
next
  case Start
  with inv st show ?thesis by (auto simp: rows_inv_def start_worker_def inserted_events_def split: if_splits)
next
  case (Work n)
  with st have w: "worker_step n s = Some r" by simp
  then have ws: "worker s = Waiting \<or> worker s = Draining" by (auto simp: worker_step_def split: worker_state.splits)
  show ?thesis
  proof (cases "bulk_found n s")
    case True
    from bulk_inserted [OF inv _ True] ws obtain s1 where
      s1: "insert_event_into_storage (dequeue_bulk n s) = Inr s1" "worker s1 = worker s" "rows_inv s1" by auto
    then have "rows_inv (s1\<lparr>worker := w1\<rparr>)" if "w1 \<noteq> Not_started" for w1
      using ws that by (auto simp: rows_inv_def inserted_events_def)
    then show ?thesis using w ws True s1(3) by (auto simp: worker_step_def s1(1))
  next
    case False
    then show ?thesis using w ws inv
      by (auto simp: worker_step_def rows_inv_def inserted_events_def split: if_splits)
  qed
qed

lemma table_run_inv: "rows_inv s \<Longrightarrow> table_run es s = Some r \<Longrightarrow> \<exists>s1. r = Inr s1 \<and> rows_inv s1"
proof (induction es arbitrary: s)
  case (Cons e es)
  then obtain r1 where r1: "table_step e s = Some r1" by (auto split: option.splits)
  from table_step_inv [OF Cons.prems(1) r1] obtain s1 where "r1 = Inr s1" "rows_inv s1" by blast
  with Cons r1 show ?case by simp
qed auto



text \<open>A command alone does not end a waiting worker: it looks at the commands only after an insertion.\<close>

lemma command_not_seen:
  "worker s = Waiting \<Longrightarrow> event_queue s = [] \<Longrightarrow> worker_step n (submit_command c s) = None"
  by (auto simp: worker_step_def bulk_found_def submit_command_def)

text \<open>The members named like the parameters are never set.\<close>

lemma members_not_set:
  "make_table is_regular_file now path name_infix = Inr s \<Longrightarrow> file_path_of s = [] \<and> time_zone_of s = None"
  by (auto simp: make_table_def default_table_def Let_def split: if_splits)

end
