(* ===== verification/Meta_Traits.thy ===== *)
theory Meta_Traits
  imports Prelude "HOL-Library.Signed_Division"
begin

text \<open>
  The compile-time traits of \<^verbatim>\<open>src/core/meta\<close>. A C++ type is a value of \<open>cpp_type\<close>, a parameter pack is
  a list of types, and a class template is a function on them; an instantiation that the compiler
  rejects has the value \<open>None\<close>. The most specialised template that matches is the first equation that
  applies.
\<close>

section \<open>Types\<close>

text \<open>
  Types in normal form: a class or scalar type with its qualifiers, or a reference to one. So equality
  is \<^verbatim>\<open>std::is_same\<close>. What has no meaning to the traits is named.
\<close>

datatype cpp_type =
    Object bool bool cpp_core \<comment> \<open>const, volatile\<close>
  | Lvalue_ref bool bool cpp_core
  | Rvalue_ref bool bool cpp_core
and cpp_core =
    Named string
  | Std_atomic cpp_type
  | Std_variant "cpp_type list"
  | Std_tuple "cpp_type list"
  | Std_pair cpp_type cpp_type
  | Folly_promise cpp_type
  | Folly_future cpp_type
  | Folly_semi_future cpp_type

abbreviation plain :: "cpp_core \<Rightarrow> cpp_type" where
  "plain \<equiv> Object False False"

fun remove_reference :: "cpp_type \<Rightarrow> cpp_type" where
  "remove_reference (Object c v t) = Object c v t"
| "remove_reference (Lvalue_ref c v t) = Object c v t"
| "remove_reference (Rvalue_ref c v t) = Object c v t"

fun remove_cv :: "cpp_type \<Rightarrow> cpp_type" where
  "remove_cv (Object c v t) = plain t"
| "remove_cv t = t"

definition remove_cv_ref :: "cpp_type \<Rightarrow> cpp_type" where
  "remove_cv_ref t = remove_cv (remove_reference t)"

section \<open>Membership and position\<close>

text \<open>\<^verbatim>\<open>std::disjunction\<close> is true when one of its arguments is, and derives from the first true one, or from the last.\<close>

definition is_within_impl :: "cpp_type \<Rightarrow> cpp_type list \<Rightarrow> bool" where
  "is_within_impl t types = list_ex (\<lambda>u. t = u) types"

text \<open>
  The partial specialisations for one variant, tuple or pair without qualifiers unpack its arguments;
  \<^verbatim>\<open>index\<close> has none for pairs.
\<close>

fun variadic_args :: "cpp_type \<Rightarrow> cpp_type list option" where
  "variadic_args (Object False False (Std_variant types)) = Some types"
| "variadic_args (Object False False (Std_tuple types)) = Some types"
| "variadic_args _ = None"

fun template_args :: "cpp_type \<Rightarrow> cpp_type list option" where
  "template_args (Object False False (Std_pair u v)) = Some [u, v]"
| "template_args t = variadic_args t"

lemma variadic_args_size [termination_simp]:
  "variadic_args t = Some types \<Longrightarrow> size_list size types < size t"
  by (cases t rule: variadic_args.cases) auto

definition pack_weight :: "cpp_type list \<Rightarrow> nat" where
  "pack_weight types = size_list (\<lambda>t. 2 * size t) types"

lemma pack_weight_simps [simp]:
  "pack_weight [] = 0" "pack_weight (t # types) = Suc (2 * size t + pack_weight types)"
  by (simp_all add: pack_weight_def)

lemma pack_weight_size: "pack_weight types \<le> 2 * size_list size types"
  by (induction types) auto

lemma template_args_weight: "template_args t = Some types \<Longrightarrow> pack_weight types < 2 * size t"
proof (cases t rule: template_args.cases)
  case (1 u v)
  then show "template_args t = Some types \<Longrightarrow> pack_weight types < 2 * size t" by auto
qed (use variadic_args_size [of t types] pack_weight_size [of types] in auto)

function (sequential) is_within :: "cpp_type \<Rightarrow> cpp_type list \<Rightarrow> bool" where
  "is_within t [] = False"
| "is_within t [u] = (case template_args u of Some types \<Rightarrow> is_within t types | None \<Rightarrow> t = u)"
| "is_within t (u # v # types) = is_within_impl t (u # v # types)"
  by pat_completeness auto
termination by (relation "measure (\<lambda>(_, types). pack_weight types)") (auto dest: template_args_weight)

fun index_impl :: "nat \<Rightarrow> cpp_type \<Rightarrow> cpp_type list \<Rightarrow> nat option" where
  "index_impl i t [] = None"
| "index_impl i t [u] = Some i"
| "index_impl i t (u # us) = (if t = u then Some i else index_impl (Suc i) t us)"

definition checked_index :: "cpp_type \<Rightarrow> cpp_type list \<Rightarrow> nat option" where
  "checked_index t types = (if is_within t types then index_impl 0 t types else None)"

fun index_of :: "cpp_type \<Rightarrow> cpp_type list \<Rightarrow> nat option" where
  "index_of t [u] = (case variadic_args u of Some types \<Rightarrow> index_of t types | None \<Rightarrow> checked_index t [u])"
| "index_of t types = checked_index t types"

text \<open>The pack that the traits look at: what is left when single variants, tuples and pairs are unpacked.\<close>

function (sequential) pack_of :: "cpp_type list \<Rightarrow> cpp_type list" where
  "pack_of [u] = (case template_args u of Some types \<Rightarrow> pack_of types | None \<Rightarrow> [u])"
| "pack_of types = types"
  by pat_completeness auto
termination by (relation "measure (pack_weight)") (auto dest: template_args_weight)

text \<open>A pair in the place of the pack, which \<^verbatim>\<open>index\<close> does not unpack.\<close>

fun ends_in_pair :: "cpp_type list \<Rightarrow> bool" where
  "ends_in_pair [u] = (case variadic_args u of Some types \<Rightarrow> ends_in_pair types | None \<Rightarrow> template_args u \<noteq> None)"
| "ends_in_pair types = False"

lemma variadic_template: "variadic_args u = Some types \<Longrightarrow> template_args u = Some types"
  by (cases u rule: variadic_args.cases) auto

lemma is_within_pack: "is_within t types \<longleftrightarrow> t \<in> set (pack_of types)"
  by (induction t types rule: is_within.induct) (auto simp: is_within_impl_def list_ex_iff split: option.splits)

lemma index_impl_first:
  "t \<in> set types \<Longrightarrow> \<exists>j<length types. index_impl i t types = Some (i + j) \<and> types ! j = t \<and> (\<forall>k<j. types ! k \<noteq> t)"
proof (induction i t types rule: index_impl.induct)
  case (3 i t u v us)
  show ?case
  proof (cases "t = u")
    case False
    with 3 obtain j where "j < length (v # us)" "index_impl (Suc i) t (v # us) = Some (Suc i + j)"
      "(v # us) ! j = t" "\<forall>k<j. (v # us) ! k \<noteq> t" by auto
    with False show ?thesis
      by (intro exI [of _ "Suc j"]) (auto simp: less_Suc_eq_0_disj)
  qed (intro exI [of _ 0], simp)
qed auto

lemma index_of_pack:
  "\<not> ends_in_pair types \<Longrightarrow> index_of t types = (if t \<in> set (pack_of types) then index_impl 0 t (pack_of types) else None)"
  by (induction t types rule: index_of.induct)
    (auto simp: checked_index_def is_within_pack variadic_template split: option.splits)

lemma index_of_pair:
  "ends_in_pair types \<Longrightarrow> index_of t types = (if t \<in> set (pack_of types) then Some 0 else None)"
  by (induction t types rule: index_of.induct)
    (auto simp: checked_index_def is_within_pack variadic_template split: option.splits)

section \<open>The largest size\<close>

text \<open>The sizes of single types are the compiler's; unlike \<open>is_within\<close>, every member of a pack is unpacked.\<close>

function (sequential) max_size :: "(cpp_type \<Rightarrow> nat) \<Rightarrow> cpp_type list \<Rightarrow> nat option" where
  "max_size size_of [] = None"
| "max_size size_of [t] = (case template_args t of Some types \<Rightarrow> max_size size_of types | None \<Rightarrow> Some (size_of t))"
| "max_size size_of (t # u # types) =
     Option.bind (max_size size_of [t]) (\<lambda>m. map_option (\<lambda>n. max m n) (max_size size_of (u # types)))"
  by pat_completeness auto
termination by (relation "measure (\<lambda>(_, types). pack_weight types)") (auto dest: template_args_weight)

text \<open>The types whose sizes are compared, when no pack is empty.\<close>

function (sequential) leaves :: "cpp_type list \<Rightarrow> cpp_type list option" where
  "leaves [] = None"
| "leaves [t] = (case template_args t of Some types \<Rightarrow> leaves types | None \<Rightarrow> Some [t])"
| "leaves (t # u # types) = Option.bind (leaves [t]) (\<lambda>ts. map_option (\<lambda>us. ts @ us) (leaves (u # types)))"
  by pat_completeness auto
termination by (relation "measure (pack_weight)") (auto dest: template_args_weight)

lemma leaves_not_Nil: "leaves types = Some ts \<Longrightarrow> ts \<noteq> []"
  by (induction types arbitrary: ts rule: leaves.induct) (auto simp: bind_eq_Some_conv split: option.splits)

lemma max_size_leaves:
  "max_size size_of types = map_option (\<lambda>ts. Max (set (map size_of ts))) (leaves types)"
proof (induction size_of types rule: max_size.induct)
  case (3 size_of t u types)
  show ?case
  proof (cases "leaves [t]"; cases "leaves (u # types)")
    fix ts us assume "leaves [t] = Some ts" "leaves (u # types) = Some us"
    moreover from leaves_not_Nil [OF this(1)] leaves_not_Nil [OF this(2)]
    have "Max (size_of ` (set ts \<union> set us)) = max (Max (size_of ` set ts)) (Max (size_of ` set us))"
      unfolding image_Un by (intro Max_Un) auto
    ultimately show ?thesis using 3 by simp
  qed (use 3 in simp_all)
qed (simp_all split: option.splits)

section \<open>Other traits of types\<close>

text \<open>\<^verbatim>\<open>is_similar\<close> rejects an empty pack.\<close>

definition is_similar :: "cpp_type \<Rightarrow> cpp_type list \<Rightarrow> bool option" where
  "is_similar t types =
     (if types = [] then None else Some (list_all (\<lambda>u. remove_cv_ref t = remove_cv_ref u) types))"

text \<open>
  What an atomic, a promise or a future holds; other types have no \<^verbatim>\<open>value_trait\<close>. The blocks of
  \<^verbatim>\<open>future_trait.hpp\<close> for other libraries' futures ask for headers named \<^verbatim>\<open>!future\<close> and the like, which
  do not exist, and are left out by the preprocessor.
\<close>

fun value_trait :: "cpp_type \<Rightarrow> cpp_type option" where
  "value_trait (Object False False (Std_atomic t)) = Some t"
| "value_trait (Object False False (Folly_promise t)) = Some t"
| "value_trait (Object False False (Folly_future t)) = Some t"
| "value_trait (Object False False (Folly_semi_future t)) = Some t"
| "value_trait _ = None"

definition value_type :: "cpp_type \<Rightarrow> cpp_type option" where
  "value_type t = value_trait (remove_cv_ref t)"

definition is_atomic :: "cpp_type \<Rightarrow> bool option" where
  "is_atomic t = map_option (\<lambda>v. remove_cv_ref t = plain (Std_atomic v)) (value_type t)"

fun is_variant :: "cpp_type \<Rightarrow> bool" where
  "is_variant (Object False False (Std_variant types)) = True"
| "is_variant _ = False"

text \<open>So the trait answers only for types that have a value, and there it is right.\<close>

lemma is_atomic_iff:
  "is_atomic t = Some b \<longleftrightarrow> value_type t \<noteq> None \<and> (b \<longleftrightarrow> (\<exists>v. remove_cv_ref t = plain (Std_atomic v)))"
  by (cases "remove_cv_ref t" rule: value_trait.cases) (auto simp: is_atomic_def value_type_def)

text \<open>\<^verbatim>\<open>add_const_ref\<close> derives from the reference it computes, but only a class can be a base. Arrays and functions aside.\<close>

fun add_const :: "cpp_type \<Rightarrow> cpp_type" where
  "add_const (Object c v t) = Object True v t"
| "add_const t = t"

fun add_lvalue_reference :: "cpp_type \<Rightarrow> cpp_type" where
  "add_lvalue_reference (Object c v t) = Lvalue_ref c v t"
| "add_lvalue_reference (Lvalue_ref c v t) = Lvalue_ref c v t"
| "add_lvalue_reference (Rvalue_ref c v t) = Lvalue_ref c v t"

fun base_class :: "cpp_type \<Rightarrow> cpp_type option" where
  "base_class (Object c v t) = Some (plain t)"
| "base_class _ = None"

definition add_const_ref :: "cpp_type \<Rightarrow> cpp_type option" where
  "add_const_ref t = base_class (add_lvalue_reference (add_const (remove_cv_ref t)))"

lemma add_const_ref_rejected: "add_const_ref t = None"
  by (cases "add_const (remove_cv_ref t)") (simp_all add: add_const_ref_def)

section \<open>Conditions\<close>

text \<open>
  The types that stand for truth values: \<^verbatim>\<open>std::true_type\<close> and \<^verbatim>\<open>std::false_type\<close>, and traits that derive
  from one of them without being it. Which class derives from which is the program's.
\<close>

datatype condition = True_type | False_type | Is_base_of cpp_type cpp_type | Is_same cpp_type cpp_type

fun derives_true :: "(cpp_type \<Rightarrow> cpp_type \<Rightarrow> bool) \<Rightarrow> condition \<Rightarrow> bool" where
  "derives_true base_of True_type = True"
| "derives_true base_of False_type = False"
| "derives_true base_of (Is_base_of b t) = base_of b t"
| "derives_true base_of (Is_same t u) = (t = u)"

definition is_bool_constant :: "(bool \<Rightarrow> condition) \<Rightarrow> bool" where
  "is_bool_constant b = (b True = True_type \<and> b False = False_type)"

text \<open>The value of \<^verbatim>\<open>has_if\<close> and its \<^verbatim>\<open>has_type\<close>; the specialisation is for \<^verbatim>\<open>std::true_type\<close> itself.\<close>

fun has_if :: "cpp_type \<Rightarrow> condition \<Rightarrow> bool" where
  "has_if t True_type = True"
| "has_if t _ = False"

definition void_type :: cpp_type where
  "void_type = plain (Named ''void_type'')"

definition has_if_type :: "(cpp_type \<Rightarrow> cpp_type \<Rightarrow> bool) \<Rightarrow> cpp_type \<Rightarrow> condition \<Rightarrow> cpp_type" where
  "has_if_type base_of t c =
     (if c = True_type then remove_cv_ref t else if derives_true base_of c then remove_cv_ref t else void_type)"

abbreviation std_exception :: cpp_type where "std_exception \<equiv> plain (Named ''std::exception'')"
abbreviation boost_exception :: cpp_type where "boost_exception \<equiv> plain (Named ''boost::exception'')"
abbreviation std_error_code :: cpp_type where "std_error_code \<equiv> plain (Named ''std::error_code'')"
abbreviation boost_error_code :: cpp_type where "boost_error_code \<equiv> plain (Named ''boost::system::error_code'')"

definition is_exception :: "(cpp_type \<Rightarrow> cpp_type \<Rightarrow> bool) \<Rightarrow> cpp_type \<Rightarrow> bool" where
  "is_exception base_of e =
     (derives_true base_of (Is_base_of std_exception e) \<or> derives_true base_of (Is_base_of boost_exception e))"

definition has_exception :: "cpp_type \<Rightarrow> bool" where
  "has_exception e =
     (has_if std_exception (Is_base_of std_exception e) \<or> has_if boost_exception (Is_base_of boost_exception e))"

definition is_error_code :: "(cpp_type \<Rightarrow> cpp_type \<Rightarrow> bool) \<Rightarrow> cpp_type \<Rightarrow> bool" where
  "is_error_code base_of e =
     (derives_true base_of (Is_same std_error_code e) \<or> derives_true base_of (Is_same boost_error_code e))"

definition has_error_code :: "cpp_type \<Rightarrow> bool" where
  "has_error_code e =
     (has_if std_error_code (Is_same std_error_code e) \<or> has_if boost_error_code (Is_same boost_error_code e))"

section \<open>Sequences of values\<close>

text \<open>
  A call of the operation in a constant expression, which may fail. A template argument that cannot be
  deduced and is not given has the value \<open>None\<close>; \<^verbatim>\<open>sequence_plus\<close> and its siblings do not pass their
  factor on. The common type of no values does not exist.
\<close>

definition invoke_by :: "(int \<Rightarrow> int \<Rightarrow> int option) \<Rightarrow> int \<Rightarrow> int \<Rightarrow> int option" where
  "invoke_by callable v factor = callable v factor"

definition sequence_arithmetic :: "(int \<Rightarrow> int \<Rightarrow> int option) \<Rightarrow> int option \<Rightarrow> int list \<Rightarrow> int list option" where
  "sequence_arithmetic callable factor sequence =
     (case factor of
        None \<Rightarrow> None
      | Some f \<Rightarrow> if sequence = [] then None else those (map (\<lambda>v. invoke_by callable v f) sequence))"

definition sequence_plus :: "int \<Rightarrow> int list \<Rightarrow> int list option" where
  "sequence_plus factor sequence = sequence_arithmetic (\<lambda>a b. Some (a + b)) None sequence"

definition sequence_minus :: "int \<Rightarrow> int list \<Rightarrow> int list option" where
  "sequence_minus factor sequence = sequence_arithmetic (\<lambda>a b. Some (a - b)) None sequence"

definition sequence_multiply :: "int \<Rightarrow> int list \<Rightarrow> int list option" where
  "sequence_multiply factor sequence = sequence_arithmetic (\<lambda>a b. Some (a * b)) None sequence"

definition sequence_divide :: "int \<Rightarrow> int list \<Rightarrow> int list option" where
  "sequence_divide factor sequence =
     sequence_arithmetic (\<lambda>a b. if b = 0 then None else Some (a sdiv b)) None sequence"

lemma sequences_rejected:
  "sequence_plus factor sequence = None" "sequence_minus factor sequence = None"
  "sequence_multiply factor sequence = None" "sequence_divide factor sequence = None"
  by (simp_all add: sequence_plus_def sequence_minus_def sequence_multiply_def sequence_divide_def sequence_arithmetic_def)

section \<open>Tuples and arrays\<close>

definition tuple_element :: "nat \<Rightarrow> 'v list \<Rightarrow> 'v option" where
  "tuple_element i types = (if i < length types then Some (types ! i) else None)"

fun reverse_tuple :: "cpp_type list \<Rightarrow> cpp_type list option" where
  "reverse_tuple [] = None"
| "reverse_tuple [t] = Some [t]"
| "reverse_tuple (t # types) = map_option (\<lambda>reversed. reversed @ [t]) (reverse_tuple types)"

fun reverse_tuple_size :: "cpp_type list \<Rightarrow> nat option" where
  "reverse_tuple_size [] = None"
| "reverse_tuple_size [t] = Some 1"
| "reverse_tuple_size (t # types) = Some (1 + length types)"

lemma reverse_tuple_rev: "types \<noteq> [] \<Longrightarrow> reverse_tuple types = Some (rev types) \<and> reverse_tuple_size types = Some (length types)"
  by (induction types rule: reverse_tuple.induct) auto

definition indexed_tuple :: "nat list \<Rightarrow> cpp_type list \<Rightarrow> cpp_type list option" where
  "indexed_tuple indexes types = those (map (\<lambda>i. tuple_element i types) indexes)"

definition indexed_tuple_size :: "nat list \<Rightarrow> cpp_type list \<Rightarrow> nat" where
  "indexed_tuple_size indexes types = length types"

text \<open>Without an index sequence the indexes are deduced to be none, which fits only the empty tuple.\<close>

definition make_indexed_tuple :: "'v list \<Rightarrow> nat list option \<Rightarrow> 'v list option" where
  "make_indexed_tuple tuple sequence =
     (case sequence of
        None \<Rightarrow> if tuple = [] then Some [] else None
      | Some indexes \<Rightarrow> those (map (\<lambda>i. tuple_element i tuple) indexes))"

definition make_array :: "'v list \<Rightarrow> 'v list" where
  "make_array elements = elements"

definition make_array_any :: "('v \<Rightarrow> 'w) \<Rightarrow> 'v list \<Rightarrow> 'w list" where
  "make_array_any static_cast args = map static_cast args"

lemma indexed_tuple_length:
  "indexed_tuple indexes types = Some us \<Longrightarrow> length us = length indexes"
proof -
  have "those xs = Some ys \<Longrightarrow> length ys = length xs" for xs :: "cpp_type option list" and ys
    by (induction xs arbitrary: ys) (auto split: option.splits)
  then show "indexed_tuple indexes types = Some us \<Longrightarrow> length us = length indexes"
    by (fastforce simp: indexed_tuple_def)
qed

section \<open>Callables\<close>

datatype wrapper = Folly_function | Std_function

record wrapped_function =
  wrapper_of :: wrapper
  return_of :: cpp_type
  args_of :: "cpp_type list"
  const_call :: bool

fun accessor :: "cpp_type \<Rightarrow> bool \<Rightarrow> bool \<Rightarrow> wrapped_function" where
  "accessor t True False = \<lparr>wrapper_of = Folly_function, return_of = add_lvalue_reference t, args_of = [], const_call = True\<rparr>"
| "accessor t False True = \<lparr>wrapper_of = Std_function, return_of = add_lvalue_reference t, args_of = [], const_call = False\<rparr>"
| "accessor t True True = \<lparr>wrapper_of = Std_function, return_of = add_lvalue_reference t, args_of = [], const_call = True\<rparr>"
| "accessor t False False = \<lparr>wrapper_of = Folly_function, return_of = add_lvalue_reference t, args_of = [], const_call = False\<rparr>"

fun processor :: "cpp_type \<Rightarrow> bool \<Rightarrow> bool \<Rightarrow> wrapped_function" where
  "processor t True False = \<lparr>wrapper_of = Folly_function, return_of = plain (Named ''void''),
     args_of = [add_lvalue_reference t], const_call = True\<rparr>"
| "processor t False True = \<lparr>wrapper_of = Std_function, return_of = plain (Named ''void''),
     args_of = [add_lvalue_reference t], const_call = False\<rparr>"
| "processor t True True = \<lparr>wrapper_of = Std_function, return_of = plain (Named ''void''),
     args_of = [add_lvalue_reference t], const_call = True\<rparr>"
| "processor t False False = \<lparr>wrapper_of = Folly_function, return_of = plain (Named ''void''),
     args_of = [add_lvalue_reference t], const_call = False\<rparr>"

text \<open>What is deduced from a pointer to a function, and to a member function.\<close>

record function_trait =
  return_type :: cpp_type
  args_tuple :: cpp_type
  has_args :: bool

record member_function_trait = function_trait +
  object_type :: cpp_type
  has_const :: bool

definition function_trait_of :: "cpp_type \<Rightarrow> cpp_type list \<Rightarrow> function_trait" where
  "function_trait_of return args =
     \<lparr>return_type = return, args_tuple = plain (Std_tuple args), has_args = (length args > 0)\<rparr>"

definition member_function_trait_of :: "cpp_type \<Rightarrow> cpp_type \<Rightarrow> cpp_type list \<Rightarrow> bool \<Rightarrow> member_function_trait" where
  "member_function_trait_of return object args const_function =
     \<lparr>return_type = return, args_tuple = plain (Std_tuple args), has_args = (length args > 0),
      object_type = object, has_const = const_function\<rparr>"

fun nth_arg :: "nat \<Rightarrow> cpp_type \<Rightarrow> cpp_type option" where
  "nth_arg i (Object False False (Std_tuple args)) = tuple_element i args"
| "nth_arg i _ = None"

section \<open>Properties\<close>

text \<open>
  Claim C40. \<^verbatim>\<open>is_within\<close> is membership in the pack, after a single variant, tuple or pair has been
  unpacked, however deeply; \<^verbatim>\<open>index\<close> is the position of the first match there and does not compile
  without one. Only when the pack ends in a single pair is the position always 0, since \<^verbatim>\<open>index\<close> looks
  into variants and tuples but not into pairs.
\<close>

theorem position_in_pack:
  shows "(is_within t types \<longleftrightarrow> t \<in> set (pack_of types)) \<and>
    index_of t types =
      (if t \<notin> set (pack_of types) then None
       else if ends_in_pair types then Some 0
       else Some (length (takeWhile (\<lambda>u. u \<noteq> t) (pack_of types))))"
proof (cases "t \<in> set (pack_of types)")
  case True
  from index_impl_first [OF this, of 0] obtain j where j: "j < length (pack_of types)"
    "index_impl 0 t (pack_of types) = Some j" "pack_of types ! j = t" "\<forall>k<j. pack_of types ! k \<noteq> t" by auto
  have "takeWhile (\<lambda>u. u \<noteq> t) (pack_of types) = take j (pack_of types)"
    using j by (intro takeWhile_eq_take_P_nth) auto
  with j True index_of_pack [of types t] index_of_pair [of types t] show ?thesis
    by (auto simp: is_within_pack)
qed (use index_of_pack [of types t] index_of_pair [of types t] in \<open>auto simp: is_within_pack\<close>)

theorem position_in_pack_witness:
  "index_of (plain (Named ''int'')) [plain (Std_variant [plain (Named ''char''), plain (Named ''int'')])] = Some 1 \<and>
   index_of (plain (Named ''int'')) [plain (Std_pair (plain (Named ''char'')) (plain (Named ''int'')))] = Some 0"
  using position_in_pack [of "plain (Named ''int'')" "[plain (Std_variant [plain (Named ''char''), plain (Named ''int'')])]"]
    position_in_pack [of "plain (Named ''int'')" "[plain (Std_pair (plain (Named ''char'')) (plain (Named ''int'')))]"]
  by simp

text \<open>
  The tests for exceptions and error codes that return a type are wrong for their value: \<^verbatim>\<open>has_if\<close> is
  specialised for \<^verbatim>\<open>std::true_type\<close>, but what it is given derives from it.
\<close>

lemma has_exception_never: "\<not> has_exception e" "\<not> has_error_code e"
  by (simp_all add: has_exception_def has_error_code_def)

lemma has_if_type_right:
  "is_error_code base_of std_error_code"
  "has_if_type base_of std_exception (Is_base_of std_exception e) =
     (if base_of std_exception e then std_exception else void_type)"
  by (simp_all add: is_error_code_def has_if_type_def remove_cv_ref_def)

lemma max_size_of_leaves:
  "leaves types = Some ts \<Longrightarrow> max_size size_of types = Some (Max (set (map size_of ts)))"
  by (simp add: max_size_leaves)

end
