(* ===== verification/Scope_Guard.thy ===== *)
theory Scope_Guard
  imports Prelude
begin

text \<open>
  \<^verbatim>\<open>src/core/guard.hpp\<close>: a guard holds a callable and runs it when it is destroyed. Guards are numbered
  in the order of construction; a moved-from guard is still an object, with what the callable's own
  move leaves in it.
\<close>

section \<open>State and operations\<close>

record ('c, 'w) guards =
  guard_objects :: "'c option list" \<comment> \<open>None once destroyed\<close>
  guard_calls :: "'c list"
  guard_world :: 'w

datatype 'c guard_event = Make_guard 'c | Move_guard nat | Assign_guard nat nat | Destroy_guard nat

definition guard_at :: "('c, 'w) guards \<Rightarrow> nat \<Rightarrow> 'c option" where
  "guard_at s i = (if i < length (guard_objects s) then guard_objects s ! i else None)"

text \<open>The callable is moved into the guard; copies and a guard without a callable are deleted.\<close>

definition make_guard :: "'c \<Rightarrow> ('c, 'w) guards \<Rightarrow> ('c, 'w) guards" where
  "make_guard callable s = s\<lparr>guard_objects := guard_objects s @ [Some callable]\<rparr>"

definition move_guard :: "('c \<Rightarrow> 'c) \<Rightarrow> nat \<Rightarrow> ('c, 'w) guards \<Rightarrow> ('c, 'w) guards outcome" where
  "move_guard moved_from i s =
     and_then (deref (guard_at s i)) (\<lambda>c.
       Inr (s\<lparr>guard_objects := (guard_objects s)[i := Some (moved_from c)] @ [Some c]\<rparr>))"

text \<open>The callable that the assigned guard had is lost without being run.\<close>

definition assign_guard :: "('c \<Rightarrow> 'c) \<Rightarrow> nat \<Rightarrow> nat \<Rightarrow> ('c, 'w) guards \<Rightarrow> ('c, 'w) guards outcome" where
  "assign_guard moved_from i j s =
     and_then (deref (guard_at s i)) (\<lambda>old. and_then (deref (guard_at s j)) (\<lambda>c.
       Inr (s\<lparr>guard_objects := (guard_objects s)[j := Some (moved_from c), i := Some c]\<rparr>)))"

definition destroy_guard :: "('c \<Rightarrow> 'w \<Rightarrow> 'w) \<Rightarrow> nat \<Rightarrow> ('c, 'w) guards \<Rightarrow> ('c, 'w) guards outcome" where
  "destroy_guard call i s =
     and_then (deref (guard_at s i)) (\<lambda>c.
       Inr (s\<lparr>guard_objects := (guard_objects s)[i := None], guard_calls := guard_calls s @ [c],
              guard_world := call c (guard_world s)\<rparr>))"

fun guard_step :: "('c \<Rightarrow> 'c) \<Rightarrow> ('c \<Rightarrow> 'w \<Rightarrow> 'w) \<Rightarrow> 'c guard_event \<Rightarrow> ('c, 'w) guards \<Rightarrow> ('c, 'w) guards outcome" where
  "guard_step moved_from call (Make_guard c) s = Inr (make_guard c s)"
| "guard_step moved_from call (Move_guard i) s = move_guard moved_from i s"
| "guard_step moved_from call (Assign_guard i j) s = assign_guard moved_from i j s"
| "guard_step moved_from call (Destroy_guard i) s = destroy_guard call i s"

fun guard_steps :: "('c \<Rightarrow> 'c) \<Rightarrow> ('c \<Rightarrow> 'w \<Rightarrow> 'w) \<Rightarrow> 'c guard_event list \<Rightarrow> ('c, 'w) guards \<Rightarrow> ('c, 'w) guards outcome" where
  "guard_steps moved_from call [] s = Inr s"
| "guard_steps moved_from call (e # es) s =
     and_then (guard_step moved_from call e s) (guard_steps moved_from call es)"

text \<open>The guard over several callables runs them in the order of the pack.\<close>

fun destroy_guard_tuple :: "('c \<Rightarrow> 'w \<Rightarrow> 'w) \<Rightarrow> 'c list \<Rightarrow> 'w \<Rightarrow> 'w" where
  "destroy_guard_tuple call [] w = w"
| "destroy_guard_tuple call (c # cs) w = destroy_guard_tuple call cs (call c w)"

section \<open>One run for each object\<close>

definition no_guards :: "'w \<Rightarrow> ('c, 'w) guards" where
  "no_guards w = \<lparr>guard_objects = [], guard_calls = [], guard_world = w\<rparr>"

definition destroyed :: "('c, 'w) guards \<Rightarrow> nat" where
  "destroyed s = length (filter Option.is_none (guard_objects s))"

definition guards_ok :: "('c \<Rightarrow> 'w \<Rightarrow> 'w) \<Rightarrow> 'w \<Rightarrow> ('c, 'w) guards \<Rightarrow> bool" where
  "guards_ok call w s \<longleftrightarrow> length (guard_calls s) = destroyed s \<and> guard_world s = fold call (guard_calls s) w"

lemma guard_at_Some: "guard_at s i = Some c \<longleftrightarrow> i < length (guard_objects s) \<and> guard_objects s ! i = Some c"
  by (simp add: guard_at_def)

lemma destroyed_update:
  "guard_objects s ! i = Some c \<Longrightarrow> i < length (guard_objects s) \<Longrightarrow>
    length (filter Option.is_none ((guard_objects s)[i := x])) = destroyed s + (if x = None then 1 else 0)"
  by (cases x) (simp_all add: destroyed_def filter_update_length filter_update_same)

lemma guards_ok_step:
  assumes "guard_step moved_from call e s = Inr t" and "guards_ok call w s"
  shows "guards_ok call w t"
proof (cases e)
  case (Make_guard c)
  with assms show ?thesis by (auto simp: make_guard_def guards_ok_def destroyed_def)
next
  case (Move_guard i)
  with assms destroyed_update [of s i] show ?thesis
    by (auto simp: move_guard_def guards_ok_def destroyed_def outcome_simps guard_at_Some)
next
  case (Assign_guard i j)
  with assms(1) obtain old c where "guard_objects s ! i = Some old" "i < length (guard_objects s)"
    "guard_objects s ! j = Some c" "j < length (guard_objects s)"
    and t: "t = s\<lparr>guard_objects := (guard_objects s)[j := Some (moved_from c), i := Some c]\<rparr>"
    by (auto simp: assign_guard_def outcome_simps guard_at_Some)
  then have "destroyed t = destroyed s"
    using destroyed_update [of s j c "Some (moved_from c)"]
      destroyed_update [of "s\<lparr>guard_objects := (guard_objects s)[j := Some (moved_from c)]\<rparr>" i _ "Some c"]
    by (cases "i = j") (auto simp: destroyed_def nth_list_update)
  with assms(2) t show ?thesis by (simp add: guards_ok_def)
next
  case (Destroy_guard i)
  with assms destroyed_update [of s i] show ?thesis
    by (auto simp: destroy_guard_def guards_ok_def destroyed_def outcome_simps guard_at_Some)
qed

text \<open>
  Each object runs its callable exactly once, when it is destroyed, and in the order of destruction; so
  the callable of a guard that was moved runs for both objects.
\<close>

lemma guards_run_once:
  "guard_steps moved_from call es (no_guards w) = Inr s \<Longrightarrow>
    length (guard_calls s) = destroyed s \<and> guard_world s = fold call (guard_calls s) w"
proof -
  have "guard_steps moved_from call es s0 = Inr s \<Longrightarrow> guards_ok call w s0 \<Longrightarrow> guards_ok call w s" for s0
    by (induction es arbitrary: s0) (auto simp: outcome_simps intro: guards_ok_step)
  moreover have "guards_ok call w (no_guards w)" by (simp add: guards_ok_def no_guards_def destroyed_def)
  ultimately show "guard_steps moved_from call es (no_guards w) = Inr s \<Longrightarrow> ?thesis" by (simp add: guards_ok_def)
qed

lemma moved_guard_runs_twice:
  "guard_steps (\<lambda>c. c) (\<lambda>c w. w + c) [Make_guard 1, Move_guard 0, Destroy_guard 1, Destroy_guard 0] (no_guards (0::nat)) =
    Inr \<lparr>guard_objects = [None, None], guard_calls = [1, 1], guard_world = 2\<rparr>"
  by (simp add: no_guards_def make_guard_def move_guard_def destroy_guard_def guard_at_def deref_def and_then_def)

lemma guard_tuple_in_order: "destroy_guard_tuple call cs w = fold call cs w"
  by (induction cs arbitrary: w) simp_all

end
