(* ===== verification/Async_Chain.thy ===== *)
theory Async_Chain
  imports Prelude
begin

text \<open>
  \<^verbatim>\<open>src/core/async_chain.hpp\<close>: tasks appended by any thread, without a lock, run one after another. Each
  attempt of \<open>append\<close> starts a task that waits for the appender's signal; a compare and exchange on
  the pointer to the last task decides which attempt counts, and the others give up when the signal
  comes. Each atomic access is a step. The header stores a future of \<^verbatim>\<open>std::async\<close> as a
  \<^verbatim>\<open>boost::future\<close>, which no compiler accepts, and nothing uses it; the model reads its futures as
  those of \<^verbatim>\<open>std::async\<close>, and its callables as throwing or not.
\<close>

section \<open>State\<close>

text \<open>A finished task holds a value (\<open>None\<close>) or an exception.\<close>

datatype 'e task_phase = Waiting_signal | Waiting_predecessor | Executing | Finished "'e option" | Skipped

record 'e chain_task =
  predecessor :: "nat option"
  appender :: nat
  task_phase :: "'e task_phase"
  taken :: bool

text \<open>
  Where a call of \<open>append\<close> stands: before the flag is read, before the pointer is read, with what it
  read, with the task it made, after the exchange, after the signal.
\<close>

datatype append_phase =
    Starting | Refused | Admitted | Attempting "nat option" | Prepared "nat option" nat
  | Exchanged "nat option" | Appended "nat option"

datatype wait_phase = Abort_start | Wait_start | Waiting_for nat | Returned

text \<open>
  \<open>temporary\<close>, which keeps the futures of failed attempts until the signal is given, changes nothing
  that is seen. Recorded of the run: the tasks exchanged in, in order, and those that called their callable.
\<close>

record 'e chain =
  last_task :: "nat option"
  canceled :: bool
  chain_tasks :: "'e chain_task list"
  appends :: "append_phase list"
  waits :: "wait_phase list"
  chain_order :: "nat list"
  executed :: "nat list"

definition empty_chain :: "'e chain" where
  "empty_chain = \<lparr>last_task = None, canceled = False, chain_tasks = [], appends = [], waits = [], chain_order = [], executed = []\<rparr>"

section \<open>Steps\<close>

definition set_append :: "nat \<Rightarrow> append_phase \<Rightarrow> 'e chain \<Rightarrow> 'e chain" where
  "set_append i a s = s\<lparr>appends := (appends s)[i := a]\<rparr>"

text \<open>The next atomic access of a call of \<open>append\<close>; a failed exchange reads the pointer anew.\<close>

definition append_step :: "nat \<Rightarrow> 'e chain \<Rightarrow> 'e chain option" where
  "append_step i s =
     (if length (appends s) \<le> i then None
      else case appends s ! i of
             Starting \<Rightarrow> Some (set_append i (if canceled s then Refused else Admitted) s)
           | Admitted \<Rightarrow> Some (set_append i (Attempting (last_task s)) s)
           | Attempting pending_old \<Rightarrow>
               let pending_new = length (chain_tasks s)
               in Some (set_append i (Prepared pending_old pending_new)
                    (s\<lparr>chain_tasks := chain_tasks s @
                        [\<lparr>predecessor = pending_old, appender = i, task_phase = Waiting_signal, taken = False\<rparr>]\<rparr>))
           | Prepared pending_old pending_new \<Rightarrow>
               if last_task s = pending_old
               then Some (set_append i (Exchanged pending_old)
                      (s\<lparr>last_task := Some pending_new, chain_order := chain_order s @ [pending_new]\<rparr>))
               else Some (set_append i (Attempting (last_task s)) s)
           | Exchanged pending_old \<Rightarrow> Some (set_append i (Appended pending_old) s)
           | _ \<Rightarrow> None)"

definition set_task_phase :: "nat \<Rightarrow> 'e task_phase \<Rightarrow> 'e chain \<Rightarrow> 'e chain" where
  "set_task_phase n p s = s\<lparr>chain_tasks := (chain_tasks s)[n := (chain_tasks s ! n)\<lparr>task_phase := p\<rparr>]\<rparr>"

definition take_result :: "nat \<Rightarrow> 'e chain \<Rightarrow> 'e chain" where
  "take_result n s = s\<lparr>chain_tasks := (chain_tasks s)[n := (chain_tasks s ! n)\<lparr>taken := True\<rparr>]\<rparr>"

definition call_task :: "nat \<Rightarrow> 'e chain \<Rightarrow> 'e chain" where
  "call_task n s = (set_task_phase n Executing s)\<lparr>executed := executed s @ [n]\<rparr>"

text \<open>
  The next step of a task. \<open>get\<close> on a future whose result was taken is undefined; the exception it
  rethrows becomes the task's own. \<open>callable\<close> says what the callable of an appender throws.
\<close>

definition task_step :: "(nat \<Rightarrow> 'e option) \<Rightarrow> nat \<Rightarrow> 'e chain \<Rightarrow> 'e chain outcome option" where
  "task_step callable n s =
     (if length (chain_tasks s) \<le> n then None
      else let t = chain_tasks s ! n
           in case task_phase t of
                Waiting_signal \<Rightarrow>
                  (case appends s ! appender t of
                     Appended signal \<Rightarrow>
                       Some (Inr (set_task_phase n (if predecessor t \<noteq> signal then Skipped else Waiting_predecessor) s))
                   | _ \<Rightarrow> None)
              | Waiting_predecessor \<Rightarrow>
                  (case predecessor t of
                     None \<Rightarrow> Some (Inr (call_task n s))
                   | Some p \<Rightarrow>
                       (case task_phase (chain_tasks s ! p) of
                          Finished r \<Rightarrow>
                            if taken (chain_tasks s ! p) then Some (Inl Undefined_behaviour)
                            else (case r of
                                    None \<Rightarrow> Some (Inr (call_task n (take_result p s)))
                                  | Some e \<Rightarrow> Some (Inr (set_task_phase n (Finished (Some e)) (take_result p s))))
                        | _ \<Rightarrow> None))
              | Executing \<Rightarrow> Some (Inr (set_task_phase n (Finished (callable (appender t))) s))
              | _ \<Rightarrow> None)"

text \<open>\<open>wait\<close> and \<open>abort_and_wait\<close>: waiting on a future whose result was taken is undefined.\<close>

definition chain_wait_step :: "nat \<Rightarrow> 'e chain \<Rightarrow> 'e chain outcome option" where
  "chain_wait_step j s =
     (if length (waits s) \<le> j then None
      else case waits s ! j of
             Abort_start \<Rightarrow> Some (Inr (s\<lparr>canceled := True, waits := (waits s)[j := Wait_start]\<rparr>))
           | Wait_start \<Rightarrow>
               Some (Inr (s\<lparr>waits := (waits s)[j := (case last_task s of None \<Rightarrow> Returned | Some p \<Rightarrow> Waiting_for p)]\<rparr>))
           | Waiting_for p \<Rightarrow>
               if taken (chain_tasks s ! p) then Some (Inl Undefined_behaviour)
               else (case task_phase (chain_tasks s ! p) of
                       Finished r \<Rightarrow> Some (Inr (s\<lparr>waits := (waits s)[j := Returned]\<rparr>))
                     | _ \<Rightarrow> None)
           | Returned \<Rightarrow> None)"

datatype chain_event = Call_append | Append_at nat | Task_at nat | Call_wait | Call_abort | Wait_at nat

fun chain_event_run :: "(nat \<Rightarrow> 'e option) \<Rightarrow> chain_event \<Rightarrow> 'e chain \<Rightarrow> 'e chain outcome option" where
  "chain_event_run callable Call_append s = Some (Inr (s\<lparr>appends := appends s @ [Starting]\<rparr>))"
| "chain_event_run callable (Append_at i) s = map_option Inr (append_step i s)"
| "chain_event_run callable (Task_at n) s = task_step callable n s"
| "chain_event_run callable Call_wait s = Some (Inr (s\<lparr>waits := waits s @ [Wait_start]\<rparr>))"
| "chain_event_run callable Call_abort s = Some (Inr (s\<lparr>waits := waits s @ [Abort_start]\<rparr>))"
| "chain_event_run callable (Wait_at j) s = chain_wait_step j s"

inductive chain_step :: "(nat \<Rightarrow> 'e option) \<Rightarrow> 'e chain \<Rightarrow> 'e chain \<Rightarrow> bool" for callable where
  chain_event: "chain_event_run callable ev s = Some (Inr t) \<Longrightarrow> chain_step callable s t"

fun run_chain :: "(nat \<Rightarrow> 'e option) \<Rightarrow> chain_event list \<Rightarrow> 'e chain \<Rightarrow> 'e chain option" where
  "run_chain callable [] s = Some s"
| "run_chain callable (ev # evs) s =
     (case chain_event_run callable ev s of Some (Inr t) \<Rightarrow> run_chain callable evs t | _ \<Rightarrow> None)"

lemma run_chain_steps: "run_chain callable evs s = Some t \<Longrightarrow> (chain_step callable)\<^sup>*\<^sup>* s t"
proof (induction evs arbitrary: s)
  case (Cons ev evs)
  then obtain u where "chain_event_run callable ev s = Some (Inr u)" "run_chain callable evs u = Some t"
    by (auto split: option.splits sum.splits)
  with Cons.IH [of u] show ?case by (meson chain_step.chain_event converse_rtranclp_into_rtranclp)
qed simp

section \<open>The invariant\<close>

abbreviation phase_of :: "'e chain \<Rightarrow> nat \<Rightarrow> 'e task_phase" where
  "phase_of s n \<equiv> task_phase (chain_tasks s ! n)"

abbreviation order_length :: "'e chain \<Rightarrow> nat" where
  "order_length s \<equiv> length (chain_order s)"

text \<open>The pointer to the last task when \<open>k\<close> tasks had been exchanged in.\<close>

definition chain_tip :: "nat list \<Rightarrow> nat \<Rightarrow> nat option" where
  "chain_tip order k = (if k = 0 then None else Some (order ! (k - 1)))"

lemma chain_tip_append [simp]: "k \<le> length order \<Longrightarrow> chain_tip (order @ [n]) k = chain_tip order k"
  by (cases k) (simp_all add: chain_tip_def nth_append)

lemma chain_tip_inj:
  "distinct order \<Longrightarrow> a \<le> length order \<Longrightarrow> b \<le> length order \<Longrightarrow> chain_tip order a = chain_tip order b \<longleftrightarrow> a = b"
  by (cases a; cases b) (auto simp: chain_tip_def nth_eq_iff_index_eq)

definition order_ok :: "'e chain \<Rightarrow> bool" where
  "order_ok s \<longleftrightarrow> distinct (chain_order s) \<and> set (chain_order s) \<subseteq> {..<length (chain_tasks s)} \<and>
     last_task s = chain_tip (chain_order s) (order_length s) \<and>
     (\<forall>k<order_length s. predecessor (chain_tasks s ! (chain_order s ! k)) = chain_tip (chain_order s) k)"

text \<open>The tasks an appender has made, and what holds of those that lost their exchange.\<close>

definition attempts :: "'e chain \<Rightarrow> nat \<Rightarrow> nat set" where
  "attempts s i = {n. n < length (chain_tasks s) \<and> appender (chain_tasks s ! n) = i}"

definition lost_before :: "'e chain \<Rightarrow> nat \<Rightarrow> nat \<Rightarrow> nat \<Rightarrow> bool" where
  "lost_before s i a n \<longleftrightarrow> n \<in> attempts s i \<longrightarrow>
     n \<notin> set (chain_order s) \<and> (\<exists>b<a. predecessor (chain_tasks s ! n) = chain_tip (chain_order s) b)"

definition attempt_won :: "'e chain \<Rightarrow> nat \<Rightarrow> nat option \<Rightarrow> bool" where
  "attempt_won s i old \<longleftrightarrow>
     (\<exists>a<order_length s. old = chain_tip (chain_order s) a \<and> chain_order s ! a \<in> attempts s i \<and>
       (\<forall>n. n \<noteq> chain_order s ! a \<longrightarrow> lost_before s i a n))"

fun append_ok :: "'e chain \<Rightarrow> nat \<Rightarrow> append_phase \<Rightarrow> bool" where
  "append_ok s i (Attempting old) \<longleftrightarrow>
     (\<exists>a\<le>order_length s. old = chain_tip (chain_order s) a \<and> (\<forall>n. lost_before s i a n))"
| "append_ok s i (Prepared old new) \<longleftrightarrow>
     (\<exists>a\<le>order_length s. old = chain_tip (chain_order s) a \<and> new \<in> attempts s i \<and> new \<notin> set (chain_order s) \<and>
       predecessor (chain_tasks s ! new) = old \<and> (\<forall>n. n \<noteq> new \<longrightarrow> lost_before s i a n))"
| "append_ok s i (Exchanged old) \<longleftrightarrow> attempt_won s i old"
| "append_ok s i (Appended old) \<longleftrightarrow> attempt_won s i old"
| "append_ok s i a \<longleftrightarrow> attempts s i = {}"

definition appends_ok :: "'e chain \<Rightarrow> bool" where
  "appends_ok s \<longleftrightarrow> (\<forall>n<length (chain_tasks s). appender (chain_tasks s ! n) < length (appends s)) \<and>
     (\<forall>i<length (appends s). append_ok s i (appends s ! i))"

fun phase_ok :: "'e chain \<Rightarrow> nat \<Rightarrow> 'e task_phase \<Rightarrow> bool" where
  "phase_ok s n Waiting_signal \<longleftrightarrow> True"
| "phase_ok s n Skipped \<longleftrightarrow> n \<notin> set (chain_order s)"
| "phase_ok s n p \<longleftrightarrow> n \<in> set (chain_order s)"

text \<open>
  The first \<open>m\<close> tasks called their callables, all but the last of them finished without an exception;
  an exception of a task that did not call its callable is that of its predecessor.
\<close>

fun progress_at :: "nat \<Rightarrow> nat \<Rightarrow> 'e task_phase \<Rightarrow> bool" where
  "progress_at m k Executing \<longleftrightarrow> m = Suc k"
| "progress_at m k (Finished None) \<longleftrightarrow> k < m"
| "progress_at m k (Finished (Some e)) \<longleftrightarrow> m \<le> Suc k"
| "progress_at m k p \<longleftrightarrow> m \<le> k"

definition progress_ok :: "'e chain \<Rightarrow> nat \<Rightarrow> bool" where
  "progress_ok s m \<longleftrightarrow> m \<le> order_length s \<and> executed s = take m (chain_order s) \<and>
     (\<forall>k<order_length s. progress_at m k (phase_of s (chain_order s ! k))) \<and>
     (\<forall>k e. Suc k < order_length s \<longrightarrow> m \<le> Suc k \<longrightarrow> phase_of s (chain_order s ! Suc k) = Finished (Some e) \<longrightarrow>
        phase_of s (chain_order s ! k) = Finished (Some e))"

fun past_get :: "'e task_phase \<Rightarrow> bool" where
  "past_get Executing = True"
| "past_get (Finished r) = True"
| "past_get p = False"

definition taken_ok :: "'e chain \<Rightarrow> bool" where
  "taken_ok s \<longleftrightarrow> (\<forall>n<length (chain_tasks s). taken (chain_tasks s ! n) \<longrightarrow>
     (\<exists>k. Suc k < order_length s \<and> chain_order s ! k = n \<and> past_get (phase_of s (chain_order s ! Suc k))))"

definition signalled_ok :: "'e chain \<Rightarrow> append_phase list \<Rightarrow> bool" where
  "signalled_ok s as \<longleftrightarrow> (\<forall>n<length (chain_tasks s). phase_of s n \<noteq> Waiting_signal \<longrightarrow>
     (\<exists>old. as ! appender (chain_tasks s ! n) = Appended old))"

definition chain_ok :: "'e chain \<Rightarrow> bool" where
  "chain_ok s \<longleftrightarrow> order_ok s \<and> appends_ok s \<and> signalled_ok s (appends s) \<and> (\<forall>n<length (chain_tasks s). phase_ok s n (phase_of s n)) \<and>
     (\<exists>m. progress_ok s m) \<and> taken_ok s"

lemmas chain_parts = order_ok_def progress_ok_def taken_ok_def

section \<open>Appending keeps the invariant\<close>

text \<open>What an appender knows stays true while the order only grows by tasks of others.\<close>

lemma append_ok_kept:
  assumes "append_ok s i a" and order: "chain_order t = chain_order s @ new"
    and attempts: "attempts t i = attempts s i"
    and same: "\<And>n. n \<in> attempts s i \<Longrightarrow> predecessor (chain_tasks t ! n) = predecessor (chain_tasks s ! n) \<and> n \<notin> set new"
  shows "append_ok t i a"
proof -
  have tip: "chain_tip (chain_order t) k = chain_tip (chain_order s) k" if "k \<le> order_length s" for k
    using that order by (cases k) (auto simp: chain_tip_def nth_append)
  have lost: "lost_before t i b n" if "lost_before s i b n" "b \<le> order_length s" for b n
    using that tip same [of n] order attempts by (fastforce simp: lost_before_def)
  have won: "attempt_won t i old" if "attempt_won s i old" for old
  proof -
    from that obtain b where b: "b < order_length s" "old = chain_tip (chain_order s) b" "chain_order s ! b \<in> attempts s i"
      "\<forall>n. n \<noteq> chain_order s ! b \<longrightarrow> lost_before s i b n" by (auto simp: attempt_won_def)
    then show ?thesis
      unfolding attempt_won_def using tip [of b] lost order attempts
      by (intro exI [of _ b]) (auto simp: nth_append)
  qed
  show ?thesis
  proof (cases a)
    case (Attempting old)
    with assms(1) obtain b where b: "b \<le> order_length s" "old = chain_tip (chain_order s) b" "\<forall>n. lost_before s i b n" by auto
    with Attempting tip [of b] lost order show ?thesis by (auto intro!: exI [of _ b])
  next
    case (Prepared old n)
    with assms(1) obtain b where b: "b \<le> order_length s" "old = chain_tip (chain_order s) b" "n \<in> attempts s i"
      "n \<notin> set (chain_order s)" "predecessor (chain_tasks s ! n) = old" "\<forall>n'. n' \<noteq> n \<longrightarrow> lost_before s i b n'" by auto
    with Prepared tip [of b] lost order attempts same [of n] show ?thesis by (auto intro!: exI [of _ b])
  qed (use assms(1) attempts won in auto)
qed

lemma append_ok_cong:
  "chain_tasks t = chain_tasks s \<Longrightarrow> chain_order t = chain_order s \<Longrightarrow> append_ok s i a \<Longrightarrow> append_ok t i a"
  by (rule append_ok_kept [where s = s and new = "[]"]) (simp_all add: attempts_def)

lemma phase_ok_cong: "set (chain_order t) = set (chain_order s) \<Longrightarrow> phase_ok t n p = phase_ok s n p"
  by (cases p) simp_all

lemma progress_ok_kept:
  assumes s: "progress_ok s m" and "chain_order t = chain_order s" and "executed t = executed s"
    and phases: "\<And>n. n \<in> set (chain_order s) \<Longrightarrow> phase_of t n = phase_of s n"
  shows "progress_ok t m"
proof -
  have same: "phase_of t (chain_order s ! k) = phase_of s (chain_order s ! k)" if "k < order_length s" for k
    using phases that by simp
  show ?thesis using s same unfolding progress_ok_def assms(2,3) by (simp add: Suc_lessD)
qed

lemma taken_ok_kept:
  assumes "taken_ok s" and "chain_order t = chain_order s @ new"
    and taken: "\<And>n. n < length (chain_tasks t) \<Longrightarrow> taken (chain_tasks t ! n) \<Longrightarrow>
      n < length (chain_tasks s) \<and> taken (chain_tasks s ! n)"
    and past: "\<And>n. n \<in> set (chain_order s) \<Longrightarrow> past_get (phase_of s n) \<Longrightarrow> past_get (phase_of t n)"
  shows "taken_ok t"
  unfolding taken_ok_def
proof (intro allI impI)
  fix n assume "n < length (chain_tasks t)" "taken (chain_tasks t ! n)"
  with taken assms(1) obtain k where "Suc k < order_length s" "chain_order s ! k = n"
    "past_get (phase_of s (chain_order s ! Suc k))" unfolding taken_ok_def by blast
  with past assms(2) show "\<exists>k. Suc k < order_length t \<and> chain_order t ! k = n \<and> past_get (phase_of t (chain_order t ! Suc k))"
    by (intro exI [of _ k]) (auto simp: nth_append)
qed

lemma nth_list_update': "j < length xs \<Longrightarrow> xs[i := x] ! j = (if j = i then x else xs ! j)"
  by (cases "j = i") simp_all

lemma chain_okI_appends:
  assumes "order_ok s" and "progress_ok s m" and "taken_ok s"
    and "\<And>n. n < length (chain_tasks s) \<Longrightarrow> phase_ok s n (phase_of s n)"
    and "\<And>n. n < length (chain_tasks s) \<Longrightarrow> appender (chain_tasks s ! n) < length as"
    and "\<And>i. i < length as \<Longrightarrow> append_ok s i (as ! i)" and "signalled_ok s as"
  shows "chain_ok (s\<lparr>appends := as\<rparr>)"
proof -
  have "append_ok (s\<lparr>appends := as\<rparr>) i (as ! i)" if "i < length as" for i
    using assms(6) [OF that] by (rule append_ok_cong [rotated 2]) simp_all
  moreover have "phase_ok (s\<lparr>appends := as\<rparr>) n p = phase_ok s n p" for n p by (rule phase_ok_cong) simp
  ultimately show ?thesis
    using assms(1-5,7) by (auto simp: chain_ok_def appends_ok_def order_ok_def progress_ok_def taken_ok_def signalled_ok_def)
qed

lemma chain_ok_appends:
  assumes "chain_ok s" and "length (appends s) \<le> length as"
    and "\<And>i. i < length as \<Longrightarrow> append_ok s i (as ! i)" and "signalled_ok s as"
  shows "chain_ok (s\<lparr>appends := as\<rparr>)"
proof -
  from assms(1) obtain m where "progress_ok s m" by (auto simp: chain_ok_def)
  with assms show ?thesis
    by (intro chain_okI_appends) (auto simp: chain_ok_def appends_ok_def intro: less_le_trans)
qed

lemma chain_ok_append: "chain_ok s \<Longrightarrow> i < length (appends s) \<Longrightarrow> append_ok s i (appends s ! i)"
  by (simp add: chain_ok_def appends_ok_def)

lemma signalled_update:
  assumes "signalled_ok s as" and "\<forall>old. as ! i \<noteq> Appended old"
  shows "signalled_ok s (as[i := a])"
  using assms by (auto simp: signalled_ok_def nth_list_update) (metis nth_list_update_neq)

lemma set_append_ok:
  assumes "chain_ok s" and "append_ok s i a" and "\<forall>old. appends s ! i \<noteq> Appended old"
  shows "chain_ok (set_append i a s)"
  unfolding set_append_def
  by (rule chain_ok_appends [OF assms(1)])
    (use assms chain_ok_append [OF assms(1)] in \<open>auto simp: nth_list_update' chain_ok_def intro: signalled_update\<close>)

lemma call_append_ok:
  assumes "chain_ok s"
  shows "chain_ok (s\<lparr>appends := appends s @ [Starting]\<rparr>)"
proof (rule chain_ok_appends [OF assms])
  have "attempts s (length (appends s)) = {}"
    using assms by (auto simp: attempts_def chain_ok_def appends_ok_def)
  then show "append_ok s i ((appends s @ [Starting]) ! i)" if "i < length (appends s @ [Starting])" for i
    using assms that by (auto simp: nth_append chain_ok_append less_Suc_eq)
  show "signalled_ok s (appends s @ [Starting])"
    using assms by (auto simp: chain_ok_def signalled_ok_def appends_ok_def nth_append)
qed simp

text \<open>A new attempt: the task is the appender's, and no exchange has happened.\<close>

lemma order_member: "order_ok s \<Longrightarrow> k < order_length s \<Longrightarrow> chain_order s ! k < length (chain_tasks s)"
  unfolding order_ok_def by (meson lessThan_iff nth_mem subset_code(1))

lemma new_task_ok:
  assumes ok: "chain_ok s" and i: "i < length (appends s)" "appends s ! i = Attempting old"
    and t: "t = s\<lparr>chain_tasks := chain_tasks s @ [\<lparr>predecessor = old, appender = i, task_phase = Waiting_signal, taken = False\<rparr>]\<rparr>"
  shows "chain_ok (set_append i (Prepared old (length (chain_tasks s))) t)"
proof -
  let ?n = "length (chain_tasks s)"
  have order: "order_ok s" using ok by (simp add: chain_ok_def)
  have kept: "chain_tasks t ! n = chain_tasks s ! n" if "n < ?n" for n using that t by (simp add: nth_append)
  have new: "?n \<notin> set (chain_order s)" using order by (auto simp: order_ok_def)
  have attempts: "attempts t j = attempts s j \<union> (if j = i then {?n} else {})" for j
    by (auto simp: t attempts_def nth_append)
  have "append_ok t i (Prepared old ?n)"
  proof -
    obtain a where a: "a \<le> order_length s" "old = chain_tip (chain_order s) a" "\<forall>n. lost_before s i a n"
      using chain_ok_append [OF ok i(1)] i(2) by auto
    moreover have "lost_before t i a n" if "n \<noteq> ?n" for n
      using a(3) that kept [of n] attempts [of i] t by (auto simp: lost_before_def attempts_def)
    ultimately show ?thesis using attempts [of i] new t by (auto intro!: exI [of _ a])
  qed
  moreover have "append_ok t j (appends s ! j)" if "j < length (appends s)" "j \<noteq> i" for j
    using chain_ok_append [OF ok that(1)]
    by (rule append_ok_kept [where new = "[]"]) (use that attempts [of j] kept t in \<open>auto simp: attempts_def\<close>)
  moreover have "order_ok t" using order order_member [OF order] kept by (auto simp: order_ok_def t)
  moreover obtain m where "progress_ok t m"
  proof -
    from ok obtain m where "progress_ok s m" by (auto simp: chain_ok_def)
    then have "progress_ok t m"
      by (rule progress_ok_kept) (use order kept in \<open>auto simp: order_ok_def t\<close>)
    then show ?thesis ..
  qed
  moreover have "taken_ok t"
  proof (rule taken_ok_kept [where s = s and new = "[]"])
    fix n assume "n < length (chain_tasks t)" "taken (chain_tasks t ! n)"
    then show "n < length (chain_tasks s) \<and> taken (chain_tasks s ! n)"
      by (cases "n = ?n") (auto simp: t nth_append less_Suc_eq)
  qed (use ok order kept in \<open>auto simp: chain_ok_def order_ok_def t\<close>)
  moreover have "phase_ok t n (phase_of t n)" if "n \<le> ?n" for n
    using ok that kept [of n] phase_ok_cong [of t s n "phase_of s n"]
    by (cases "n = ?n") (auto simp: chain_ok_def t nth_append)
  moreover have "appender (chain_tasks t ! n) < length (appends s)" if "n \<le> ?n" for n
    using ok that kept [of n] i(1) by (cases "n = ?n") (auto simp: chain_ok_def appends_ok_def t nth_append)
  moreover have "signalled_ok t (appends s)"
    using ok kept by (auto simp: signalled_ok_def chain_ok_def t less_Suc_eq)
  ultimately show ?thesis
    unfolding set_append_def using i
    by (intro chain_okI_appends signalled_update) (simp_all add: nth_list_update' t)
qed

text \<open>The exchange that succeeds.\<close>

lemma exchange_ok:
  assumes ok: "chain_ok s" and i: "i < length (appends s)" "appends s ! i = Prepared old new" and last: "last_task s = old"
    and t: "t = s\<lparr>last_task := Some new, chain_order := chain_order s @ [new]\<rparr>"
  shows "chain_ok (set_append i (Exchanged old) t)"
proof -
  have order: "order_ok s" using ok by (simp add: chain_ok_def)
  from chain_ok_append [OF ok i(1)] i(2) obtain a where a: "a \<le> order_length s" "old = chain_tip (chain_order s) a"
    and new: "new \<in> attempts s i" "new \<notin> set (chain_order s)" "predecessor (chain_tasks s ! new) = old"
    and lost: "\<forall>n. n \<noteq> new \<longrightarrow> lost_before s i a n" by auto
  have "a = order_length s"
    using a last order chain_tip_inj [of "chain_order s" a "order_length s"] by (auto simp: order_ok_def)
  moreover have "lost_before t i a n" if "n \<noteq> new" for n
    using lost that a(1) by (fastforce simp: t lost_before_def attempts_def)
  ultimately have "append_ok t i (Exchanged old)"
    using a new by (auto simp: t attempt_won_def attempts_def intro!: exI [of _ a])
  moreover have "append_ok t j (appends s ! j)" if "j < length (appends s)" "j \<noteq> i" for j
    using chain_ok_append [OF ok that(1)]
    by (rule append_ok_kept [where new = "[new]"]) (use that new in \<open>auto simp: attempts_def t\<close>)
  moreover have "order_ok t"
    using order new last a \<open>a = order_length s\<close>
    by (auto simp: order_ok_def t less_Suc_eq nth_append attempts_def chain_tip_def)
  moreover have waiting: "phase_of s new = Waiting_signal"
    using ok new(1) i by (auto simp: chain_ok_def signalled_ok_def attempts_def)
  moreover obtain m where "progress_ok t m"
  proof -
    from ok obtain m where m: "progress_ok s m" by (auto simp: chain_ok_def)
    have phases: "phase_of t (chain_order t ! k) =
        (if k = order_length s then Waiting_signal else phase_of s (chain_order s ! k))" if "k \<le> order_length s" for k
      using that waiting by (auto simp: t nth_append)
    have progress: "progress_at m k (phase_of s (chain_order s ! k))" if "k < order_length s" for k
      using that m by (simp add: progress_ok_def)
    have failed: "phase_of s (chain_order s ! k) = Finished (Some e)"
      if "Suc k < order_length s" "m \<le> Suc k" "phase_of s (chain_order s ! Suc k) = Finished (Some e)" for k e
      using that m by (simp add: progress_ok_def)
    have bound: "m \<le> order_length s" "executed s = take m (chain_order s)" using m by (auto simp: progress_ok_def)
    have length: "order_length t = Suc (order_length s)" by (simp add: t)
    have "progress_ok t m"
      unfolding progress_ok_def
    proof (intro conjI allI impI)
      show "progress_at m k (phase_of t (chain_order t ! k))" if "k < order_length t" for k
        using that bound phases [of k] progress [of k] length by (cases "k = order_length s") simp_all
      show "phase_of t (chain_order t ! k) = Finished (Some e)"
        if "Suc k < order_length t" "m \<le> Suc k" "phase_of t (chain_order t ! Suc k) = Finished (Some e)" for k e
        using that phases [of k] phases [of "Suc k"] failed [of k e] length
        by (cases "Suc k = order_length s") simp_all
    qed (use bound in \<open>simp_all add: t\<close>)
    then show ?thesis ..
  qed
  moreover have "taken_ok t"
    by (rule taken_ok_kept [where s = s and new = "[new]"]) (use ok in \<open>auto simp: chain_ok_def t\<close>)
  moreover have "phase_ok t n (phase_of t n)" if "n < length (chain_tasks s)" for n
    using ok that waiting by (cases "n = new"; cases "phase_of s n") (auto simp: chain_ok_def t dest: spec [of _ n])
  moreover have "signalled_ok t (appends s)"
    using ok by (simp add: signalled_ok_def chain_ok_def t)
  ultimately show ?thesis
    unfolding set_append_def using i ok
    by (intro chain_okI_appends signalled_update) (simp_all add: nth_list_update' t chain_ok_def appends_ok_def)
qed

lemma append_step_ok:
  assumes "chain_ok s" and "append_step i s = Some t"
  shows "chain_ok t"
proof -
  from assms(2) have i: "i < length (appends s)" by (auto simp: append_step_def split: if_splits)
  note own = chain_ok_append [OF assms(1) i]
  have last: "last_task s = chain_tip (chain_order s) (order_length s)"
    using assms(1) by (simp add: chain_ok_def order_ok_def)
  show ?thesis
  proof (cases "appends s ! i")
    case Admitted
    with own have "append_ok s i (Attempting (last_task s))"
      by (auto simp: last lost_before_def intro!: exI [of _ "order_length s"])
    with assms(1) Admitted have "chain_ok (set_append i (Attempting (last_task s)) s)" by (intro set_append_ok) auto
    with assms(2) i Admitted show ?thesis by (simp add: append_step_def)
  next
    case (Attempting old)
    with assms i new_task_ok show ?thesis by (fastforce simp: append_step_def Let_def)
  next
    case (Prepared old new)
    show ?thesis
    proof (cases "last_task s = old")
      case True
      with assms i Prepared exchange_ok show ?thesis by (fastforce simp: append_step_def)
    next
      case False
      from own Prepared obtain a where a: "a \<le> order_length s" "old = chain_tip (chain_order s) a"
        and new: "new \<notin> set (chain_order s)" "predecessor (chain_tasks s ! new) = old"
        and lost: "\<And>n. n \<noteq> new \<Longrightarrow> lost_before s i a n" by auto
      from last a False have less: "a < order_length s" by (cases "a = order_length s") auto
      then have "lost_before s i (order_length s) n" for n
        using lost [of n] new a(2) by (cases "n = new") (auto simp: lost_before_def dest: less_trans)
      with last have "append_ok s i (Attempting (last_task s))" by auto
      then have "chain_ok (set_append i (Attempting (last_task s)) s)"
        using assms(1) Prepared by (intro set_append_ok) auto
      with False assms(2) i Prepared show ?thesis by (simp add: append_step_def)
    qed
  qed (use assms i own in \<open>auto simp: append_step_def intro!: set_append_ok\<close>)
qed

section \<open>Tasks keep the invariant\<close>

lemma nth_update_any: "xs[i := x] ! j = (if i = j \<and> j < length xs then x else xs ! j)"
  by (cases "i < length xs") (auto simp: nth_list_update list_update_beyond)

lemma task_views [simp]:
  "length (chain_tasks (set_task_phase n p s)) = length (chain_tasks s)"
  "predecessor (chain_tasks (set_task_phase n p s) ! k) = predecessor (chain_tasks s ! k)"
  "appender (chain_tasks (set_task_phase n p s) ! k) = appender (chain_tasks s ! k)"
  "taken (chain_tasks (set_task_phase n p s) ! k) = taken (chain_tasks s ! k)"
  "n < length (chain_tasks s) \<Longrightarrow> phase_of (set_task_phase n p s) k = (if k = n then p else phase_of s k)"
  "chain_order (set_task_phase n p s) = chain_order s" "appends (set_task_phase n p s) = appends s"
  "executed (set_task_phase n p s) = executed s" "last_task (set_task_phase n p s) = last_task s"
  by (simp_all add: set_task_phase_def nth_update_any)

lemma take_views [simp]:
  "length (chain_tasks (take_result n s)) = length (chain_tasks s)"
  "predecessor (chain_tasks (take_result n s) ! k) = predecessor (chain_tasks s ! k)"
  "appender (chain_tasks (take_result n s) ! k) = appender (chain_tasks s ! k)"
  "phase_of (take_result n s) k = phase_of s k"
  "n < length (chain_tasks s) \<Longrightarrow> taken (chain_tasks (take_result n s) ! k) = (k = n \<or> taken (chain_tasks s ! k))"
  "chain_order (take_result n s) = chain_order s" "appends (take_result n s) = appends s"
  "executed (take_result n s) = executed s" "last_task (take_result n s) = last_task s"
  by (auto simp: take_result_def nth_update_any)

lemma call_views [simp]:
  "chain_tasks (call_task n s) = chain_tasks (set_task_phase n Executing s)" "chain_order (call_task n s) = chain_order s"
  "appends (call_task n s) = appends s" "executed (call_task n s) = executed s @ [n]" "last_task (call_task n s) = last_task s"
  by (simp_all add: call_task_def)

definition same_shape :: "'e chain \<Rightarrow> 'e chain \<Rightarrow> bool" where
  "same_shape s t \<longleftrightarrow> chain_order t = chain_order s \<and> appends t = appends s \<and> last_task t = last_task s \<and>
     length (chain_tasks t) = length (chain_tasks s) \<and>
     (\<forall>k. predecessor (chain_tasks t ! k) = predecessor (chain_tasks s ! k) \<and>
       appender (chain_tasks t ! k) = appender (chain_tasks s ! k))"

lemma same_shape_ok:
  assumes ok: "chain_ok s" and shape: "same_shape s t" and "progress_ok t m" and "taken_ok t"
    and "\<And>n. n < length (chain_tasks s) \<Longrightarrow> phase_ok s n (phase_of t n)" and "signalled_ok t (appends s)"
  shows "chain_ok t"
proof -
  have "append_ok t i (appends t ! i)" if "i < length (appends t)" for i
  proof (rule append_ok_kept [where s = s and new = "[]"])
    show "append_ok s i (appends t ! i)" using that shape chain_ok_append [OF ok] by (simp add: same_shape_def)
  qed (use shape in \<open>auto simp: same_shape_def attempts_def\<close>)
  moreover have "phase_ok t n p = phase_ok s n p" for n p using shape by (intro phase_ok_cong) (simp add: same_shape_def)
  ultimately show ?thesis
    using assms by (auto simp: chain_ok_def same_shape_def order_ok_def appends_ok_def)
qed

lemma progress_facts:
  assumes "progress_ok s m"
  shows "m \<le> order_length s" and "executed s = take m (chain_order s)"
    and "k < order_length s \<Longrightarrow> progress_at m k (phase_of s (chain_order s ! k))"
  using assms by (simp_all add: progress_ok_def)

text \<open>The phase of the \<open>k\<close>-th task changes, and \<open>m'\<close> tasks have called their callables.\<close>

lemma progress_change:
  assumes s: "progress_ok s m" and order: "chain_order t = chain_order s" "k < order_length s"
    and phases: "\<And>j. j < order_length s \<Longrightarrow>
      phase_of t (chain_order s ! j) = (if j = k then p else phase_of s (chain_order s ! j))"
    and "m \<le> Suc k" and before: "\<And>e. phase_of s (chain_order s ! k) \<noteq> Finished (Some e)"
    and m': "executed t = take m' (chain_order s)" "m \<le> m'" "m' \<le> order_length s" "progress_at m' k p"
    and others: "\<And>j. j < order_length s \<Longrightarrow> j \<noteq> k \<Longrightarrow> progress_at m' j (phase_of s (chain_order s ! j))"
    and failed: "\<And>e j. p = Finished (Some e) \<Longrightarrow> m' \<le> k \<Longrightarrow> k = Suc j \<Longrightarrow> phase_of s (chain_order s ! j) = Finished (Some e)"
  shows "progress_ok t m'"
  unfolding progress_ok_def order
proof (intro conjI allI impI)
  show "progress_at m' j (phase_of t (chain_order s ! j))" if "j < order_length s" for j
    using others [OF that] phases [OF that] m'(4) by (cases "j = k") simp_all
  have chain: "phase_of s (chain_order s ! j) = Finished (Some e)"
    if "Suc j < order_length s" "m \<le> Suc j" "phase_of s (chain_order s ! Suc j) = Finished (Some e)" for j e
    using that s by (simp add: progress_ok_def)
  show "phase_of t (chain_order s ! j) = Finished (Some e)"
    if j: "Suc j < order_length s" "m' \<le> Suc j" "phase_of t (chain_order s ! Suc j) = Finished (Some e)" for j e
  proof (cases "Suc j = k")
    case True
    with j(1,3) phases [OF j(1)] have "p = Finished (Some e)" by metis
    from failed [OF this _ True [symmetric]] j(2) True have "phase_of s (chain_order s ! j) = Finished (Some e)" by metis
    moreover have "j \<noteq> k" "j < order_length s" using True order(2) by auto
    ultimately show ?thesis using phases [of j] by metis
  next
    case False
    with j(3) phases [OF j(1)] have "phase_of s (chain_order s ! Suc j) = Finished (Some e)" by metis
    with chain [OF j(1)] j(2) m'(2) have "phase_of s (chain_order s ! j) = Finished (Some e)" using le_trans by metis
    moreover from this before have "j \<noteq> k" by metis
    ultimately show ?thesis using Suc_lessD [OF j(1)] phases [of j] by metis
  qed
  show "executed t = take m' (chain_order s)" "m' \<le> order_length s" by fact+
qed

lemma taken_ok_change:
  assumes "taken_ok s" and order: "chain_order t = chain_order s" "length (chain_tasks t) = length (chain_tasks s)"
    and taken: "\<And>q. q < length (chain_tasks s) \<Longrightarrow> taken (chain_tasks t ! q) \<Longrightarrow> taken (chain_tasks s ! q) \<or>
      (\<exists>k. Suc k < order_length s \<and> chain_order s ! k = q \<and> past_get (phase_of t (chain_order s ! Suc k)))"
    and past: "\<And>n. past_get (phase_of s n) \<Longrightarrow> past_get (phase_of t n)"
  shows "taken_ok t"
  unfolding taken_ok_def order
proof (intro allI impI)
  fix q assume "q < length (chain_tasks s)" "taken (chain_tasks t ! q)"
  with taken assms(1) past show "\<exists>k. Suc k < order_length s \<and> chain_order s ! k = q \<and> past_get (phase_of t (chain_order s ! Suc k))"
    unfolding taken_ok_def by blast
qed

text \<open>The place of a task in the order, and the task before it.\<close>

lemma task_place:
  assumes "order_ok s" and "n \<in> set (chain_order s)"
  obtains k where "k < order_length s" "chain_order s ! k = n" "predecessor (chain_tasks s ! n) = chain_tip (chain_order s) k"
    "\<forall>j<order_length s. chain_order s ! j = n \<longleftrightarrow> j = k"
proof -
  from assms(2) obtain k where k: "k < order_length s" "chain_order s ! k = n" by (auto simp: in_set_conv_nth)
  with assms(1) have "predecessor (chain_tasks s ! n) = chain_tip (chain_order s) k" by (auto simp: order_ok_def)
  moreover have "chain_order s ! j = n \<longleftrightarrow> j = k" if "j < order_length s" for j
    using assms(1) k that nth_eq_iff_index_eq by (auto simp: order_ok_def)
  ultimately show thesis using that k by blast
qed

lemma chain_ok_parts:
  assumes "chain_ok s"
  obtains m where "order_ok s" "progress_ok s m" "taken_ok s" "signalled_ok s (appends s)"
    "\<And>n. n < length (chain_tasks s) \<Longrightarrow> phase_ok s n (phase_of s n)"
  using assms that by (auto simp: chain_ok_def)

text \<open>What stays when task \<open>n\<close> of the order changes its phase, and perhaps takes its predecessor's result.\<close>

lemma phase_change_ok:
  assumes ok: "chain_ok s" and n: "n < length (chain_tasks s)" "n \<in> set (chain_order s)" "phase_of s n \<noteq> Waiting_signal"
    and shape: "same_shape s t" and progress: "progress_ok t m"
    and phases: "\<And>q. phase_of t q = (if q = n then p else phase_of s q)"
    and p: "p \<noteq> Skipped" "past_get p"
    and taken: "\<And>q. taken (chain_tasks t ! q) \<Longrightarrow> taken (chain_tasks s ! q) \<or>
      (\<exists>k. Suc k < order_length s \<and> chain_order s ! k = q \<and> chain_order s ! Suc k = n)"
  shows "chain_ok t"
  using ok
proof (rule chain_ok_parts)
  fix m' assume s: "order_ok s" "taken_ok s" "signalled_ok s (appends s)"
    "\<And>n. n < length (chain_tasks s) \<Longrightarrow> phase_ok s n (phase_of s n)"
  show ?thesis
  proof (rule same_shape_ok [OF ok shape progress])
    show "taken_ok t"
      using taken p(2) phases shape by (intro taken_ok_change [OF s(2)]) (auto simp: same_shape_def)
    show "phase_ok s q (phase_of t q)" if "q < length (chain_tasks s)" for q
      using s(4) [OF that] n(2) p(1) phases [of q] by (cases p) auto
    show "signalled_ok t (appends s)"
      using s(3) n phases shape by (auto simp: signalled_ok_def same_shape_def)
  qed
qed

lemma signal_ok:
  assumes ok: "chain_ok s" and n: "n < length (chain_tasks s)" "phase_of s n = Waiting_signal"
    and signal: "appends s ! appender (chain_tasks s ! n) = Appended old"
    and t: "t = set_task_phase n (if predecessor (chain_tasks s ! n) \<noteq> old then Skipped else Waiting_predecessor) s"
  shows "chain_ok t"
  using ok
proof (rule chain_ok_parts)
  fix m assume s: "order_ok s" "progress_ok s m" "taken_ok s" "signalled_ok s (appends s)"
    "\<And>n. n < length (chain_tasks s) \<Longrightarrow> phase_ok s n (phase_of s n)"
  let ?i = "appender (chain_tasks s ! n)"
  have "?i < length (appends s)" using ok n by (simp add: chain_ok_def appends_ok_def)
  from chain_ok_append [OF ok this] signal have "attempt_won s ?i old" by simp
  then obtain a where a: "a < order_length s" "old = chain_tip (chain_order s) a"
    and lost: "\<And>n. n \<noteq> chain_order s ! a \<Longrightarrow> lost_before s ?i a n" by (auto simp: attempt_won_def)
  have "n \<in> attempts s ?i" using n by (simp add: attempts_def)
  then have won: "predecessor (chain_tasks s ! n) = old \<longleftrightarrow> n \<in> set (chain_order s)"
  proof (cases "n = chain_order s ! a")
    case True
    with a s(1) show ?thesis by (auto simp: order_ok_def)
  next
    case False
    with lost \<open>n \<in> attempts s ?i\<close> obtain b where b: "b < a" "predecessor (chain_tasks s ! n) = chain_tip (chain_order s) b"
      "n \<notin> set (chain_order s)" by (auto simp: lost_before_def)
    moreover have "chain_tip (chain_order s) b \<noteq> old"
      using a b(1) s(1) chain_tip_inj [of "chain_order s" b a] by (auto simp: order_ok_def)
    ultimately show ?thesis by simp
  qed
  have "same_shape s t" by (simp add: t same_shape_def)
  moreover have "progress_ok t m"
  proof (cases "n \<in> set (chain_order s)")
    case True
    with s(1) obtain k where k: "k < order_length s" "chain_order s ! k = n"
      "\<forall>j<order_length s. chain_order s ! j = n \<longleftrightarrow> j = k" by (rule task_place)
    have own: "phase_of s (chain_order s ! k) = Waiting_signal" using k(2) n by simp
    with progress_facts(3) [OF s(2) k(1)] have "m \<le> k" by simp
    moreover have waits: "phase_of s (chain_order s ! k) \<noteq> Finished (Some e)" for e using own by simp
    ultimately show ?thesis
      using progress_facts [OF s(2)] k n won True
      by (intro progress_change [OF s(2) _ k(1) _ _ waits, where p = Waiting_predecessor]) (simp_all add: t)
  next
    case False
    with s(2) show ?thesis by (rule_tac progress_ok_kept) (use n False in \<open>auto simp: t\<close>)
  qed
  moreover have "taken_ok t" using s(3) by (rule taken_ok_change) (use n in \<open>auto simp: t\<close>)
  moreover have "phase_ok s q (phase_of t q)" if "q < length (chain_tasks s)" for q
    using s(5) [OF that] n won by (auto simp: t)
  moreover have "signalled_ok t (appends s)" using s(4) n signal by (auto simp: signalled_ok_def t)
  ultimately show ?thesis by (rule same_shape_ok [OF ok])
qed

lemma call_ok:
  assumes ok: "chain_ok s" and n: "n < length (chain_tasks s)" "phase_of s n = Waiting_predecessor"
    and p: "predecessor (chain_tasks s ! n) = p"
    and shape: "same_shape s t" and executed: "executed t = executed s @ [n]"
    and phases: "\<And>q. phase_of t q = (if q = n then Executing else phase_of s q)"
    and free: "case p of None \<Rightarrow> True | Some q \<Rightarrow> phase_of s q = Finished None"
    and taken: "\<And>q. taken (chain_tasks t ! q) \<Longrightarrow> taken (chain_tasks s ! q) \<or> p = Some q"
  shows "chain_ok t"
  using ok
proof (rule chain_ok_parts)
  fix m assume s: "order_ok s" "progress_ok s m" "\<And>n. n < length (chain_tasks s) \<Longrightarrow> phase_ok s n (phase_of s n)"
  from s(3) n have "n \<in> set (chain_order s)" by fastforce
  with s(1) obtain k where k: "k < order_length s" "chain_order s ! k = n" "predecessor (chain_tasks s ! n) = chain_tip (chain_order s) k"
    "\<forall>j<order_length s. chain_order s ! j = n \<longleftrightarrow> j = k" by (rule task_place)
  have at: "progress_at m j (phase_of s (chain_order s ! j))" if "j < order_length s" for j
    using progress_facts(3) [OF s(2) that] .
  have pred: "phase_of s (chain_order s ! (k - 1)) = Finished None" if "0 < k"
    using free p k(3) that by (auto simp: chain_tip_def split: option.splits)
  have own: "phase_of s (chain_order s ! k) = Waiting_predecessor" using k(2) n by simp
  then have before: "phase_of s (chain_order s ! k) \<noteq> Finished (Some e)" for e by simp
  from own at [OF k(1)] have "m \<le> k" by simp
  moreover have "k \<le> m" using at [of "k - 1"] pred k(1) by (cases k) auto
  ultimately have m: "m = k" by simp
  have others: "progress_at (Suc k) j (phase_of s (chain_order s ! j))" if "j < order_length s" "j \<noteq> k" for j
  proof (cases "Suc j = k")
    case True
    with pred show ?thesis by auto
  next
    case False
    with at [OF that(1)] that(2) m show ?thesis
      by (cases "(Suc k, j, phase_of s (chain_order s ! j))" rule: progress_at.cases) auto
  qed
  have "executed s = take k (chain_order s)" using progress_facts(2) [OF s(2)] m by simp
  then have "executed t = take (Suc k) (chain_order s)"
    using executed k(1,2) by (simp add: take_Suc_conv_app_nth)
  moreover have "chain_order t = chain_order s" using shape by (simp add: same_shape_def)
  ultimately have progress: "progress_ok t (Suc k)"
    using k m phases n by (intro progress_change [OF s(2) _ k(1) _ _ before _ _ _ _ others, where p = Executing]) simp_all
  show ?thesis
  proof (rule phase_change_ok [OF ok n(1) \<open>n \<in> set (chain_order s)\<close> _ shape progress])
    fix q assume "taken (chain_tasks t ! q)"
    with taken p k(1-3) show "taken (chain_tasks s ! q) \<or> (\<exists>k. Suc k < order_length s \<and> chain_order s ! k = q \<and> chain_order s ! Suc k = n)"
      by (cases k) (auto simp: chain_tip_def)
  qed (use n phases in auto)
qed

text \<open>The task finishes: its callable returned or threw, or its predecessor had failed.\<close>

lemma finish_ok:
  assumes ok: "chain_ok s" and n: "n < length (chain_tasks s)"
    and shape: "same_shape s t" and executed: "executed t = executed s"
    and phases: "\<And>q. phase_of t q = (if q = n then Finished r else phase_of s q)"
    and case_n: "phase_of s n = Executing \<or>
      (phase_of s n = Waiting_predecessor \<and> (\<exists>p e. predecessor (chain_tasks s ! n) = Some p \<and> r = Some e \<and>
        phase_of s p = Finished (Some e)))"
    and taken: "\<And>q. taken (chain_tasks t ! q) \<Longrightarrow> taken (chain_tasks s ! q) \<or> predecessor (chain_tasks s ! n) = Some q"
  shows "chain_ok t"
  using ok
proof (rule chain_ok_parts)
  fix m assume s: "order_ok s" "progress_ok s m" "\<And>n. n < length (chain_tasks s) \<Longrightarrow> phase_ok s n (phase_of s n)"
  from s(3) [OF n] case_n have member: "n \<in> set (chain_order s)" by auto
  with s(1) obtain k where k: "k < order_length s" "chain_order s ! k = n" "predecessor (chain_tasks s ! n) = chain_tip (chain_order s) k"
    "\<forall>j<order_length s. chain_order s ! j = n \<longleftrightarrow> j = k" by (rule task_place)
  have at: "progress_at m j (phase_of s (chain_order s ! j))" if "j < order_length s" for j
    using progress_facts(3) [OF s(2) that] .
  have order: "chain_order t = chain_order s" using shape by (simp add: same_shape_def)
  have own: "phase_of s (chain_order s ! k) = phase_of s n" by (simp add: k(2))
  have bound: "m \<le> Suc k" "progress_at m k (Finished r)" "\<And>e. phase_of s n \<noteq> Finished (Some e)"
    using at [OF k(1)] own case_n by (auto, cases r, auto)
  have failed: "phase_of s (chain_order s ! j) = Finished (Some e)" if "Finished r = Finished (Some e)" "m \<le> k" "k = Suc j" for e j
    using that case_n at [OF k(1)] own k(3) by (auto simp: chain_tip_def)
  have progress: "progress_ok t m"
    by (rule progress_change [OF s(2) order k(1) _ bound(1) _ _ _ _ bound(2) at failed])
      (use k phases own bound(3) progress_facts [OF s(2)] executed in simp_all)
  show ?thesis
  proof (rule phase_change_ok [OF ok n member _ shape progress])
    fix q assume "taken (chain_tasks t ! q)"
    with taken k(1-3) show "taken (chain_tasks s ! q) \<or> (\<exists>k. Suc k < order_length s \<and> chain_order s ! k = q \<and> chain_order s ! Suc k = n)"
      by (cases k) (auto simp: chain_tip_def)
  qed (use case_n phases in auto)
qed

text \<open>No future is asked twice.\<close>

lemma predecessor_not_taken:
  assumes ok: "chain_ok s" and n: "n < length (chain_tasks s)" "phase_of s n = Waiting_predecessor"
    and "predecessor (chain_tasks s ! n) = Some p"
  shows "p < length (chain_tasks s)" and "\<not> taken (chain_tasks s ! p)"
proof -
  have order: "order_ok s" using ok by (simp add: chain_ok_def)
  have "n \<in> set (chain_order s)" using ok n by (auto simp: chain_ok_def dest: spec [of _ n])
  with order obtain k where k: "k < order_length s" "chain_order s ! k = n" "predecessor (chain_tasks s ! n) = chain_tip (chain_order s) k"
    by (rule task_place)
  with assms(4) have p: "0 < k" "p = chain_order s ! (k - 1)" by (auto simp: chain_tip_def split: if_splits)
  then show len: "p < length (chain_tasks s)" using order_member [OF order] k(1) by simp
  show "\<not> taken (chain_tasks s ! p)"
  proof
    assume "taken (chain_tasks s ! p)"
    with ok len obtain j where j: "Suc j < order_length s" "chain_order s ! j = p" "past_get (phase_of s (chain_order s ! Suc j))"
      by (auto simp: chain_ok_def taken_ok_def)
    then have "j = k - 1" using p k(1) order nth_eq_iff_index_eq [of "chain_order s" j "k - 1"] by (auto simp: order_ok_def)
    with j(3) p(1) k(2) n(2) show False by simp
  qed
qed

lemma task_step_ok:
  assumes ok: "chain_ok s" and step: "task_step callable n s = Some r"
  shows "\<exists>t. r = Inr t \<and> chain_ok t"
proof -
  from step have n: "n < length (chain_tasks s)" by (auto simp: task_step_def split: if_splits)
  show ?thesis
  proof (cases "phase_of s n")
    case Waiting_signal
    with step n signal_ok [OF ok n] show ?thesis
      by (auto simp: task_step_def Let_def split: append_phase.splits)
  next
    case Executing
    with step n have "r = Inr (set_task_phase n (Finished (callable (appender (chain_tasks s ! n)))) s)"
      by (simp add: task_step_def Let_def)
    moreover have "chain_ok (set_task_phase n (Finished (callable (appender (chain_tasks s ! n)))) s)"
      by (rule finish_ok [OF ok n]) (use Executing n in \<open>simp_all add: same_shape_def\<close>)
    ultimately show ?thesis by simp
  next
    case Waiting_predecessor
    show ?thesis
    proof (cases "predecessor (chain_tasks s ! n)")
      case None
      with Waiting_predecessor step n have "r = Inr (call_task n s)" by (simp add: task_step_def Let_def)
      moreover have "chain_ok (call_task n s)"
        by (rule call_ok [OF ok n Waiting_predecessor None]) (use n in \<open>simp_all add: same_shape_def\<close>)
      ultimately show ?thesis by simp
    next
      case (Some p)
      note p = predecessor_not_taken [OF ok n Waiting_predecessor Some]
      from Some Waiting_predecessor step n p(2) obtain result where result: "phase_of s p = Finished result"
        by (auto simp: task_step_def Let_def split: task_phase.splits)
      show ?thesis
      proof (cases result)
        case None
        with result Some Waiting_predecessor step n p have "r = Inr (call_task n (take_result p s))" by (simp add: task_step_def Let_def)
        moreover have "chain_ok (call_task n (take_result p s))"
          by (rule call_ok [OF ok n Waiting_predecessor Some]) (use n p None result in \<open>auto simp: same_shape_def\<close>)
        ultimately show ?thesis by simp
      next
        case failed: (Some e)
        with result Some Waiting_predecessor step n p have "r = Inr (set_task_phase n (Finished (Some e)) (take_result p s))"
          by (simp add: task_step_def Let_def)
        moreover have "chain_ok (set_task_phase n (Finished (Some e)) (take_result p s))"
          by (rule finish_ok [OF ok n]) (use n p failed result Waiting_predecessor Some in \<open>auto simp: same_shape_def\<close>)
        ultimately show ?thesis by simp
      qed
    qed
  qed (use step n in \<open>simp_all add: task_step_def\<close>)
qed

lemma wait_step_ok:
  assumes ok: "chain_ok s" and "chain_wait_step j s = Some (Inr t)"
  shows "chain_ok t"
proof -
  from ok obtain m where m: "progress_ok s m" by (auto simp: chain_ok_def)
  from assms(2) have t: "chain_tasks t = chain_tasks s" "same_shape s t" "executed t = executed s"
    by (auto simp: chain_wait_step_def same_shape_def split: if_splits wait_phase.splits task_phase.splits)
  have "progress_ok t m" by (rule progress_ok_kept [OF m]) (use t in \<open>auto simp: same_shape_def\<close>)
  then show ?thesis
    by (rule_tac same_shape_ok [OF ok t(2)])
      (use ok t in \<open>auto simp: chain_ok_def taken_ok_def signalled_ok_def same_shape_def\<close>)
qed

lemma chain_ok_empty: "chain_ok empty_chain"
  by (simp add: chain_ok_def empty_chain_def order_ok_def appends_ok_def signalled_ok_def progress_ok_def taken_ok_def
      chain_tip_def)

lemma chain_ok_waits: "chain_ok (s\<lparr>waits := ws\<rparr>)" if "chain_ok s"
proof -
  from that obtain m where "progress_ok s m" by (auto simp: chain_ok_def)
  then have "progress_ok (s\<lparr>waits := ws\<rparr>) m" by (rule progress_ok_kept) simp_all
  then show ?thesis
    by (rule_tac same_shape_ok [OF that])
      (use that in \<open>auto simp: chain_ok_def taken_ok_def signalled_ok_def same_shape_def\<close>)
qed

lemma chain_ok_step: "chain_step callable s t \<Longrightarrow> chain_ok s \<Longrightarrow> chain_ok t"
proof (induction rule: chain_step.induct)
  case (chain_event ev s t)
  then show ?case
    using call_append_ok append_step_ok [of s _ t] task_step_ok [of s callable _ "Inr t"] wait_step_ok [of s _ t] chain_ok_waits [of s]
    by (cases ev) auto
qed

lemma chain_ok_reachable: "(chain_step callable)\<^sup>*\<^sup>* empty_chain s \<Longrightarrow> chain_ok s"
  by (induction rule: rtranclp_induct) (auto intro: chain_ok_empty chain_ok_step)

section \<open>In order, one at a time\<close>

lemma progress_before:
  assumes "progress_at m k Executing \<or> progress_at m k (Finished None)" and "j < k" and "progress_at m j p"
  shows "p = Finished None"
  using assms by (cases "(m, j, p)" rule: progress_at.cases) auto

text \<open>A failure is passed on: from a failed task to every task that finished after it.\<close>

lemma failure_spreads:
  assumes s: "progress_ok s m" and k: "phase_of s (chain_order s ! k) = Finished (Some e)"
    and "k \<le> j" and "j < order_length s" and "phase_of s (chain_order s ! j) = Finished r"
  shows "r = Some e"
  using assms(3-5)
proof (induction j arbitrary: r rule: dec_induct)
  case base
  with k show ?case by simp
next
  case (step j)
  have "m \<le> Suc k" using progress_facts(3) [OF s, of k] k step by simp
  with step progress_facts(3) [OF s, of "Suc j"] obtain e' where r: "r = Some e'" by (cases r) auto
  moreover have "phase_of s (chain_order s ! j) = Finished (Some e')"
    using s step r \<open>m \<le> Suc k\<close> unfolding progress_ok_def by auto
  ultimately show ?case using step by auto
qed

lemma appenders_distinct:
  assumes ok: "chain_ok s" and "a < order_length s" "b < order_length s"
    and same: "appender (chain_tasks s ! (chain_order s ! a)) = appender (chain_tasks s ! (chain_order s ! b))"
  shows "a = b"
proof -
  let ?i = "appender (chain_tasks s ! (chain_order s ! a))"
  have order: "order_ok s" using ok by (simp add: chain_ok_def)
  then have members: "chain_order s ! a \<in> attempts s ?i" "chain_order s ! b \<in> attempts s ?i"
    using order_member assms(2-3) same by (simp_all add: attempts_def)
  then have "?i < length (appends s)" using ok by (auto simp: attempts_def chain_ok_def appends_ok_def)
  moreover have "chain_order s ! a \<in> set (chain_order s)" "chain_order s ! b \<in> set (chain_order s)"
    using assms(2,3) by simp_all
  ultimately obtain c where "chain_order s ! a = c" "chain_order s ! b = c"
    using chain_ok_append [OF ok, of ?i] members
    by (cases "appends s ! ?i") (auto simp: attempt_won_def lost_before_def, (metis+)?)
  with order assms(2,3) show ?thesis by (metis nth_eq_iff_index_eq order_ok_def)
qed


text \<open>Two appends race: the second exchanges first, and its callable throws.\<close>

definition sample_race :: "chain_event list" where
  "sample_race = [Call_append, Call_append, Append_at 0, Append_at 1, Append_at 0, Append_at 1, Append_at 0, Append_at 1,
     Append_at 1, Append_at 0, Append_at 1, Append_at 0, Append_at 0, Append_at 0, Task_at 0, Task_at 1, Task_at 2,
     Task_at 1, Task_at 1, Task_at 2]"

lemma sample_race_run:
  "case run_chain (\<lambda>i. if i = 1 then Some ''failed'' else None) sample_race empty_chain of None \<Rightarrow> False | Some s \<Rightarrow>
     chain_order s = [1, 2] \<and> executed s = [1] \<and> phase_of s 0 = Skipped \<and> phase_of s 1 = Finished (Some ''failed'') \<and>
     phase_of s 2 = Finished (Some ''failed'')"
  by code_simp


section \<open>The chain comes to an end\<close>

text \<open>
  Without new calls there is a bound on the steps: each exchange can make every other attempt fail once,
  and each attempt brings one task of at most three steps.
\<close>

definition unexchanged :: "append_phase \<Rightarrow> bool" where
  "unexchanged a = (case a of Exchanged old \<Rightarrow> False | Appended old \<Rightarrow> False | Refused \<Rightarrow> False | _ \<Rightarrow> True)"

fun append_rank :: "nat option \<Rightarrow> append_phase \<Rightarrow> nat" where
  "append_rank newest Starting = 7"
| "append_rank newest Admitted = 6"
| "append_rank newest (Attempting old) = (if old = newest then 3 else 5)"
| "append_rank newest (Prepared old new) = (if old = newest then 2 else 4)"
| "append_rank newest (Exchanged old) = 1"
| "append_rank newest a = 0"

fun task_rank :: "'e task_phase \<Rightarrow> nat" where
  "task_rank Waiting_signal = 3"
| "task_rank Waiting_predecessor = 2"
| "task_rank Executing = 1"
| "task_rank p = 0"

definition append_work :: "'e chain \<Rightarrow> nat" where
  "append_work s = 2 * length (appends s) * length (filter unexchanged (appends s)) +
     sum_list (map (append_rank (last_task s)) (appends s))"

definition task_work :: "'e chain \<Rightarrow> nat" where
  "task_work s = sum_list (map (\<lambda>t. task_rank (task_phase t)) (chain_tasks s))"

definition chain_work :: "'e chain \<Rightarrow> nat" where
  "chain_work s = 4 * append_work s + task_work s"

lemma sum_update_less:
  "i < length xs \<Longrightarrow> f x < (f (xs ! i) :: nat) \<Longrightarrow> sum_list (map f (xs[i := x])) < sum_list (map f xs)"
  by (induction xs arbitrary: i) (auto simp: nth_Cons split: nat.splits)

lemma sum_raised:
  assumes "i < length xs" and "\<And>x. g x \<le> (f x :: nat) + c" and "g y < f (xs ! i)"
  shows "sum_list (map g (xs[i := y])) < sum_list (map f xs) + c * length xs"
  using assms(1,3)
proof (induction xs arbitrary: i)
  case (Cons x xs)
  have all: "sum_list (map g xs) \<le> sum_list (map f xs) + c * length xs" for xs
    by (induction xs) (use assms(2) in \<open>auto simp: algebra_simps intro: order_trans add_mono\<close>)
  show ?case
  proof (cases i)
    case 0
    with Cons.prems all [of xs] show ?thesis by (simp add: algebra_simps)
  next
    case (Suc j)
    with Cons.IH [of j] Cons.prems assms(2) [of x] show ?thesis by (simp add: algebra_simps)
  qed
qed simp

lemma append_rank_raised: "append_rank q a \<le> append_rank p a + 2"
  by (cases a) auto

lemma set_append_work:
  assumes "i < length (appends s)" and "unexchanged a \<Longrightarrow> unexchanged (appends s ! i)"
    and "append_rank (last_task s) a < append_rank (last_task s) (appends s ! i)"
  shows "append_work (set_append i a s) < append_work s" and "task_work (set_append i a s) = task_work s"
proof -
  have "length (filter unexchanged ((appends s)[i := a])) \<le> length (filter unexchanged (appends s))"
    using filter_update_same [of i "appends s" unexchanged a] filter_update_length_drop [of i "appends s" unexchanged a] assms(1,2)
    by (cases "unexchanged a"; cases "unexchanged (appends s ! i)") auto
  with sum_update_less [of i "appends s" "append_rank (last_task s)" a] assms(1,3)
  show "append_work (set_append i a s) < append_work s"
    by (simp add: append_work_def set_append_def add_le_less_mono)
qed (simp add: task_work_def set_append_def)

lemma append_step_work:
  assumes "append_step i s = Some t"
  shows "chain_work t < chain_work s"
proof -
  from assms have i: "i < length (appends s)" by (auto simp: append_step_def split: if_splits)
  have plain: "chain_work (set_append i a s) < chain_work s"
    if "unexchanged a \<Longrightarrow> unexchanged (appends s ! i)"
      "append_rank (last_task s) a < append_rank (last_task s) (appends s ! i)" for a
    using set_append_work [OF i that] by (simp add: chain_work_def)
  show ?thesis
  proof (cases "appends s ! i")
    case (Attempting old)
    let ?a = "Prepared old (length (chain_tasks s))"
    from assms i Attempting have "append_work t = append_work (set_append i ?a s)" "task_work t = task_work s + 3"
      by (auto simp: append_step_def Let_def append_work_def set_append_def task_work_def)
    moreover have "append_work (set_append i ?a s) < append_work s"
      using Attempting by (intro set_append_work(1) [OF i]) (simp_all add: unexchanged_def)
    ultimately show ?thesis by (simp add: chain_work_def)
  next
    case (Prepared old new)
    show ?thesis
    proof (cases "last_task s = old")
      case True
      from assms i Prepared True have t: "t = set_append i (Exchanged old) (s\<lparr>last_task := Some new, chain_order := chain_order s @ [new]\<rparr>)"
        by (simp add: append_step_def)
      have "Suc (length (filter unexchanged (appends t))) = length (filter unexchanged (appends s))"
        using filter_update_length_drop [of i "appends s" unexchanged "Exchanged old"] i Prepared
        by (simp add: t set_append_def unexchanged_def)
      moreover have "sum_list (map (append_rank (last_task t)) (appends t)) <
          sum_list (map (append_rank (last_task s)) (appends s)) + 2 * length (appends s)"
        using sum_raised [OF i, of "append_rank (Some new)" "append_rank (last_task s)" 2 "Exchanged old", OF append_rank_raised] Prepared True
        by (simp add: t set_append_def)
      moreover have "length (appends t) = length (appends s)" by (simp add: t set_append_def)
      ultimately have "append_work t < append_work s"
        unfolding append_work_def by (simp flip: \<open>Suc _ = length _\<close> add: algebra_simps)
      then show ?thesis by (simp add: chain_work_def t task_work_def set_append_def)
    next
      case False
      with assms i Prepared plain [of "Attempting (last_task s)"] show ?thesis
        by (auto simp: append_step_def unexchanged_def)
    qed
  next
    case Starting
    with assms i plain [of Refused] plain [of Admitted] show ?thesis by (auto simp: append_step_def unexchanged_def)
  next
    case Admitted
    with assms i plain [of "Attempting (last_task s)"] show ?thesis by (auto simp: append_step_def unexchanged_def)
  next
    case (Exchanged old)
    with assms i plain [of "Appended old"] show ?thesis by (auto simp: append_step_def unexchanged_def)
  qed (use assms i in \<open>simp_all add: append_step_def\<close>)
qed

lemma set_phase_work:
  assumes "n < length (chain_tasks s)" and "task_rank p < task_rank (phase_of s n)"
  shows "task_work (set_task_phase n p s) < task_work s"
  using sum_update_less [of n "chain_tasks s" "\<lambda>t. task_rank (task_phase t)" "(chain_tasks s ! n)\<lparr>task_phase := p\<rparr>"] assms
  by (simp add: task_work_def set_task_phase_def)

lemma take_result_work: "task_work (take_result n s) = task_work s"
proof -
  have "map (\<lambda>t. task_rank (task_phase t)) (chain_tasks (take_result n s)) = map (\<lambda>t. task_rank (task_phase t)) (chain_tasks s)"
    by (intro nth_equalityI) simp_all
  then show ?thesis by (simp only: task_work_def)
qed

lemma append_work_same:
  "appends t = appends s \<Longrightarrow> last_task t = last_task s \<Longrightarrow> append_work t = append_work s"
  by (simp add: append_work_def)

lemma phase_work_less:
  assumes "n < length (chain_tasks s)" and "appends t = appends s" "last_task t = last_task s"
    and "task_work t = task_work (set_task_phase n p u)" and "length (chain_tasks u) = length (chain_tasks s)"
    and "phase_of u n = phase_of s n" and "task_work u = task_work s" and "task_rank p < task_rank (phase_of s n)"
  shows "chain_work t < chain_work s"
  using set_phase_work [of n u p] assms append_work_same [of t s] by (simp add: chain_work_def)

lemma task_step_work:
  assumes "task_step callable n s = Some (Inr t)"
  shows "chain_work t < chain_work s"
proof -
  from assms have n: "n < length (chain_tasks s)" by (auto simp: task_step_def split: if_splits)
  have call: "task_work (call_task n v) = task_work (set_task_phase n Executing v)" for v :: "'a chain"
    by (simp add: task_work_def)
  show ?thesis
  proof (cases "phase_of s n")
    case Waiting_signal
    with assms n obtain p where "t = set_task_phase n p s" "p = Skipped \<or> p = Waiting_predecessor"
      by (auto simp: task_step_def Let_def split: append_phase.splits if_splits)
    with Waiting_signal show ?thesis by (intro phase_work_less [OF n, where u = s]) auto
  next
    case Executing
    with assms n have "t = set_task_phase n (Finished (callable (appender (chain_tasks s ! n)))) s"
      by (simp add: task_step_def Let_def)
    with Executing show ?thesis by (intro phase_work_less [OF n, where u = s]) auto
  next
    case Waiting_predecessor
    with assms n consider "t = call_task n s" | q where "t = call_task n (take_result q s)"
      | q e where "t = set_task_phase n (Finished (Some e)) (take_result q s)"
      by (auto simp: task_step_def Let_def split: option.splits task_phase.splits if_splits)
    then show ?thesis
    proof cases
      case 1
      with Waiting_predecessor show ?thesis by (intro phase_work_less [OF n, where u = s and p = Executing]) (simp_all add: call)
    next
      case (2 q)
      with Waiting_predecessor show ?thesis
        by (intro phase_work_less [OF n, where u = "take_result q s" and p = Executing]) (simp_all add: call take_result_work)
    next
      case (3 q e)
      with Waiting_predecessor show ?thesis
        by (intro phase_work_less [OF n, where u = "take_result q s" and p = "Finished (Some e)"]) (simp_all add: take_result_work)
    qed
  qed (use assms n in \<open>simp_all add: task_step_def\<close>)
qed

fun is_progress :: "chain_event \<Rightarrow> bool" where
  "is_progress (Append_at i) = True"
| "is_progress (Task_at n) = True"
| "is_progress ev = False"

lemma run_chain_work:
  "run_chain callable evs s = Some t \<Longrightarrow> list_all is_progress evs \<Longrightarrow> length evs + chain_work t \<le> chain_work s"
proof (induction evs arbitrary: s)
  case (Cons ev evs)
  then obtain u where u: "chain_event_run callable ev s = Some (Inr u)" "run_chain callable evs u = Some t"
    by (auto split: option.splits sum.splits)
  with Cons.prems(2) have "chain_work u < chain_work s"
    by (cases ev) (auto intro: append_step_work task_step_work)
  with Cons.IH [OF u(2)] Cons.prems(2) show ?case by simp
qed simp

text \<open>When nothing can go on, every append is through and every task has ended.\<close>

lemma settled_order:
  assumes ok: "chain_ok s" and appends: "\<And>i. append_step i s = None" and tasks: "\<And>n. task_step callable n s = None"
    and "k < order_length s"
  shows "\<exists>r. phase_of s (chain_order s ! k) = Finished r"
  using assms(4)
proof (induction k rule: less_induct)
  case (less k)
  let ?n = "chain_order s ! k"
  have order: "order_ok s" using ok by (simp add: chain_ok_def)
  from less.prems order_member [OF order] have n: "?n < length (chain_tasks s)" by simp
  from n ok have "phase_ok s ?n (phase_of s ?n)" by (simp add: chain_ok_def)
  moreover have "phase_of s ?n \<noteq> Executing" using tasks [of ?n] n by (auto simp: task_step_def Let_def)
  moreover have "phase_of s ?n \<noteq> Waiting_signal"
  proof
    assume waiting: "phase_of s ?n = Waiting_signal"
    let ?i = "appender (chain_tasks s ! ?n)"
    have i: "?i < length (appends s)" using ok n by (simp add: chain_ok_def appends_ok_def)
    have "?n \<in> attempts s ?i" using n by (simp add: attempts_def)
    then show False
      using chain_ok_append [OF ok i] appends [of ?i] i tasks [of ?n] n waiting
      by (cases "appends s ! ?i") (auto simp: append_step_def task_step_def Let_def split: if_splits)
  qed
  moreover have "phase_of s ?n \<noteq> Waiting_predecessor"
  proof
    assume waiting: "phase_of s ?n = Waiting_predecessor"
    have "predecessor (chain_tasks s ! ?n) = chain_tip (chain_order s) k" using order less.prems by (simp add: order_ok_def)
    then show False
      using tasks [of ?n] n waiting less.IH [of "k - 1"] less.prems
      by (cases k) (auto simp: task_step_def Let_def chain_tip_def split: option.splits if_splits)
  qed
  ultimately show ?case using less.prems by (cases "phase_of s ?n") auto
qed

definition exceptions_thrown :: "(nat \<Rightarrow> 'e option) \<Rightarrow> 'e chain \<Rightarrow> bool" where
  "exceptions_thrown callable s \<longleftrightarrow>
     (\<forall>n<length (chain_tasks s). \<forall>e. phase_of s n = Finished (Some e) \<longrightarrow> (\<exists>i. callable i = Some e))"

lemma exceptions_thrown_step:
  assumes "chain_step callable s t" and ok: "chain_ok s" and s: "exceptions_thrown callable s"
  shows "exceptions_thrown callable t"
  using assms(1)
proof (cases rule: chain_step.cases)
  case (chain_event ev)
  show ?thesis
  proof (cases ev)
    case (Append_at i)
    with chain_event s show ?thesis
      by (auto simp: exceptions_thrown_def append_step_def set_append_def Let_def nth_append less_Suc_eq
          split: if_splits append_phase.splits)
  next
    case (Task_at n)
    with chain_event have step: "task_step callable n s = Some (Inr t)" by simp
    have "p < length (chain_tasks s)" if "n < length (chain_tasks s)" "phase_of s n = Waiting_predecessor"
      "predecessor (chain_tasks s ! n) = Some p" for p
      using predecessor_not_taken(1) [OF ok that] .
    with step s show ?thesis
      by (auto simp: exceptions_thrown_def task_step_def Let_def
          split: if_splits task_phase.splits append_phase.splits option.splits)
  next
    case (Wait_at j)
    with chain_event s show ?thesis
      by (auto simp: exceptions_thrown_def chain_wait_step_def split: if_splits wait_phase.splits task_phase.splits)
  qed (use chain_event s in \<open>auto simp: exceptions_thrown_def\<close>)
qed

lemma exceptions_thrown_reachable:
  "(chain_step callable)\<^sup>*\<^sup>* empty_chain s \<Longrightarrow> exceptions_thrown callable s"
proof (induction rule: rtranclp_induct)
  case (step s t)
  with exceptions_thrown_step chain_ok_reachable show ?case by blast
qed (simp add: exceptions_thrown_def empty_chain_def)

lemma settled_called:
  assumes reach: "(chain_step callable)\<^sup>*\<^sup>* empty_chain t" and none: "\<forall>i. callable i = None"
    and finished: "\<forall>k<order_length t. \<exists>r. phase_of t (chain_order t ! k) = Finished r"
  shows "executed t = chain_order t" and "k < order_length t \<Longrightarrow> phase_of t (chain_order t ! k) = Finished None"
proof -
  have ok: "chain_ok t" by (rule chain_ok_reachable [OF reach])
  then obtain m where m: "progress_ok t m" and order: "order_ok t" by (auto simp: chain_ok_def)
  have ended: "phase_of t (chain_order t ! k) = Finished None" if "k < order_length t" for k
    using exceptions_thrown_reachable [OF reach] order_member [OF order that] finished that none
    unfolding exceptions_thrown_def by (metis option.exhaust option.distinct(1))
  then have "m = order_length t"
    using progress_facts(1) [OF m] progress_facts(3) [OF m, of m] by (cases "m < order_length t") auto
  with progress_facts(2) [OF m] show "executed t = chain_order t" by simp
  show "k < order_length t \<Longrightarrow> phase_of t (chain_order t ! k) = Finished None" by (rule ended)
qed



section \<open>Appending for a future\<close>

text \<open>
  The overload with \<^verbatim>\<open>use_future_tag\<close> appends a packaged task, whose call never throws: what the
  callable throws is in the future. A task that is dropped uncalled, because its append is refused or
  its predecessor threw, breaks its promise.
\<close>

datatype 'e task_future = Pending | Ready "'e option" | Broken_promise

definition append_for_future :: "'e chain \<Rightarrow> nat \<times> 'e chain" where
  "append_for_future s = (length (appends s), s\<lparr>appends := appends s @ [Starting]\<rparr>)"

definition packaged_callable :: "(nat \<Rightarrow> bool) \<Rightarrow> (nat \<Rightarrow> 'e option) \<Rightarrow> nat \<Rightarrow> 'e option" where
  "packaged_callable packaged callable i = (if packaged i then None else callable i)"

fun has_ended :: "'e task_phase \<Rightarrow> bool" where
  "has_ended (Finished r) = True"
| "has_ended p = False"

definition future_of :: "(nat \<Rightarrow> 'e option) \<Rightarrow> nat \<Rightarrow> 'e chain \<Rightarrow> 'e task_future" where
  "future_of callable i s =
     (if appends s ! i = Refused then Broken_promise
      else let ended = filter (\<lambda>n. appender (chain_tasks s ! n) = i \<and> has_ended (phase_of s n)) [0..<length (chain_tasks s)]
           in if ended = [] then Pending
              else if list_ex (\<lambda>n. n \<in> set (executed s)) ended then Ready (callable i)
              else Broken_promise)"

text \<open>When all appends are for futures and nothing can go on, each future has its own callable's result.\<close>

lemma futures_settled:
  assumes reach: "(chain_step (packaged_callable (\<lambda>i. True) callable))\<^sup>*\<^sup>* empty_chain t"
    and "\<forall>i. append_step i t = None" "\<forall>n. task_step (packaged_callable (\<lambda>i. True) callable) n t = None"
    and i: "i < length (appends t)"
  shows "future_of callable i t = (if appends t ! i = Refused then Broken_promise else Ready (callable i))"
proof -
  have ok: "chain_ok t" by (rule chain_ok_reachable [OF reach])
  have finished: "\<forall>k<order_length t. \<exists>r. phase_of t (chain_order t ! k) = Finished r"
    using settled_order [OF ok] assms(2,3) by blast
  have none: "\<forall>i. packaged_callable (\<lambda>i. True) callable i = None" by (simp add: packaged_callable_def)
  note called = settled_called [OF reach none finished]
  show ?thesis
  proof (cases "appends t ! i = Refused")
    case False
    with assms(2) [rule_format, of i] i obtain old where "appends t ! i = Appended old"
      by (cases "appends t ! i") (auto simp: append_step_def Let_def split: if_splits)
    with chain_ok_append [OF ok i] obtain a where a: "a < order_length t" "chain_order t ! a \<in> attempts t i"
      by (auto simp: attempt_won_def)
    let ?n = "chain_order t ! a"
    have "?n \<in> set (executed t)" "phase_of t ?n = Finished None" using called a(1) by simp_all
    with a have n: "?n \<in> set (filter (\<lambda>n. appender (chain_tasks t ! n) = i \<and> has_ended (phase_of t n)) [0..<length (chain_tasks t)])"
      by (simp add: attempts_def)
    with False \<open>?n \<in> set (executed t)\<close> show ?thesis
      unfolding future_of_def Let_def list_ex_iff by (auto simp: filter_empty_conv)
  qed (simp add: future_of_def)
qed

text \<open>A future behind a callable that throws, and is not packaged, is broken.\<close>

lemma future_behind_exception:
  "case run_chain (packaged_callable (\<lambda>i. i = 1) (\<lambda>i. Some ''e''))
      ([Call_append, Call_append] @ replicate 5 (Append_at 0) @ replicate 5 (Append_at 1) @
       replicate 3 (Task_at 0) @ replicate 2 (Task_at 1)) empty_chain of
     None \<Rightarrow> False
   | Some s \<Rightarrow> future_of (\<lambda>i. Some ''e'') 1 s = Broken_promise \<and> executed s = [0]"
  by code_simp

section \<open>What waiting does not promise\<close>

text \<open>
  A callable can be called after \<open>abort_and_wait\<close> has returned: its append had read the flag before.
\<close>

lemma aborted_chain_calls:
  "case run_chain (\<lambda>i. None :: string option) [Call_append, Append_at 0, Call_abort, Wait_at 0, Wait_at 0] empty_chain of
     None \<Rightarrow> False
   | Some s \<Rightarrow> waits s = [Returned] \<and> canceled s \<and> executed s = [] \<and>
       (case run_chain (\<lambda>i. None) [Append_at 0, Append_at 0, Append_at 0, Append_at 0, Task_at 0, Task_at 0] s of
          None \<Rightarrow> False | Some t \<Rightarrow> executed t = [0])"
  by code_simp

text \<open>
  A wait for the last task meets a future that has been asked, when another task is appended behind it
  and reads its result first.
\<close>

lemma wait_on_taken_future:
  "case run_chain (\<lambda>i. None :: string option)
      [Call_append, Append_at 0, Append_at 0, Append_at 0, Append_at 0, Append_at 0, Task_at 0, Task_at 0, Task_at 0,
       Call_wait, Wait_at 0, Call_append, Append_at 1, Append_at 1, Append_at 1, Append_at 1, Append_at 1, Task_at 1, Task_at 1]
      empty_chain of
     None \<Rightarrow> False | Some s \<Rightarrow> chain_wait_step 0 s = Some (Inl Undefined_behaviour)"
  by code_simp

text \<open>What it does promise: the tasks up to the one waited for have ended.\<close>

lemma wait_returns_late:
  assumes ok: "chain_ok s" and "waits s ! j = Waiting_for n" and "chain_wait_step j s = Some (Inr t)"
    and n: "k < order_length s" "chain_order s ! k = n" and "i \<le> k"
  shows "\<exists>r. phase_of s (chain_order s ! i) = Finished r"
proof -
  from assms(2,3) n(2) obtain r where "phase_of s (chain_order s ! k) = Finished r"
    by (auto simp: chain_wait_step_def split: if_splits task_phase.splits)
  moreover from ok obtain m where m: "progress_ok s m" by (auto simp: chain_ok_def)
  ultimately show ?thesis using assms(6) n(1)
  proof (induction k arbitrary: r)
    case (Suc k)
    then show ?case
    proof (cases "i = Suc k")
      case False
      have "\<exists>r. phase_of s (chain_order s ! k) = Finished r"
      proof (cases r)
        case None
        with Suc.prems progress_before [of m "Suc k" k] progress_facts(3) [OF m, of "Suc k"] progress_facts(3) [OF m, of k]
        show ?thesis by auto
      next
        case (Some e)
        show ?thesis
        proof (cases "m \<le> Suc k")
          case True
          with Some Suc.prems m show ?thesis unfolding progress_ok_def by blast
        next
          case False
          with Some Suc.prems progress_facts(3) [OF m, of "Suc k"] progress_facts(3) [OF m, of k] have "m = Suc (Suc k)"
            by simp
          with progress_facts(3) [OF m, of k] Suc.prems show ?thesis
            by (cases "(m, k, phase_of s (chain_order s ! k))" rule: progress_at.cases) auto
        qed
      qed
      with Suc.IH Suc.prems False show ?thesis by (metis Suc_lessD le_SucE)
    qed (use Suc.prems in auto)
  qed auto
qed

end
