(* ===== verification/Legacy_Barrier.thy ===== *)
theory Legacy_Barrier
  imports Barrier
begin

text \<open>
  The legacy barrier of \<^verbatim>\<open>src/core/barrier.hpp\<close> (namespace \<open>v2\<close>, compiled under \<^verbatim>\<open>CORE_USE_LEGACY\<close>), whose
  members do by themselves what those of \<open>v3\<close> share. Every run of it is one of the barrier in use, so
  that what \<open>Barrier\<close> shows holds for it too.
\<close>

text \<open>\<open>arrive_and_wait\<close> of the barrier with a callable, access by access.\<close>

definition legacy_arrive_step :: "nat \<Rightarrow> barrier \<Rightarrow> barrier option" where
  "legacy_arrive_step i b =
     (if length (threads b) \<le> i then None
      else let at = (\<lambda>place b1. Some (b1\<lparr>threads := (threads b1)[i := place]\<rparr>))
           in case threads b ! i of
                Outside \<Rightarrow> if mutex b = None then at Locked (b\<lparr>mutex := Some i\<rparr>) else None
              | Locked \<Rightarrow>
                  at (Counted (count b)) (b\<lparr>count := count b - 1, arrived := (arrived b)[i := arrived b ! i + 1]\<rparr>)
              | Counted prev \<Rightarrow>
                  if prev > 1 then at (Asleep (generation b)) (b\<lparr>mutex := None\<rparr>)
                  else at Turned (b\<lparr>generation := generation b + 1\<rparr>)
              | Woken gen \<Rightarrow>
                  if mutex b \<noteq> None then None
                  else if gen \<noteq> generation b then at Outside (b\<lparr>passed := (passed b)[i := passed b ! i + 1]\<rparr>)
                  else at (Asleep gen) b
              | Turned \<Rightarrow> at Exchanged (b\<lparr>threshold := threshold b - dropped b, dropped := 0\<rparr>)
              | Exchanged \<Rightarrow> at Stored (b\<lparr>count := threshold b\<rparr>)
              | Stored \<Rightarrow> at Completed (b\<lparr>completions := completions b + 1\<rparr>)
              | Completed \<Rightarrow> at Unlocked (b\<lparr>mutex := None\<rparr>)
              | Unlocked \<Rightarrow>
                  at Outside (b\<lparr>threads := map wake (threads b), passed := (passed b)[i := passed b ! i + 1]\<rparr>)
              | _ \<Rightarrow> None)"

text \<open>That of the barrier without a callable unlocks after the count is stored.\<close>

definition legacy_void_arrive_step :: "nat \<Rightarrow> barrier \<Rightarrow> barrier option" where
  "legacy_void_arrive_step i b =
     (if length (threads b) \<le> i then None
      else let at = (\<lambda>place b1. Some (b1\<lparr>threads := (threads b1)[i := place]\<rparr>))
           in case threads b ! i of
                Outside \<Rightarrow> if mutex b = None then at Locked (b\<lparr>mutex := Some i\<rparr>) else None
              | Locked \<Rightarrow>
                  at (Counted (count b)) (b\<lparr>count := count b - 1, arrived := (arrived b)[i := arrived b ! i + 1]\<rparr>)
              | Counted prev \<Rightarrow>
                  if prev > 1 then at (Asleep (generation b)) (b\<lparr>mutex := None\<rparr>)
                  else at Turned (b\<lparr>generation := generation b + 1\<rparr>)
              | Woken gen \<Rightarrow>
                  if mutex b \<noteq> None then None
                  else if gen \<noteq> generation b then at Outside (b\<lparr>passed := (passed b)[i := passed b ! i + 1]\<rparr>)
                  else at (Asleep gen) b
              | Turned \<Rightarrow> at Exchanged (b\<lparr>threshold := threshold b - dropped b, dropped := 0\<rparr>)
              | Exchanged \<Rightarrow> at Stored (b\<lparr>count := threshold b\<rparr>)
              | Stored \<Rightarrow> at Unlocked (b\<lparr>mutex := None\<rparr>)
              | Unlocked \<Rightarrow>
                  at Outside (b\<lparr>threads := map wake (threads b), passed := (passed b)[i := passed b ! i + 1]\<rparr>)
              | _ \<Rightarrow> None)"

text \<open>\<open>arrive_and_drop\<close>, the same in both.\<close>

definition legacy_drop_step :: "nat \<Rightarrow> barrier \<Rightarrow> barrier option" where
  "legacy_drop_step i b =
     (if length (threads b) \<le> i then None
      else case threads b ! i of
             Outside \<Rightarrow> Some (b\<lparr>dropped := dropped b + 1, threads := (threads b)[i := Dropping]\<rparr>)
           | Dropping \<Rightarrow> Some (b\<lparr>count := count b - 1, threads := (threads b)[i := Dropped_out]\<rparr>)
           | _ \<Rightarrow> None)"

fun legacy_step :: "bool \<Rightarrow> barrier_event \<Rightarrow> barrier \<Rightarrow> barrier option" where
  "legacy_step callable (Arrive i) b = (if callable then legacy_arrive_step i b else legacy_void_arrive_step i b)"
| "legacy_step callable (Drop_out i) b = legacy_drop_step i b"
| "legacy_step callable (Spurious i) b = spurious_step i b"

fun legacy_run :: "bool \<Rightarrow> barrier_event list \<Rightarrow> barrier \<Rightarrow> barrier option" where
  "legacy_run callable [] b = Some b"
| "legacy_run callable (e # es) b =
     (case legacy_step callable e b of None \<Rightarrow> None | Some b1 \<Rightarrow> legacy_run callable es b1)"

section \<open>The same barrier\<close>

lemmas barrier_step_defs =
  arrive_step_def lock_step_def move_thread_def count_down_step_def wait_step_def generation_step_def
  exchange_step_def store_count_step_def complete_step_def unlock_step_def retest_step_def leave_def notify_step_def
  drop_step_def

lemma legacy_arrive_same: "legacy_arrive_step i b = arrive_step True i b"
  by (cases "threads b ! i") (simp_all add: legacy_arrive_step_def barrier_step_defs)

lemma legacy_drop_same: "legacy_drop_step i b = drop_step i b"
  by (cases "threads b ! i") (simp_all add: legacy_drop_step_def barrier_step_defs)

lemma legacy_void_arrive_same:
  "threads b ! i \<noteq> Stored \<Longrightarrow> threads b ! i \<noteq> Completed \<Longrightarrow> legacy_void_arrive_step i b = arrive_step False i b"
  by (cases "threads b ! i") (simp_all add: legacy_void_arrive_step_def barrier_step_defs)

text \<open>No thread of it is where the callable has been called.\<close>

lemma wake_completed [simp]: "wake c = Completed \<longleftrightarrow> c = Completed"
  by (cases c) (simp_all add: wake_def)

lemma legacy_void_uncompleted_step:
  assumes "legacy_step False e b = Some b1" and "Completed \<notin> set (threads b)"
  shows "Completed \<notin> set (threads b1)"
proof -
  have update: "Completed \<in> set (xs[i := c]) \<Longrightarrow> c \<noteq> Completed \<Longrightarrow> Completed \<in> set xs" for xs :: "thread_at list" and i c
    using set_update_subset_insert [of xs i c] by auto
  have "Completed \<notin> wake ` set (threads b)" using assms(2) by (auto dest: wake_completed [THEN iffD1, OF sym])
  with assms show ?thesis
    by (cases e) (auto simp: legacy_void_arrive_step_def legacy_drop_step_def spurious_step_def move_thread_def Let_def
        dest!: update split: if_splits thread_at.splits)
qed

lemma legacy_void_uncompleted:
  "legacy_run False es b = Some b1 \<Longrightarrow> Completed \<notin> set (threads b) \<Longrightarrow> Completed \<notin> set (threads b1)"
  by (induction es arbitrary: b) (auto split: option.splits dest: legacy_void_uncompleted_step)

text \<open>The barrier in use takes the step that would call the callable, and does nothing there.\<close>

lemma legacy_void_unlocks:
  assumes "threads b ! i = Stored"
  shows "legacy_void_arrive_step i b =
    (case arrive_step False i b of None \<Rightarrow> None | Some b1 \<Rightarrow> arrive_step False i b1)"
  using assms by (auto simp: legacy_void_arrive_step_def barrier_step_defs)

lemma barrier_run_append:
  "barrier_run callable (es @ fs) b = (case barrier_run callable es b of None \<Rightarrow> None | Some b1 \<Rightarrow> barrier_run callable fs b1)"
  by (induction es arbitrary: b) (auto split: option.splits)

lemma legacy_step_run:
  assumes "legacy_step callable e b = Some b1"
  shows "\<exists>es. barrier_run callable es b = Some b1 \<and> (no_drop e \<longrightarrow> list_all no_drop es)"
proof -
  have single: ?thesis if "barrier_step callable e b = Some b1"
    using that by (intro exI [of _ "[e]"]) simp
  show ?thesis
  proof (cases e)
    case (Arrive i)
    show ?thesis
    proof (cases "callable \<or> threads b ! i \<noteq> Stored")
      case True
      with assms Arrive have "barrier_step callable e b = Some b1"
        by (cases callable; cases "threads b ! i = Completed")
          (auto simp: legacy_arrive_same legacy_void_arrive_same, simp add: legacy_void_arrive_step_def split: if_splits)
      then show ?thesis by (rule single)
    next
      case False
      with assms Arrive obtain b0 where "arrive_step False i b = Some b0" "arrive_step False i b0 = Some b1"
        by (auto simp: legacy_void_unlocks split: option.splits)
      with False Arrive show ?thesis by (intro exI [of _ "[Arrive i, Arrive i]"]) simp
    qed
  qed (use assms single in \<open>simp_all add: legacy_drop_same\<close>)
qed

text \<open>Every run of the legacy barrier is a run of the barrier in use to the same state, without drops if it has none.\<close>

theorem legacy_runs_alike:
  assumes "legacy_run callable es b = Some b1"
  shows "\<exists>fs. barrier_run callable fs b = Some b1 \<and> (list_all no_drop es \<longrightarrow> list_all no_drop fs)"
  using assms
proof (induction es arbitrary: b)
  case Nil
  then show ?case by (intro exI [of _ "[]"]) simp
next
  case (Cons e es)
  then obtain b0 where b0: "legacy_step callable e b = Some b0" and run: "legacy_run callable es b0 = Some b1"
    by (auto split: option.splits)
  obtain fs gs where "barrier_run callable fs b = Some b0" "no_drop e \<longrightarrow> list_all no_drop fs"
    and "barrier_run callable gs b0 = Some b1" "list_all no_drop es \<longrightarrow> list_all no_drop gs"
    using legacy_step_run [OF b0] Cons.IH [OF run] by blast
  then show ?case by (intro exI [of _ "fs @ gs"]) (simp add: barrier_run_append)
qed

lemma legacy_runs_alike_example:
  "case legacy_run False [Arrive 0, Arrive 0, Arrive 0, Arrive 0, Arrive 0, Arrive 0, Arrive 0] (make_barrier 1 1) of
     None \<Rightarrow> False | Some b \<Rightarrow> passed b = [1] \<and> generation b = 1"
  by code_simp

text \<open>So it is never stuck either, unless threads drop out.\<close>

lemma legacy_never_stuck:
  assumes run: "legacy_run callable es (make_barrier (int n) n) = Some b" and es: "list_all no_drop es" and n: "0 < n"
  shows "\<exists>i b1. legacy_step callable (Arrive i) b = Some b1"
proof -
  obtain fs where fs: "barrier_run callable fs (make_barrier (int n) n) = Some b" "list_all no_drop fs"
    using legacy_runs_alike [OF run] es by blast
  obtain i b1 where i: "arrive_step callable i b = Some b1"
    using barrier_never_stuck [OF fs n] by blast
  have "i < length (threads b)" using i by (auto simp: arrive_step_def split: if_splits)
  moreover have "\<not> callable \<Longrightarrow> Completed \<notin> set (threads b)"
    using run by (auto dest!: legacy_void_uncompleted simp: make_barrier_def)
  ultimately have uncompleted: "\<not> callable \<Longrightarrow> threads b ! i \<noteq> Completed" by (metis nth_mem)
  have "legacy_step callable (Arrive i) b \<noteq> None"
  proof (cases "callable \<or> threads b ! i \<noteq> Stored")
    case True
    with i uncompleted show ?thesis by (cases callable) (simp_all add: legacy_arrive_same legacy_void_arrive_same)
  next
    case False
    then show ?thesis using i by (auto simp: legacy_void_arrive_step_def arrive_step_def split: if_splits)
  qed
  then show ?thesis by blast
qed

end
