(* ===== verification/Engine_Interface.thy ===== *)
theory Engine_Interface
  imports Player Graphic
begin

text \<open>
  How the engine reaches the plugin: \<^verbatim>\<open>src/gallery/unity\<close>. Interfaces are found by 128-bit identifiers,
  kept as two 64-bit words, and texture updates come as a number and a struct, which
  \<^verbatim>\<open>on_texture_update_event\<close> of \<^verbatim>\<open>src/gallery/plugin.cpp\<close> casts to the enumerations of
  \<^verbatim>\<open>IUnityRenderingExtensions.h\<close>. The functions the engine hands over are parameters.
\<close>

section \<open>Interface identifiers\<close>

datatype unity_guid = Guid (guid_high: "64 word") (guid_low: "64 word")

definition guid_equals :: "unity_guid \<Rightarrow> unity_guid \<Rightarrow> bool" where
  "guid_equals this other \<longleftrightarrow> guid_high this = guid_high other \<and> guid_low this = guid_low other"

definition guid_less_than :: "unity_guid \<Rightarrow> unity_guid \<Rightarrow> bool" where
  "guid_less_than this other \<longleftrightarrow>
     guid_high this < guid_high other \<or> (guid_high this = guid_high other \<and> guid_low this < guid_low other)"

definition guid_greater :: "unity_guid \<Rightarrow> unity_guid \<Rightarrow> bool" where
  "guid_greater left right \<longleftrightarrow> guid_less_than right left"

definition guid_differs :: "unity_guid \<Rightarrow> unity_guid \<Rightarrow> bool" where
  "guid_differs left right \<longleftrightarrow> \<not> guid_equals left right"

definition guid_at_least :: "unity_guid \<Rightarrow> unity_guid \<Rightarrow> bool" where
  "guid_at_least left right \<longleftrightarrow> \<not> guid_less_than left right"

definition guid_at_most :: "unity_guid \<Rightarrow> unity_guid \<Rightarrow> bool" where
  "guid_at_most left right \<longleftrightarrow> \<not> guid_greater left right"

text \<open>The identifier as one number.\<close>

definition guid_number :: "unity_guid \<Rightarrow> nat" where
  "guid_number g = unat (guid_high g) * 2 ^ 64 + unat (guid_low g)"

lemma guid_equals_iff [simp]: "guid_equals a b \<longleftrightarrow> a = b"
  by (cases a; cases b) (simp add: guid_equals_def)

lemma two_digit_less:
  assumes "b < n" and "d < n"
  shows "(a::nat) * n + b < c * n + d \<longleftrightarrow> a < c \<or> (a = c \<and> b < d)"
proof (cases a c rule: linorder_cases)
  case less
  then have "Suc a * n \<le> c * n" by (intro mult_right_mono) auto
  with less assms show ?thesis by simp
next
  case greater
  then have "Suc c * n \<le> a * n" by (intro mult_right_mono) auto
  with greater assms show ?thesis by simp
qed simp

lemma guid_less_number: "guid_less_than a b \<longleftrightarrow> guid_number a < guid_number b"
proof -
  have "unat (guid_low g) < 2 ^ 64" for g using unsigned_less [of "guid_low g"] by simp
  then show ?thesis
    using two_digit_less [of "unat (guid_low a)" "2 ^ 64" "unat (guid_low b)"]
    by (simp add: guid_less_than_def guid_number_def word_less_nat_alt word_unat_eq_iff)
qed

lemma guid_number_inj: "guid_number a = guid_number b \<longleftrightarrow> a = b"
proof
  assume "guid_number a = guid_number b"
  then have "\<not> guid_less_than a b" "\<not> guid_less_than b a" by (simp_all add: guid_less_number)
  then show "a = b" by (cases a; cases b) (auto simp: guid_less_than_def)
qed simp

instantiation unity_guid :: linorder
begin

definition less_unity_guid :: "unity_guid \<Rightarrow> unity_guid \<Rightarrow> bool" where
  "less_unity_guid a b \<longleftrightarrow> guid_less_than a b"

definition less_eq_unity_guid :: "unity_guid \<Rightarrow> unity_guid \<Rightarrow> bool" where
  "less_eq_unity_guid a b \<longleftrightarrow> guid_at_most a b"

instance
  by standard
    (auto simp: less_unity_guid_def less_eq_unity_guid_def guid_at_most_def guid_greater_def guid_less_number guid_number_inj
      not_less intro: order_antisym [THEN guid_number_inj [THEN iffD1]])

end

text \<open>The six operators are those of one linear order, the order of the numbers.\<close>

lemma guid_operators:
  "guid_less_than a b \<longleftrightarrow> a < b" "guid_greater a b \<longleftrightarrow> b < a" "guid_at_most a b \<longleftrightarrow> a \<le> b" "guid_at_least a b \<longleftrightarrow> b \<le> a"
  "guid_differs a b \<longleftrightarrow> a \<noteq> b" "a < b \<longleftrightarrow> guid_number a < guid_number b"
  by (simp_all add: less_unity_guid_def less_eq_unity_guid_def guid_at_most_def guid_greater_def guid_at_least_def
      guid_differs_def guid_less_number)

section \<open>Finding interfaces\<close>

datatype engine_interface = Unity_graphics | Unity_graphics_d3d11

fun unity_interface_guid :: "engine_interface \<Rightarrow> unity_guid" where
  "unity_interface_guid Unity_graphics = Guid 0x7CBA0A9CA4DDB544 0x8C5AD4926EB17B11"
| "unity_interface_guid Unity_graphics_d3d11 = Guid 0xAAB37EF87A87D748 0xBF76967F07EFB177"

text \<open>The functions of the engine; registering changes what it finds.\<close>

record ('e, 'i) unity_interfaces =
  get_interface :: "unity_guid \<Rightarrow> 'e \<Rightarrow> 'i option"
  register_interface :: "unity_guid \<Rightarrow> 'i option \<Rightarrow> 'e \<Rightarrow> 'e"
  get_interface_split :: "64 word \<Rightarrow> 64 word \<Rightarrow> 'e \<Rightarrow> 'i option"
  register_interface_split :: "64 word \<Rightarrow> 64 word \<Rightarrow> 'i option \<Rightarrow> 'e \<Rightarrow> 'e"

definition unity_get :: "('e, 'i) unity_interfaces \<Rightarrow> engine_interface \<Rightarrow> 'e \<Rightarrow> 'i option" where
  "unity_get interfaces ty = get_interface interfaces (unity_interface_guid ty)"

definition unity_register :: "('e, 'i) unity_interfaces \<Rightarrow> engine_interface \<Rightarrow> 'i option \<Rightarrow> 'e \<Rightarrow> 'e" where
  "unity_register interfaces ty = register_interface interfaces (unity_interface_guid ty)"

definition unity_get_split :: "('e, 'i) unity_interfaces \<Rightarrow> engine_interface \<Rightarrow> 'e \<Rightarrow> 'i option" where
  "unity_get_split interfaces ty =
     get_interface_split interfaces (guid_high (unity_interface_guid ty)) (guid_low (unity_interface_guid ty))"

lemma unity_interface_guid_inj: "unity_interface_guid a = unity_interface_guid b \<longleftrightarrow> a = b"
  by (cases a; cases b) simp_all

text \<open>Loading the plugin on the engine's interfaces succeeds exactly when both are there and the device is a D3D11.\<close>

definition plugin_load_on ::
  "('e, 'i) unity_interfaces \<Rightarrow> 'e \<Rightarrow> renderer \<Rightarrow> device \<Rightarrow> engine \<Rightarrow> engine outcome" where
  "plugin_load_on interfaces e current device =
     unity_plugin_load (unity_get interfaces Unity_graphics e \<noteq> None) (unity_get interfaces Unity_graphics_d3d11 e \<noteq> None)
       current device"

lemma plugin_load_succeeds:
  "(\<exists>u1. plugin_load_on interfaces e current device u = Inr u1) \<longleftrightarrow>
   (\<forall>ty. unity_get interfaces ty e \<noteq> None) \<and> current = Renderer_d3d11"
proof -
  have "(\<forall>ty. unity_get interfaces ty e \<noteq> None) \<longleftrightarrow>
      unity_get interfaces Unity_graphics e \<noteq> None \<and> unity_get interfaces Unity_graphics_d3d11 e \<noteq> None"
    by (metis engine_interface.exhaust)
  then show ?thesis
    by (auto simp: plugin_load_on_def unity_plugin_load_def on_graphics_device_event_def assert_that_def Let_def)
qed

section \<open>Rendering events\<close>

text \<open>The enumerators that have a number of their own; the names ending in V1 are aliases.\<close>

datatype rendering_event =
    Set_stereo_target | Set_stereo_eye | Stereo_rendering_done | Before_draw_call | After_draw_call | Custom_grab
  | Custom_blit | Update_texture_begin | Update_texture_end | Update_texture_begin_v2 | Update_texture_end_v2

fun rendering_event_code :: "rendering_event \<Rightarrow> int" where
  "rendering_event_code Set_stereo_target = 0"
| "rendering_event_code Set_stereo_eye = 1"
| "rendering_event_code Stereo_rendering_done = 2"
| "rendering_event_code Before_draw_call = 3"
| "rendering_event_code After_draw_call = 4"
| "rendering_event_code Custom_grab = 5"
| "rendering_event_code Custom_blit = 6"
| "rendering_event_code Update_texture_begin = 7"
| "rendering_event_code Update_texture_end = 8"
| "rendering_event_code Update_texture_begin_v2 = 9"
| "rendering_event_code Update_texture_end_v2 = 10"

lemma rendering_event_code_inj: "rendering_event_code a = rendering_event_code b \<longleftrightarrow> a = b"
  by (cases a; cases b) simp_all

text \<open>The texture formats in the order of the enumeration, which numbers them from zero.\<close>

definition texture_formats :: "string list" where
  "texture_formats =
    [''None'', ''R8_SRGB'', ''R8G8_SRGB'', ''R8G8B8_SRGB'', ''R8G8B8A8_SRGB'', ''R8_UNorm'', ''R8G8_UNorm'', ''R8G8B8_UNorm'',
    ''R8G8B8A8_UNorm'', ''R8_SNorm'', ''R8G8_SNorm'', ''R8G8B8_SNorm'', ''R8G8B8A8_SNorm'', ''R8_UInt'', ''R8G8_UInt'',
    ''R8G8B8_UInt'', ''R8G8B8A8_UInt'', ''R8_SInt'', ''R8G8_SInt'', ''R8G8B8_SInt'', ''R8G8B8A8_SInt'', ''R16_UNorm'',
    ''R16G16_UNorm'', ''R16G16B16_UNorm'', ''R16G16B16A16_UNorm'', ''R16_SNorm'', ''R16G16_SNorm'', ''R16G16B16_SNorm'',
    ''R16G16B16A16_SNorm'', ''R16_UInt'', ''R16G16_UInt'', ''R16G16B16_UInt'', ''R16G16B16A16_UInt'', ''R16_SInt'',
    ''R16G16_SInt'', ''R16G16B16_SInt'', ''R16G16B16A16_SInt'', ''R32_UInt'', ''R32G32_UInt'', ''R32G32B32_UInt'',
    ''R32G32B32A32_UInt'', ''R32_SInt'', ''R32G32_SInt'', ''R32G32B32_SInt'', ''R32G32B32A32_SInt'', ''R16_SFloat'',
    ''R16G16_SFloat'', ''R16G16B16_SFloat'', ''R16G16B16A16_SFloat'', ''R32_SFloat'', ''R32G32_SFloat'', ''R32G32B32_SFloat'',
    ''R32G32B32A32_SFloat'', ''L8_UNorm'', ''A8_UNorm'', ''A16_UNorm'', ''B8G8R8_SRGB'', ''B8G8R8A8_SRGB'', ''B8G8R8_UNorm'',
    ''B8G8R8A8_UNorm'', ''B8G8R8_SNorm'', ''B8G8R8A8_SNorm'', ''B8G8R8_UInt'', ''B8G8R8A8_UInt'', ''B8G8R8_SInt'',
    ''B8G8R8A8_SInt'', ''R4G4B4A4_UNormPack16'', ''B4G4R4A4_UNormPack16'', ''R5G6B5_UNormPack16'', ''B5G6R5_UNormPack16'',
    ''R5G5B5A1_UNormPack16'', ''B5G5R5A1_UNormPack16'', ''A1R5G5B5_UNormPack16'', ''E5B9G9R9_UFloatPack32'',
    ''B10G11R11_UFloatPack32'', ''A2B10G10R10_UNormPack32'', ''A2B10G10R10_UIntPack32'', ''A2B10G10R10_SIntPack32'',
    ''A2R10G10B10_UNormPack32'', ''A2R10G10B10_UIntPack32'', ''A2R10G10B10_SIntPack32'', ''A2R10G10B10_XRSRGBPack32'',
    ''A2R10G10B10_XRUNormPack32'', ''R10G10B10_XRSRGBPack32'', ''R10G10B10_XRUNormPack32'', ''A10R10G10B10_XRSRGBPack32'',
    ''A10R10G10B10_XRUNormPack32'', ''A8R8G8B8_SRGB'', ''A8R8G8B8_UNorm'', ''A32R32G32B32_SFloat'', ''D16_UNorm'',
    ''D24_UNorm'', ''D24_UNorm_S8_UInt'', ''D32_SFloat'', ''D32_SFloat_S8_Uint'', ''S8_Uint'', ''RGBA_DXT1_SRGB'',
    ''RGBA_DXT1_UNorm'', ''RGBA_DXT3_SRGB'', ''RGBA_DXT3_UNorm'', ''RGBA_DXT5_SRGB'', ''RGBA_DXT5_UNorm'', ''R_BC4_UNorm'',
    ''R_BC4_SNorm'', ''RG_BC5_UNorm'', ''RG_BC5_SNorm'', ''RGB_BC6H_UFloat'', ''RGB_BC6H_SFloat'', ''RGBA_BC7_SRGB'',
    ''RGBA_BC7_UNorm'', ''RGB_PVRTC_2Bpp_SRGB'', ''RGB_PVRTC_2Bpp_UNorm'', ''RGB_PVRTC_4Bpp_SRGB'', ''RGB_PVRTC_4Bpp_UNorm'',
    ''RGBA_PVRTC_2Bpp_SRGB'', ''RGBA_PVRTC_2Bpp_UNorm'', ''RGBA_PVRTC_4Bpp_SRGB'', ''RGBA_PVRTC_4Bpp_UNorm'', ''RGB_ETC_UNorm'',
    ''RGB_ETC2_SRGB'', ''RGB_ETC2_UNorm'', ''RGB_A1_ETC2_SRGB'', ''RGB_A1_ETC2_UNorm'', ''RGBA_ETC2_SRGB'', ''RGBA_ETC2_UNorm'',
    ''R_EAC_UNorm'', ''R_EAC_SNorm'', ''RG_EAC_UNorm'', ''RG_EAC_SNorm'', ''RGBA_ASTC4X4_SRGB'', ''RGBA_ASTC4X4_UNorm'',
    ''RGBA_ASTC5X5_SRGB'', ''RGBA_ASTC5X5_UNorm'', ''RGBA_ASTC6X6_SRGB'', ''RGBA_ASTC6X6_UNorm'', ''RGBA_ASTC8X8_SRGB'',
    ''RGBA_ASTC8X8_UNorm'', ''RGBA_ASTC10X10_SRGB'', ''RGBA_ASTC10X10_UNorm'', ''RGBA_ASTC12X12_SRGB'',
    ''RGBA_ASTC12X12_UNorm'', ''YUV2'', ''LDRAuto'', ''HDRAuto'', ''DepthAuto'', ''ShadowAuto'', ''VideoAuto'']"

definition format_code :: "string \<Rightarrow> int" where
  "format_code name = (case position_of (\<lambda>n. n = name) texture_formats of None \<Rightarrow> -1 | Some k \<Rightarrow> int k)"

lemma texture_formats_distinct: "distinct texture_formats"
  by code_simp

lemma a8_unorm_code: "format_code ''A8_UNorm'' = 54"
  by code_simp

section \<open>The texture callback\<close>

text \<open>What the engine hands over; the plugin sets the data.\<close>

record 'd texture_update_params =
  tex_data :: "'d option"
  texture_id :: int
  user_data :: "32 word"
  param_format :: int
  param_width :: "32 word"
  param_height :: "32 word"
  param_bpp :: "32 word"

definition texture_event_of :: "int \<Rightarrow> texture_event" where
  "texture_event_of event_id =
     (if event_id = rendering_event_code Update_texture_begin_v2 then Update_begin
      else if event_id = rendering_event_code Update_texture_end_v2 then Update_end
      else Unknown_event)"

definition texture_update_callback ::
  "('f frame \<Rightarrow> nat \<Rightarrow> 'd) \<Rightarrow> int \<Rightarrow> 'd texture_update_params \<times> 'f player \<Rightarrow>
   ('d texture_update_params \<times> 'f player) outcome" where
  "texture_update_callback plane_data event_id = (\<lambda>(params, p).
     and_then (on_texture_update_event plane_data (texture_event_of event_id) (unat (user_data params))
         (param_format params = format_code ''A8_UNorm'') p) (\<lambda>(data, p1).
       Inr (case data of None \<Rightarrow> params | Some d \<Rightarrow> params\<lparr>tex_data := Some d\<rparr>, p1)))"

text \<open>Nothing of what the engine handed over changes but the data, and they are set at the beginning of an update only.\<close>

lemma callback_params:
  assumes "texture_update_callback plane_data event_id (params, p) = Inr (params1, p1)"
  shows "params1\<lparr>tex_data := tex_data params\<rparr> = params"
    and "event_id \<noteq> rendering_event_code Update_texture_begin_v2 \<Longrightarrow> params1 = params"
proof -
  from assms obtain data where event: "on_texture_update_event plane_data (texture_event_of event_id)
      (unat (user_data params)) (param_format params = format_code ''A8_UNorm'') p = Inr (data, p1)"
    and params1: "params1 = (case data of None \<Rightarrow> params | Some d \<Rightarrow> params\<lparr>tex_data := Some d\<rparr>)"
    by (auto simp: texture_update_callback_def outcome_simps)
  show "params1\<lparr>tex_data := tex_data params\<rparr> = params"
    by (cases data) (simp_all add: params1)
  assume "event_id \<noteq> rendering_event_code Update_texture_begin_v2"
  then have "texture_event_of event_id \<noteq> Update_begin" by (simp add: texture_event_of_def)
  with event have "data = None"
    by (auto simp: on_texture_update_event_def outcome_simps Let_def split: if_splits option.splits texture_event.splits)
  then show "params1 = params" by (simp add: params1)
qed

text \<open>While the stream goes on, every event but the two of the second version fails its assertion; so do the older ones.\<close>

lemma callback_rejects:
  assumes "event_id \<noteq> rendering_event_code Update_texture_begin_v2" "event_id \<noteq> rendering_event_code Update_texture_end_v2"
    and "\<not> stream_ended p" and "unat (user_data params) div 3 < length (stream_cache p)"
    and "stream_cache p ! (unat (user_data params) div 3) = Some k"
  shows "texture_update_callback plane_data event_id (params, p) = Inl Assert_failed"
  using assms
  by (simp add: texture_update_callback_def texture_event_of_def on_texture_update_event_def native_dash_available_def
      stream_available_def Let_def)

end
