(* ===== verification/Texture_Lifetime.thy ===== *)
theory Texture_Lifetime
  imports Graphic
begin

text \<open>
  The lifetime of textures and views: the deleter of \<^verbatim>\<open>src/gallery/graphic.h\<close> and who uses it. The device
  gives each object out with one reference, which the program gives back by releasing the object; the
  references it holds are counted from its calls.
\<close>

section \<open>The deleter\<close>

definition release_object :: "nat option \<Rightarrow> gpu \<Rightarrow> gpu" where
  "release_object object g = (case object of None \<Rightarrow> g | Some t \<Rightarrow> call_gpu (Release_object t) g)"

definition delete_resource :: "shader_resource \<Rightarrow> gpu \<Rightarrow> gpu" where
  "delete_resource r g = release_object (Some (texture r)) (release_object (Some (shader r)) g)"

section \<open>References held\<close>

fun object_change :: "nat \<Rightarrow> gpu_call \<Rightarrow> int" where
  "object_change t (Create_texture u d bytes pitch) = (if u = t then 1 else 0)"
| "object_change t (Create_view u v) = (if u = t then 1 else 0)"
| "object_change t (Release_object u) = (if u = t then -1 else 0)"
| "object_change t c = 0"

fun context_change :: "gpu_call \<Rightarrow> int" where
  "context_change Get_context = 1"
| "context_change Release_context = -1"
| "context_change c = 0"

definition held :: "gpu \<Rightarrow> nat \<Rightarrow> int" where
  "held g t = sum_list (map (object_change t) (gpu_calls g))"

definition contexts_held :: "gpu \<Rightarrow> int" where
  "contexts_held g = sum_list (map context_change (gpu_calls g))"

lemma held_call [simp]:
  "held (call_gpu c g) t = held g t + object_change t c" "contexts_held (call_gpu c g) = contexts_held g + context_change c"
  by (simp_all add: held_def contexts_held_def call_gpu_def)

lemma held_same_calls [simp]:
  "held (g\<lparr>next_object := n, descs := ds\<rparr>) t = held g t" "held (g\<lparr>next_object := n\<rparr>) t = held g t"
  "contexts_held (g\<lparr>next_object := n, descs := ds\<rparr>) = contexts_held g" "contexts_held (g\<lparr>next_object := n\<rparr>) = contexts_held g"
  by (simp_all add: held_def contexts_held_def)

lemma delete_resource_held:
  "held (delete_resource r g) t = held g t - (if t = shader r then 1 else 0) - (if t = texture r then 1 else 0)"
  "contexts_held (delete_resource r g) = contexts_held g"
  by (simp_all add: delete_resource_def release_object_def)

text \<open>Every object given out so far is held once, and nothing else.\<close>

definition all_held :: "gpu \<Rightarrow> bool" where
  "all_held g \<longleftrightarrow> (\<forall>t. held g t = (if t < next_object g then 1 else 0)) \<and> contexts_held g = 0"

text \<open>Makers of objects hold what they make; the interface is that of \<open>Graphic\<close> with this law.\<close>

locale object_holder =
  fixes create :: "int \<Rightarrow> int \<Rightarrow> plane \<Rightarrow> gpu \<Rightarrow> ('r \<times> gpu) outcome"
  assumes holds: "create w h bytes g = Inr (r, g1) \<Longrightarrow> all_held g \<Longrightarrow> all_held g1"
begin

lemma planes_held:
  "make_planes create left_first w h i planes g = Inr (rs, g1) \<Longrightarrow> all_held g \<Longrightarrow> all_held g1"
proof (induction planes arbitrary: i g rs)
  case (Cons bytes planes)
  from Cons.prems(1) obtain w1 h1 i1 r g' rs' where "create w1 h1 bytes g = Inr (r, g')"
    "make_planes create left_first w h i1 planes g' = Inr (rs', g1)"
    by (auto simp: and_then_eq_Inr split: prod.splits)
  with Cons.IH Cons.prems(2) holds show ?case by blast
qed simp

end

lemma texture_created:
  "create_texture dev d bytes pitch g = Inr (u, g1) \<Longrightarrow> u = next_object g \<and> next_object g1 = Suc u \<and>
    contexts_held g1 = contexts_held g \<and> (\<forall>t. held g1 t = held g t + (if t = u then 1 else 0))"
  by (auto simp: create_texture_Inr)

lemma view_created:
  "make_texture_view dev tex g = Inr (u, g1) \<Longrightarrow> u = next_object g \<and> next_object g1 = Suc u \<and>
    contexts_held g1 = contexts_held g \<and> (\<forall>t. held g1 t = held g t + (if t = u then 1 else 0))"
  by (auto simp: make_texture_view_def assert_that_eq_Inr split: option.splits)

lemma texture_held: "create_texture dev d bytes pitch g = Inr (t, g1) \<Longrightarrow> all_held g \<Longrightarrow> all_held g1"
  by (auto simp: all_held_def dest: texture_created)

lemma view_held: "make_texture_view dev u g = Inr (v, g1) \<Longrightarrow> all_held g \<Longrightarrow> all_held g1"
  by (auto simp: all_held_def dest: view_created)

lemma shader_resource_held:
  "make_shader_resource dev w h bytes dynamic g = Inr (r, g1) \<Longrightarrow> all_held g \<Longrightarrow> all_held g1"
  by (auto simp: make_shader_resource_def make_dynamic_texture_def make_default_texture_def and_then_eq_Inr
      dest: texture_held view_held split: if_splits)

lemma filled_resource_held:
  "make_filled_resource dev w h fill dynamic g = Inr (r, g1) \<Longrightarrow> all_held g \<Longrightarrow> all_held g1"
  by (auto simp: make_filled_resource_def dest: shader_resource_held split: if_splits)

interpretation texture_holder: object_holder "make_default_texture dev" for dev
  by unfold_locales (auto simp: make_default_texture_def and_then_eq_Inr dest: texture_held)

interpretation resource_holder: object_holder "\<lambda>w h bytes. make_shader_resource dev w h bytes False" for dev
  by unfold_locales (rule shader_resource_held)

interpretation ring_holder: object_holder "\<lambda>w h bytes. make_filled_resource dev w h (- 128) False" for dev
  by unfold_locales (rule filled_resource_held)

text \<open>A resource passed to the deleter is given back, the view and the texture once each.\<close>

lemma resource_given_back:
  assumes "make_shader_resource dev w h bytes dynamic g = Inr (r, g1)"
  shows "held (delete_resource r g1) t = held g t" and "shader r \<noteq> texture r"
  using assms
  by (auto simp: make_shader_resource_def make_dynamic_texture_def make_default_texture_def and_then_eq_Inr
      delete_resource_held dest!: texture_created view_created split: if_splits)

section \<open>What the plugin gives back\<close>

datatype graphic_use =
    Device_use device_event | Store_use "nat option" "nat option" "nat option" bool
  | Create_use int int int | Ring_use int int | Turn_use | Overwrite_use

text \<open>The uses of the entity, with what is handed to the engine: the views of the textures it created.\<close>

fun graphic_use_step ::
  "bool \<Rightarrow> device \<Rightarrow> graphic_use \<Rightarrow> engine \<times> gpu \<times> nat list \<Rightarrow> (engine \<times> gpu \<times> nat list) outcome" where
  "graphic_use_step left_first device (Device_use event) (u, g, given) =
     and_then (on_graphics_device_event Renderer_d3d11 device event u) (\<lambda>u1. Inr (u1, g, given))"
| "graphic_use_step left_first device (Store_use y u v temp) (s, g, given) =
     and_then (native_graphic_set_textures y u v temp s) (\<lambda>s1. Inr (s1, g, given))"
| "graphic_use_step left_first device (Create_use w h fill) (u, g, given) =
     and_then (native_graphic_create_textures w h fill (u, g)) (\<lambda>(view, g1). Inr (u, g1, given @ [view]))"
| "graphic_use_step left_first device (Ring_use w h) (u, g, given) =
     and_then (deref (graphic_entity u)) (\<lambda>e.
     and_then (emplace_ring_back_if_vacant left_first w h (e, g)) (\<lambda>(_, e1, g1).
       Inr (u\<lparr>graphic_entity := Some e1\<rparr>, g1, given)))"
| "graphic_use_step left_first device Turn_use (u, g, given) =
     and_then (deref (graphic_entity u)) (\<lambda>e.
     and_then (rotate_ring_front_if_full e) (\<lambda>(_, e1). Inr (u\<lparr>graphic_entity := Some e1\<rparr>, g, given)))"
| "graphic_use_step left_first device Overwrite_use (u, g, given) =
     and_then (deref (graphic_entity u)) (\<lambda>e. Inr (u, overwrite_main_texture e g, given))"

fun graphic_uses ::
  "bool \<Rightarrow> device \<Rightarrow> graphic_use list \<Rightarrow> engine \<times> gpu \<times> nat list \<Rightarrow> (engine \<times> gpu \<times> nat list) outcome" where
  "graphic_uses left_first device [] s = Inr s"
| "graphic_uses left_first device (c # cs) s =
     and_then (graphic_use_step left_first device c s) (graphic_uses left_first device cs)"

lemma overwrite_held: "all_held g \<Longrightarrow> all_held (overwrite_main_texture e g)"
  by (auto simp: overwrite_main_texture_def update_context_def all_held_def upt_rec numeral_2_eq_2 split: option.splits)

lemma graphic_use_held:
  "graphic_use_step left_first device c (u, g, given) = Inr (u1, g1, given1) \<Longrightarrow> all_held g \<Longrightarrow> all_held g1"
proof (cases c)
  case (Create_use w h fill)
  assume "graphic_use_step left_first device c (u, g, given) = Inr (u1, g1, given1)" "all_held g"
  with Create_use show ?thesis
    by (auto simp: native_graphic_create_textures_def and_then_eq_Inr dest: filled_resource_held split: option.splits)
next
  case (Ring_use w h)
  assume "graphic_use_step left_first device c (u, g, given) = Inr (u1, g1, given1)" "all_held g"
  with Ring_use show ?thesis
    by (auto simp: emplace_ring_back_if_vacant_def and_then_eq_Inr deref_Inr simp del: make_planes.simps
        dest: ring_holder.planes_held split: if_splits)
qed (auto simp: and_then_eq_Inr deref_Inr overwrite_held)

text \<open>
  Nothing is ever given back: whatever the engine does, its device and the entity going away included,
  every texture and view the entity made stays held, while every context is released. A texture of
  which only the view was handed to the engine, and the textures of a ring that is gone, are lost.
\<close>

lemma graphic_uses_hold:
  "graphic_uses left_first device cs (u, g, given) = Inr (u1, g1, given1) \<Longrightarrow> all_held g \<Longrightarrow>
    all_held g1"
proof (induction cs arbitrary: u g given)
  case (Cons c cs)
  then obtain u2 g2 given2 where "graphic_use_step left_first device c (u, g, given) = Inr (u2, g2, given2)"
    "graphic_uses left_first device cs (u2, g2, given2) = Inr (u1, g1, given1)"
    by (auto simp: and_then_eq_Inr)
  with Cons.IH Cons.prems(2) graphic_use_held show ?case by blast
qed simp

lemma sample_uses_leak:
  "case graphic_uses True sample_device [Device_use Initialize, Ring_use 4 2, Create_use 4 2 0, Device_use Shutdown]
      (sample_engine, sample_gpu, []) of
     Inl e \<Rightarrow> False
   | Inr (u, g, given) \<Rightarrow> graphic_entity u = None \<and> next_object g = 8 \<and> given = [7] \<and> (\<forall>t<8. held g t = 1)"
proof -
  let ?r = "graphic_uses True sample_device [Device_use Initialize, Ring_use 4 2, Create_use 4 2 0, Device_use Shutdown]
      (sample_engine, sample_gpu, [])"
  have "case ?r of Inl e \<Rightarrow> False | Inr (u, g, given) \<Rightarrow> graphic_entity u = None \<and> next_object g = 8 \<and> given = [7]"
    by code_simp
  then obtain u g where r: "?r = Inr (u, g, [7])" "graphic_entity u = None" "next_object g = 8"
    by (auto split: sum.splits)
  have "all_held sample_gpu" by (simp add: all_held_def sample_gpu_def held_def contexts_held_def)
  with graphic_uses_hold [OF r(1)] r show ?thesis by (simp add: all_held_def)
qed

end
