(* ===== verification/Media_Handles.thy ===== *)
theory Media_Handles
  imports Media
begin

text \<open>
  Who frees what FFmpeg allocates: the handles of frames and packets (\<^verbatim>\<open>src/multimedia/media.h\<close>) and of
  the io, format and codec contexts (\<^verbatim>\<open>context.h\<close>) are \<^verbatim>\<open>std::unique_ptr\<close>s with a deleter each. Their
  objects can be moved and not copied. Allocations are numbered; the calls that free are recorded.
\<close>

section \<open>Deleters\<close>

datatype av_kind = Av_frame | Av_packet | Av_io_context | Av_format_context | Av_codec_context

datatype av_free =
    Frame_free (freed_handle: nat) | Packet_free (freed_handle: nat) | Buffer_freep (freed_handle: nat)
  | Context_freep (freed_handle: nat) | Close_input (freed_handle: nat) | Codec_free (freed_handle: nat)

text \<open>
  The deleters of frames and packets ask for null themselves, and so do the functions of FFmpeg for
  format and codec contexts; that of an io context follows the pointer to its buffer.
\<close>

definition frame_deleter :: "nat option \<Rightarrow> av_free list outcome" where
  "frame_deleter object = (case object of None \<Rightarrow> Inr [] | Some h \<Rightarrow> Inr [Frame_free h])"

definition packet_deleter :: "nat option \<Rightarrow> av_free list outcome" where
  "packet_deleter object = (case object of None \<Rightarrow> Inr [] | Some h \<Rightarrow> Inr [Packet_free h])"

definition io_context_deleter :: "nat option \<Rightarrow> av_free list outcome" where
  "io_context_deleter context = and_then (deref context) (\<lambda>h. Inr [Buffer_freep h, Context_freep h])"

definition format_context_deleter :: "nat option \<Rightarrow> av_free list outcome" where
  "format_context_deleter context = (case context of None \<Rightarrow> Inr [] | Some h \<Rightarrow> Inr [Close_input h])"

definition codec_context_deleter :: "nat option \<Rightarrow> av_free list outcome" where
  "codec_context_deleter context = (case context of None \<Rightarrow> Inr [] | Some h \<Rightarrow> Inr [Codec_free h])"

fun handle_deleter :: "av_kind \<Rightarrow> nat option \<Rightarrow> av_free list outcome" where
  "handle_deleter Av_frame = frame_deleter"
| "handle_deleter Av_packet = packet_deleter"
| "handle_deleter Av_io_context = io_context_deleter"
| "handle_deleter Av_format_context = format_context_deleter"
| "handle_deleter Av_codec_context = codec_context_deleter"

lemmas deleter_defs =
  frame_deleter_def packet_deleter_def io_context_deleter_def format_context_deleter_def codec_context_deleter_def

section \<open>Objects and their handles\<close>

record av_handles =
  handle_kinds :: "av_kind list"
  objects :: "nat \<Rightarrow> (av_kind \<times> nat option) option"
  frees :: "av_free list"

definition no_handles :: av_handles where
  "no_handles = \<lparr>handle_kinds = [], objects = (\<lambda>_. None), frees = []\<rparr>"

text \<open>The pointer calls its deleter only when it is not null.\<close>

definition reset_handle :: "av_kind \<Rightarrow> nat option \<Rightarrow> av_handles \<Rightarrow> av_handles outcome" where
  "reset_handle kind object s =
     (if object = None then Inr s
      else and_then (handle_deleter kind object) (\<lambda>calls. Inr (s\<lparr>frees := frees s @ calls\<rparr>)))"

text \<open>\<open>frame()\<close> and its like: the library allocates, or answers null. \<open>frame(nullptr)\<close> holds nothing.\<close>

definition make_handle :: "nat \<Rightarrow> av_kind \<Rightarrow> bool \<Rightarrow> av_handles \<Rightarrow> av_handles" where
  "make_handle x kind allocated s =
     (if allocated
      then s\<lparr>handle_kinds := handle_kinds s @ [kind], objects := (objects s)(x \<mapsto> (kind, Some (length (handle_kinds s))))\<rparr>
      else s\<lparr>objects := (objects s)(x \<mapsto> (kind, None))\<rparr>)"

definition null_handle :: "nat \<Rightarrow> av_kind \<Rightarrow> av_handles \<Rightarrow> av_handles" where
  "null_handle x kind s = s\<lparr>objects := (objects s)(x \<mapsto> (kind, None))\<rparr>"

definition move_construct :: "nat \<Rightarrow> av_kind \<Rightarrow> nat \<Rightarrow> nat option \<Rightarrow> av_handles \<Rightarrow> av_handles" where
  "move_construct x kind y object s = s\<lparr>objects := (objects s)(y \<mapsto> (kind, None), x \<mapsto> (kind, object))\<rparr>"

text \<open>The pointer of the source is released first, then the old object of the target is freed.\<close>

definition move_assign :: "nat \<Rightarrow> av_kind \<Rightarrow> nat \<Rightarrow> av_handles \<Rightarrow> av_handles outcome" where
  "move_assign x kind y s =
     (let moved = snd (the (objects s y));
          s1 = s\<lparr>objects := (objects s)(y \<mapsto> (kind, None))\<rparr>;
          old = snd (the (objects s1 x))
      in reset_handle kind old (s1\<lparr>objects := (objects s1)(x \<mapsto> (kind, moved))\<rparr>))"

definition destroy_object :: "nat \<Rightarrow> av_kind \<Rightarrow> nat option \<Rightarrow> av_handles \<Rightarrow> av_handles outcome" where
  "destroy_object x kind object s = reset_handle kind object (s\<lparr>objects := (objects s)(x := None)\<rparr>)"

datatype handle_op =
    Make_handle nat av_kind bool | Null_handle nat av_kind | Move_construct nat nat | Move_assign nat nat | Destroy nat

text \<open>Programs are well scoped: what is made is new, what is used is there, and types agree.\<close>

fun handle_op_run :: "handle_op \<Rightarrow> av_handles \<Rightarrow> av_handles outcome option" where
  "handle_op_run (Make_handle x kind allocated) s =
     (if objects s x = None then Some (Inr (make_handle x kind allocated s)) else None)"
| "handle_op_run (Null_handle x kind) s = (if objects s x = None then Some (Inr (null_handle x kind s)) else None)"
| "handle_op_run (Move_construct x y) s =
     (case objects s y of
        None \<Rightarrow> None
      | Some (kind, object) \<Rightarrow> if objects s x = None then Some (Inr (move_construct x kind y object s)) else None)"
| "handle_op_run (Move_assign x y) s =
     (case (objects s x, objects s y) of
        (Some (kind, old), Some (kind1, object)) \<Rightarrow> if kind = kind1 then Some (move_assign x kind y s) else None
      | _ \<Rightarrow> None)"
| "handle_op_run (Destroy x) s =
     (case objects s x of None \<Rightarrow> None | Some (kind, object) \<Rightarrow> Some (destroy_object x kind object s))"

fun handle_ops_run :: "handle_op list \<Rightarrow> av_handles \<Rightarrow> av_handles outcome option" where
  "handle_ops_run [] s = Some (Inr s)"
| "handle_ops_run (op # ops) s =
     (case handle_op_run op s of
        Some (Inr t) \<Rightarrow> handle_ops_run ops t
      | r \<Rightarrow> r)"

section \<open>Freed once\<close>

text \<open>The calls that free a handle, and the objects that own one.\<close>

definition frees_of :: "av_handles \<Rightarrow> nat \<Rightarrow> av_free list" where
  "frees_of s h = filter (\<lambda>c. freed_handle c = h) (frees s)"

definition owned :: "av_handles \<Rightarrow> nat \<Rightarrow> bool" where
  "owned s h \<longleftrightarrow> (\<exists>x kind. objects s x = Some (kind, Some h))"

definition handles_ok :: "av_handles \<Rightarrow> bool" where
  "handles_ok s \<longleftrightarrow>
     (\<forall>x kind h. objects s x = Some (kind, Some h) \<longrightarrow> h < length (handle_kinds s) \<and> handle_kinds s ! h = kind) \<and>
     (\<forall>x y kx ky h. objects s x = Some (kx, Some h) \<longrightarrow> objects s y = Some (ky, Some h) \<longrightarrow> x = y) \<and>
     (\<forall>h. if h < length (handle_kinds s) \<and> \<not> owned s h then handle_deleter (handle_kinds s ! h) (Some h) = Inr (frees_of s h)
          else frees_of s h = [])"

lemma deleter_calls:
  "\<exists>calls. handle_deleter kind (Some h) = Inr calls \<and> (\<forall>c\<in>set calls. freed_handle c = h)"
  by (cases kind) (auto simp: deleter_defs)

text \<open>The parts of the invariant that the objects decide: who owns a handle and that it is only one.\<close>

lemma handles_okI:
  assumes "\<And>x kind h. objects s x = Some (kind, Some h) \<Longrightarrow> h < length (handle_kinds s) \<and> handle_kinds s ! h = kind"
    and "\<And>x y kx ky h. objects s x = Some (kx, Some h) \<Longrightarrow> objects s y = Some (ky, Some h) \<Longrightarrow> x = y"
    and "\<And>h. h < length (handle_kinds s) \<Longrightarrow> \<not> owned s h \<Longrightarrow> handle_deleter (handle_kinds s ! h) (Some h) = Inr (frees_of s h)"
    and "\<And>h. length (handle_kinds s) \<le> h \<or> owned s h \<Longrightarrow> frees_of s h = []"
  shows "handles_ok s"
  using assms unfolding handles_ok_def by (metis not_less)

lemma handles_okD:
  assumes "handles_ok s"
  shows "objects s x = Some (kind, Some h) \<Longrightarrow> h < length (handle_kinds s) \<and> handle_kinds s ! h = kind"
    and "objects s x = Some (kx, Some h) \<Longrightarrow> objects s y = Some (ky, Some h) \<Longrightarrow> x = y"
    and "h < length (handle_kinds s) \<Longrightarrow> \<not> owned s h \<Longrightarrow> handle_deleter (handle_kinds s ! h) (Some h) = Inr (frees_of s h)"
    and "length (handle_kinds s) \<le> h \<or> owned s h \<Longrightarrow> frees_of s h = []"
  using assms unfolding handles_ok_def by (metis not_less)+

text \<open>Objects change hands: the same handles are owned, each by one object.\<close>

lemma handles_ok_moved:
  assumes ok: "handles_ok s" and t: "handle_kinds t = handle_kinds s" "frees t = frees s"
    and owned: "\<And>h. owned t h = owned s h"
    and kinds: "\<And>x kind h. objects t x = Some (kind, Some h) \<Longrightarrow> \<exists>y. objects s y = Some (kind, Some h)"
    and unique: "\<And>x y kx ky h. objects t x = Some (kx, Some h) \<Longrightarrow> objects t y = Some (ky, Some h) \<Longrightarrow> x = y"
  shows "handles_ok t"
proof (rule handles_okI)
  show "h < length (handle_kinds t) \<and> handle_kinds t ! h = kind" if "objects t x = Some (kind, Some h)" for x kind h
    using kinds [OF that] handles_okD(1) [OF ok] t(1) by auto
  show "x = y" if "objects t x = Some (kx, Some h)" "objects t y = Some (ky, Some h)" for x y kx ky h
    using unique that .
qed (use handles_okD(3,4) [OF ok] t owned in \<open>simp_all add: frees_of_def\<close>)

text \<open>An object loses its handle, which is freed.\<close>

lemma handles_ok_freed:
  assumes ok: "handles_ok s" and x: "objects s x = Some (kind, Some h)" and new: "new = None \<or> new = Some (kind, None)"
  shows "\<exists>calls. reset_handle kind (Some h) (s\<lparr>objects := (objects s)(x := new)\<rparr>) =
      Inr (s\<lparr>objects := (objects s)(x := new), frees := frees s @ calls\<rparr>) \<and>
    handles_ok (s\<lparr>objects := (objects s)(x := new), frees := frees s @ calls\<rparr>)"
proof -
  obtain calls where calls: "handle_deleter kind (Some h) = Inr calls" "\<forall>c\<in>set calls. freed_handle c = h"
    using deleter_calls by blast
  let ?t = "s\<lparr>objects := (objects s)(x := new), frees := frees s @ calls\<rparr>"
  have h: "h < length (handle_kinds s)" "handle_kinds s ! h = kind" using handles_okD(1) [OF ok x] by auto
  have only: "y = x" if "objects s y = Some (k, Some h)" for y k using handles_okD(2) [OF ok that x] .
  have old: "objects s y = Some (k, Some i)" "y \<noteq> x" if "objects ?t y = Some (k, Some i)" for y k i
    using that new by (auto split: if_splits)
  have owned: "owned ?t i \<longleftrightarrow> owned s i \<and> i \<noteq> h" for i
  proof
    assume "owned ?t i"
    with old only show "owned s i \<and> i \<noteq> h" unfolding owned_def by metis
  next
    assume "owned s i \<and> i \<noteq> h"
    then obtain y k where y: "objects s y = Some (k, Some i)" and "i \<noteq> h" unfolding owned_def by blast
    then have "y \<noteq> x" using x by auto
    with y show "owned ?t i" by (auto simp: owned_def)
  qed
  have frees: "frees_of ?t i = (if i = h then frees_of s i @ calls else frees_of s i)" for i
    using calls(2) by (auto simp: frees_of_def filter_id_conv filter_empty_conv)
  have none: "frees_of s h = []" by (rule handles_okD(4) [OF ok]) (use x in \<open>auto simp: owned_def\<close>)
  have "handles_ok ?t"
  proof (rule handles_okI)
    show "i < length (handle_kinds ?t) \<and> handle_kinds ?t ! i = k" if "objects ?t y = Some (k, Some i)" for y k i
      using handles_okD(1) [OF ok old(1) [OF that]] by simp
    show "y = z" if "objects ?t y = Some (ky, Some i)" "objects ?t z = Some (kz, Some i)" for y z ky kz i
      using handles_okD(2) [OF ok old(1) [OF that(1)] old(1) [OF that(2)]] .
    show "handle_deleter (handle_kinds ?t ! i) (Some i) = Inr (frees_of ?t i)"
      if "i < length (handle_kinds ?t)" "\<not> owned ?t i" for i
      using that handles_okD(3) [OF ok, of i] owned [of i] frees [of i] h calls(1) none by (cases "i = h") auto
    show "frees_of ?t i = []" if "length (handle_kinds ?t) \<le> i \<or> owned ?t i" for i
      using that handles_okD(4) [OF ok, of i] owned [of i] frees [of i] h by auto
  qed
  with calls(1) show ?thesis by (auto simp: reset_handle_def)
qed

text \<open>An object without a handle is made, replaced by another or destroyed.\<close>

lemma handles_ok_null:
  assumes ok: "handles_ok s" and x: "objects s x = None \<or> (\<exists>kind. objects s x = Some (kind, None))"
    and new: "new = None \<or> new = Some (kind, None)"
  shows "handles_ok (s\<lparr>objects := (objects s)(x := new)\<rparr>)"
proof (rule handles_ok_moved [OF ok])
  let ?t = "s\<lparr>objects := (objects s)(x := new)\<rparr>"
  have same: "objects ?t y = Some (k, Some h) \<longleftrightarrow> objects s y = Some (k, Some h)" for y k h
    using x new by auto
  show "owned ?t h = owned s h" for h by (simp only: owned_def same)
  show "\<exists>z. objects s z = Some (k, Some h)" if "objects ?t y = Some (k, Some h)" for y k h using that same by blast
  show "y = z" if "objects ?t y = Some (ky, Some h)" "objects ?t z = Some (kz, Some h)" for y z ky kz h
    using handles_okD(2) [OF ok] that unfolding same by blast
qed simp_all

text \<open>A new object, with a new handle or none.\<close>

lemma handles_ok_made:
  assumes ok: "handles_ok s" and x: "objects s x = None"
  shows "handles_ok (make_handle x kind allocated s)"
proof (cases allocated)
  case True
  let ?n = "length (handle_kinds s)"
  let ?t = "make_handle x kind allocated s"
  have t: "handle_kinds ?t = handle_kinds s @ [kind]" "objects ?t = (objects s)(x \<mapsto> (kind, Some ?n))" "frees ?t = frees s"
    using True by (simp_all add: make_handle_def)
  have owned: "owned ?t h \<longleftrightarrow> owned s h \<or> h = ?n" for h
  proof
    assume "owned ?t h"
    then show "owned s h \<or> h = ?n" by (auto simp: owned_def t split: if_splits)
  next
    have "objects ?t y = Some (k, Some h)" if "objects s y = Some (k, Some h)" for y k using that x by (auto simp: t)
    moreover have "objects ?t x = Some (kind, Some ?n)" by (simp add: t)
    moreover assume "owned s h \<or> h = ?n"
    ultimately show "owned ?t h" unfolding owned_def by blast
  qed
  have bound: "h < ?n" if "objects s y = Some (k, Some h)" for y k h using handles_okD(1) [OF ok that] by simp
  show ?thesis
  proof (rule handles_okI)
    show "h < length (handle_kinds ?t) \<and> handle_kinds ?t ! h = k" if "objects ?t y = Some (k, Some h)" for y k h
      using that handles_okD(1) [OF ok, of y k h] by (auto simp: t nth_append split: if_splits)
    show "y = z" if "objects ?t y = Some (ky, Some h)" "objects ?t z = Some (kz, Some h)" for y z ky kz h
      using that handles_okD(2) [OF ok, of y ky h z kz] bound by (fastforce simp: t split: if_splits)
    show "handle_deleter (handle_kinds ?t ! h) (Some h) = Inr (frees_of ?t h)"
      if "h < length (handle_kinds ?t)" "\<not> owned ?t h" for h
      using that handles_okD(3) [OF ok, of h] owned [of h] by (auto simp: t nth_append frees_of_def)
    show "frees_of ?t h = []" if "length (handle_kinds ?t) \<le> h \<or> owned ?t h" for h
      using that handles_okD(4) [OF ok, of h] owned [of h] by (auto simp: t frees_of_def)
  qed
next
  case False
  then show ?thesis using handles_ok_null [OF ok, of x "Some (kind, None)"] x by (simp add: make_handle_def)
qed

text \<open>Every operation keeps the invariant, and none dereferences null: that of a context's own buffer included.\<close>

lemma destroy_object_ok:
  assumes ok: "handles_ok s" and x: "objects s x = Some (kind, object)"
  shows "\<exists>t. destroy_object x kind object s = Inr t \<and> handles_ok t"
proof (cases object)
  case None
  then show ?thesis using handles_ok_null [OF ok, of x None] x by (simp add: destroy_object_def reset_handle_def)
next
  case (Some h)
  then show ?thesis using handles_ok_freed [OF ok, of x kind h None] x by (auto simp: destroy_object_def)
qed

text \<open>What a move gives: the handle is passed on.\<close>

lemma handles_ok_passed:
  assumes ok: "handles_ok s" and y: "objects s y = Some (kind, object)"
    and x: "objects s x = None \<or> (\<exists>k. objects s x = Some (k, None)) \<or> x = y"
  shows "handles_ok (s\<lparr>objects := (objects s)(y \<mapsto> (kind, None), x \<mapsto> (kind, object))\<rparr>)"
proof (rule handles_ok_moved [OF ok])
  let ?t = "s\<lparr>objects := (objects s)(y \<mapsto> (kind, None), x \<mapsto> (kind, object))\<rparr>"
  let ?src = "\<lambda>z. if z = x then y else z"
  have origin: "objects s (?src z) = Some (k, Some h) \<and> (z = x \<or> z \<noteq> y)" if "objects ?t z = Some (k, Some h)" for z k h
    using that y by (auto split: if_splits)
  have target: "\<exists>z. objects ?t z = Some (k, Some h)" if "objects s w = Some (k, Some h)" for w k h
  proof (cases "w = y")
    case True
    then have "objects ?t x = Some (k, Some h)" using that y by simp
    then show ?thesis ..
  next
    case False
    then have "objects ?t w = Some (k, Some h)" using that x by auto
    then show ?thesis ..
  qed
  show "owned ?t h = owned s h" for h using origin target unfolding owned_def by blast
  show "\<exists>w. objects s w = Some (k, Some h)" if "objects ?t z = Some (k, Some h)" for z k h using origin [OF that] by blast
  show "z = w" if "objects ?t z = Some (kz, Some h)" "objects ?t w = Some (kw, Some h)" for z w kz kw h
  proof -
    have "?src z = ?src w" using handles_okD(2) [OF ok] origin [OF that(1)] origin [OF that(2)] by blast
    then show ?thesis using origin [OF that(1)] origin [OF that(2)] by (auto split: if_splits)
  qed
qed simp_all

lemma move_assign_ok:
  assumes ok: "handles_ok s" and x: "objects s x = Some (kind, old)" and y: "objects s y = Some (kind, object)"
  shows "\<exists>t. move_assign x kind y s = Inr t \<and> handles_ok t"
proof (cases "x = y \<or> old = None")
  case True
  then have "objects s x = None \<or> (\<exists>k. objects s x = Some (k, None)) \<or> x = y" using x by auto
  then show ?thesis using handles_ok_passed [OF ok y, of x] True x y by (auto simp: move_assign_def reset_handle_def)
next
  case False
  then obtain h where xy: "x \<noteq> y" and h: "old = Some h" by auto
  obtain calls where free: "reset_handle kind (Some h) (s\<lparr>objects := (objects s)(x := Some (kind, None))\<rparr>) =
        Inr (s\<lparr>objects := (objects s)(x := Some (kind, None)), frees := frees s @ calls\<rparr>)"
      and s1: "handles_ok (s\<lparr>objects := (objects s)(x := Some (kind, None)), frees := frees s @ calls\<rparr>)"
    using handles_ok_freed [OF ok, of x kind h "Some (kind, None)"] x h by auto
  from free have calls: "handle_deleter kind (Some h) = Inr calls"
    by (cases "handle_deleter kind (Some h)") (auto simp: reset_handle_def dest: arg_cong [where f = frees])
  have "handles_ok (s\<lparr>objects := (objects s)(y \<mapsto> (kind, None), x \<mapsto> (kind, object)), frees := frees s @ calls\<rparr>)"
  proof -
    let ?f = "(objects s)(y \<mapsto> (kind, None), x \<mapsto> (kind, object))"
    let ?s1 = "s\<lparr>objects := (objects s)(x := Some (kind, None)), frees := frees s @ calls\<rparr>"
    have f: "((objects s)(x := Some (kind, None)))(y \<mapsto> (kind, None), x \<mapsto> (kind, object)) = ?f" by (rule ext) simp
    have "handles_ok (?s1\<lparr>objects := (objects ?s1)(y \<mapsto> (kind, None), x \<mapsto> (kind, object))\<rparr>)"
      by (rule handles_ok_passed [OF s1]) (use y xy in simp_all)
    moreover have "?s1\<lparr>objects := (objects ?s1)(y \<mapsto> (kind, None), x \<mapsto> (kind, object))\<rparr> =
        s\<lparr>objects := ?f, frees := frees s @ calls\<rparr>" using f by simp
    ultimately show ?thesis by (simp only:)
  qed
  then show ?thesis using x y xy h calls by (simp add: move_assign_def reset_handle_def)
qed

lemma handle_op_ok:
  assumes "handles_ok s" and "handle_op_run op s = Some r"
  shows "\<exists>t. r = Inr t \<and> handles_ok t"
proof (cases op)
  case (Make_handle x kind allocated)
  then show ?thesis using assms handles_ok_made by (auto split: if_splits)
next
  case (Null_handle x kind)
  then show ?thesis using assms handles_ok_null [of s x "Some (kind, None)"] by (auto simp: null_handle_def split: if_splits)
next
  case (Move_construct x y)
  then show ?thesis using assms handles_ok_passed [of s y _ _ x]
    by (auto simp: move_construct_def split: option.splits if_splits)
next
  case (Move_assign x y)
  then show ?thesis using assms move_assign_ok by (auto split: option.splits if_splits)
next
  case (Destroy x)
  then show ?thesis using assms destroy_object_ok by (auto split: option.splits)
qed

lemma handle_ops_ok:
  "handles_ok s \<Longrightarrow> handle_ops_run ops s = Some r \<Longrightarrow> \<exists>t. r = Inr t \<and> handles_ok t"
proof (induction ops arbitrary: s)
  case Nil
  then show ?case by auto
next
  case (Cons op ops)
  then show ?case using handle_op_ok [of s op]
    by (fastforce split: option.splits sum.splits)
qed

lemma no_handles_ok: "handles_ok no_handles"
  by (simp add: handles_ok_def no_handles_def owned_def frees_of_def)



end
