(* ===== verification/Spec2Isabelle.thy ===== *)
theory Spec2Isabelle
  imports Core_Files Core_Runtime Barrier Latch Random_Access Http_Exchange Connector Acceptor
    Server_App Net_Config Mpd_Assembly Player_Run Library_Lifecycle Graphic Trace_Store Trace_Table
    Meta_Traits Scope_Guard Async_Chain Legacy_Barrier Engine_Interface Texture_Lifetime
    Media_Handles
begin

text \<open>
  A verification development for gallery360, a player of 360 degree video in tiles.

  \<^bold>\<open>The program.\<close> \<^verbatim>\<open>src/multimedia/command.cpp\<close> prepares a video: it crops it into tiles, transcodes and
  segments each at several bit rates and merges the manifests of the tiles into one. The server
  (\<^verbatim>\<open>src/server\<close>, over \<^verbatim>\<open>src/network/acceptor.cpp\<close> and \<^verbatim>\<open>src/network/session.server.cpp\<close>) serves the files over
  HTTP. The player (\<^verbatim>\<open>src/gallery/plugin.cpp\<close>, a library loaded by a graphics engine) downloads the
  manifest and, tile by tile, its segments (\<^verbatim>\<open>src/network/dash.manager.cpp\<close> over \<^verbatim>\<open>connector.cpp\<close> and
  \<^verbatim>\<open>session.client.cpp\<close>), decodes them (\<^verbatim>\<open>src/multimedia/io.segmentor.cpp\<close> over \<^verbatim>\<open>context.cpp\<close>) and
  hands the frames to the engine's textures (\<^verbatim>\<open>plugin.context.h\<close>, \<^verbatim>\<open>src/gallery/graphic.cpp\<close>).

  \<^bold>\<open>How it is modelled.\<close> A class or struct is a record, an enumeration or a variant a datatype. A function
  is a definition that takes and returns the state explicitly. A call that can fail returns an
  \<open>outcome\<close> (theory \<open>Prelude\<close>): an exception, a failed assertion of a debug build, undefined behaviour or
  termination on the left, the value on the right. Signed integers are \<open>int\<close>, division truncates as in
  C++ (\<open>cdiv\<close>, with division by zero undefined), and sizes of textures are \<open>32 word\<close>. Asynchronous code
  is a state with one function for each handler, and an event or step says which handler runs next; all
  claims on such code hold for every order of events. Loops that may not end are \<open>partial_function\<close> or
  step relations, and that they end is a claim of its own (\<open>consume_loop\<close>, \<open>read_loop\<close>, the transcoding
  passes, the run of a client session); the other loops are structural recursions. The only fuel is
  the bound on the number of reads in \<open>drain\<close> (\<open>Cursor\<close>), for which one more than the length of the content is
  shown to be enough; \<open>session_work\<close> counts the steps a client session can still take.

  Code that is not in the repository is a parameter: the network, the resolver and the file system as
  events or functions, FFmpeg as a record of functions (\<open>codec_library\<close>), the JSON and XML libraries as
  interfaces on abstract documents, regular expressions by what their patterns match, decimal text by
  the locale \<open>decimal_text\<close>, the logging library by what it registers (\<open>logger_registry\<close>), the graphics
  device by what it creates. What is assumed of them stands in
  the hypotheses of the theorems, and witnesses satisfy these with concrete functions.

  \<^bold>\<open>The theories.\<close>
  \<^item> \<open>Prelude\<close>: outcomes, C++ division, decimal text and its interface, lists and strings.
  \<^item> \<open>Core_Values\<close>, \<open>Core_Verify\<close>, \<open>Core_Files\<close>, \<open>Core_Runtime\<close>: \<^verbatim>\<open>src/core\<close>, that is coordinates and
    dimensions, exceptions and \<open>verify\<close>, directories over an explicit file system, thread pools and locks.
  \<^item> \<open>Loggers\<close>, \<open>Scope_Guard\<close>, \<open>Meta_Traits\<close>: the rest of \<^verbatim>\<open>src/core\<close>. Who registers which logger under which
    name; the guard, whose callable runs once for each object; and the templates of \<^verbatim>\<open>src/core/meta\<close> as
    functions on types, which agree with membership, position and maximum on lists.
  \<^item> \<open>Barrier\<close>, \<open>Latch\<close>: \<^verbatim>\<open>src/core/barrier.hpp\<close> and \<^verbatim>\<open>latch.hpp\<close> with each atomic access a step: rounds
    stay separate, nothing is stuck, and how dropping out last hangs. \<open>Legacy_Barrier\<close>: the runs
    of the legacy barrier, which a macro that is not set compiles, are runs of the other.
  \<^item> \<open>Async_Chain\<close>: \<^verbatim>\<open>src/core/async_chain.hpp\<close>, in the same way. Callables are called in the order of the
    exchanges, failed attempts give up, and a chain settles; how waiting falls short, and
    what a caller that asked for a future finds in it. The header does not
    compile as it is and nothing uses it: its futures are read as those of \<^verbatim>\<open>std::async\<close>.
  \<^item> \<open>Cursor\<close>, \<open>Random_Access\<close>: \<^verbatim>\<open>src/multimedia/io.cursor.cpp\<close>, the read and seek callbacks over lists of
    buffers, and that the two cursors read alike.
  \<^item> \<open>Promises\<close>, \<open>Net_Http\<close>, \<open>Client_Session\<close>, \<open>Connector\<close>, \<open>Server_Session\<close>, \<open>Acceptor\<close>, \<open>Server_App\<close>:
    \<^verbatim>\<open>src/network\<close> and \<^verbatim>\<open>src/server\<close>. Promises are settled in order and at most once, responses go to
    their requests, no handler dereferences an empty queue, and every request is answered. \<open>Http_Exchange\<close>
    joins the two sessions: the bytes a caller gets are the file its request names.
  \<^item> \<open>Documents\<close>, \<open>Net_Config\<close>, \<open>Dash_Protocol\<close>: the configuration and the MPD parser over interfaces of
    documents.
  \<^item> \<open>Dash_Manager\<close>: prediction and tile streamers, as a refinement of a plan of requests.
  \<^item> \<open>Media\<close>, \<open>Segmentor\<close>: packets, frames, codec contexts and the segmentor, which delivers every frame of
    its stream in order. \<open>Media_Handles\<close>: the objects that own what FFmpeg allocates, which is freed once.
  \<^item> \<open>Command\<close>, \<open>Mpd_Merge\<close>, \<open>Mpd_Assembly\<close>: the preparation of tiles and the merge of their manifests.
  \<^item> \<open>Tile_Stream\<close>, \<open>Player_Config\<close>, \<open>Player\<close>: one tile's stream with its three threads, the
    configuration, and the functions the engine calls.
  \<^item> \<open>Tile_Playback\<close>: a tile from end to end. The parameters of \<open>Tile_Stream\<close> are the operations of
    \<open>Segmentor\<close>, the buffers those of the streamer of \<open>Dash_Manager\<close>; what reaches the screen are the frames
    of the planned segments in order, none lost.
  \<^item> \<open>Player_Run\<close>: the whole player at work, over one table of streams and one flag for the end. What happens
    at a tile, reached by its pointer, coordinate or user data, is a run of that tile alone.
  \<^item> \<open>Library_Lifecycle\<close>: starting and stopping the player as a library, and when it can be started again.
  \<^item> \<open>Graphic\<close>: textures, the ring of textures and the device events of \<^verbatim>\<open>src/gallery/graphic.cpp\<close>.
    \<open>Texture_Lifetime\<close> counts the references the plugin holds on what the device makes.
  \<^item> \<open>Engine_Interface\<close>: what the plugin uses of the headers in \<^verbatim>\<open>src/gallery/unity\<close>: identifiers of interfaces,
    which are linearly ordered, and the numbers and the struct of a texture update, down to the player's handler.
  \<^item> \<open>Trace_Store\<close>, \<open>Trace_Table\<close>: the two trace databases of \<^verbatim>\<open>src/gallery\<close>.

  The interfaces between components are locales: byte readers and sources (\<open>Cursor\<close>), promises that are
  settled once and in order (\<open>Promises\<close>), sources of frames (\<open>Segmentor\<close>), decoders of buffers
  (\<open>frame_decoder\<close> in \<open>Tile_Playback\<close>, which \<open>tile_pipeline\<close> provides), registries of loggers (\<open>Loggers\<close>), documents (\<open>Documents\<close>,
  \<open>Mpd_Assembly\<close>), decimal text and the names of tiles (\<open>Prelude\<close>, \<open>Mpd_Merge\<close>), and makers of objects on
  the device (\<open>Graphic\<close>, and \<open>object_holder\<close> in \<open>Texture_Lifetime\<close>). Each is interpreted in the theory of
  the component that provides it.

  \<^bold>\<open>Not modelled.\<close> The texts and levels that are logged and reference casts have no state or result.
  The traits that ask whether an expression is valid (\<^verbatim>\<open>is_hashable\<close>, \<^verbatim>\<open>has_operator_dereference\<close>) and what
  the preprocessor leaves out of \<^verbatim>\<open>future_trait.hpp\<close> and \<^verbatim>\<open>session.base.h\<close> are left to the compiler.
  \<open>on_render_event\<close> of the player is compiled only under a macro that is
  not set and calls a function that is not there. What the headers of the engine declare beside
  \<open>Engine_Interface\<close>, the tests, the scripts and the precompiled headers hold no code of the program.
  Memory orders weaker than sequential consistency are not distinguished: the steps of \<open>Barrier\<close>, \<open>Latch\<close>,
  \<open>Async_Chain\<close> and \<open>Trace_Store\<close> interleave.
\<close>

section \<open>From the merged manifest to the parser\<close>

text \<open>
  Claim C39. The spatial description that the merge writes for a tile is read by the player's parser as
  the tile's coordinate, its size of one by one, and the size of the grid, for any way of writing decimal
  text that reads back.
\<close>

theorem spatial_description_round_trip:
  assumes decimals: "decimal_text fmt_int to_int" and coordinate: "0 \<le> c" "0 \<le> r" and grid: "0 \<le> w" "0 \<le> h"
  shows "split_spatial_description to_int (spatial_relationship fmt_int w h (c, r)) = Inr [c, r, 1, 1, w, h]"
proof -
  have no: "CHR '','' \<notin> set (fmt_int 0)"
    by (rule decimal_text.fmt_int_no [OF decimals]) (simp_all add: minus_not_digit)
  have "split_spatial_description to_int
      (fmt_int 0 @ CHR '','' # join (CHR '','') (map fmt_int [c, r, 1, 1, w, h])) = Inr [c, r, 1, 1, w, h]"
    by (rule decimal_text.split_spatial_description_fmt [OF decimals no]) (use coordinate grid in auto)
  then show ?thesis by (simp add: spatial_relationship_def)
qed

lemma spatial_description_round_trip_witness:
  "split_spatial_description read_int (spatial_relationship show_int 5 3 (2, 1)) = Inr [2, 1, 1, 1, 5, 3]"
  by (rule spatial_description_round_trip [OF decimal.decimal_text_axioms]) simp_all

end
